(* ===== verification/Prelude.thy ===== *)
theory Prelude
  imports Main "HOL-Library.Char_ord" "HOL-Library.List_Lexorder" "HOL-Library.AList"
    "HOL-Library.Sublist" "HOL-Library.Word"
begin

unbundle bit_operations_syntax

text \<open>
  Shared vocabulary of the development: Go strings and byte slices (both are byte
  sequences, here \<^typ>\<open>string\<close>), the few functions of Go's \<open>strings\<close> and \<open>strconv\<close>
  packages that the program uses, 64-bit wrap-around, and the lemma collections the
  component theories extend.
\<close>

type_synonym bytes = string

named_theorems go_simps "unfolding rules for the modelled standard-library functions"
named_theorems inv_intros "introduction rules for the component invariants"

subsection \<open>Byte strings\<close>

definition ascii :: "nat list \<Rightarrow> bytes" where
  "ascii ns = List.map char_of ns"

definition code :: "char \<Rightarrow> nat" where
  "code c = of_char c"

lemma code_less [simp]: "code c < 256"
  by (simp add: code_def)

lemma char_of_code [simp]: "char_of (code c) = c"
  by (simp add: code_def)

lemma code_char_of [simp]: "n < 256 \<Longrightarrow> code (char_of n) = n"
  by (simp add: code_def)

definition hasPrefix :: "string \<Rightarrow> string \<Rightarrow> bool" where
  "hasPrefix s p = prefix p s"

definition hasSuffix :: "string \<Rightarrow> string \<Rightarrow> bool" where
  "hasSuffix s p = suffix p s"

definition trimPrefix :: "string \<Rightarrow> string \<Rightarrow> string" where
  "trimPrefix s p = (if hasPrefix s p then drop (length p) s else s)"

text \<open>
  \<open>strings.TrimSpace\<close> removes the code points of \<open>unicode.IsSpace\<close> at both ends; these
  are their UTF-8 encodings.
\<close>

definition goSpaces :: "bytes list" where
  "goSpaces = List.map ascii
     ([[9], [10], [11], [12], [13], [32], [194, 133], [194, 160], [225, 154, 128]]
      @ List.map (\<lambda>b. [226, 128, b]) [128..<139]
      @ [[226, 128, 168], [226, 128, 169], [226, 128, 175], [226, 129, 159], [227, 128, 128]])"

fun trimBy :: "bytes list \<Rightarrow> nat \<Rightarrow> bytes \<Rightarrow> bytes" where
  "trimBy sp 0 s = s"
| "trimBy sp (Suc n) s =
     (case List.find (\<lambda>w. prefix w s) sp of
        None \<Rightarrow> s
      | Some w \<Rightarrow> trimBy sp n (drop (length w) s))"

definition trimSpace :: "string \<Rightarrow> string" where
  "trimSpace s =
     (let l = trimBy goSpaces (length s) s
      in rev (trimBy (List.map rev goSpaces) (length l) (rev l)))"

subsection \<open>64-bit integers\<close>

text \<open>Go's \<open>int64\<close> arithmetic wraps around; \<open>wrap64\<close> reads an exact result back as the
  two's-complement value the machine holds.\<close>

definition wrap64 :: "int \<Rightarrow> int" where
  "wrap64 x = (x + 2 ^ 63) mod 2 ^ 64 - 2 ^ 63"

definition int64 :: "int \<Rightarrow> bool" where
  "int64 x \<longleftrightarrow> - (2 ^ 63) \<le> x \<and> x < 2 ^ 63"

lemma wrap64_range: "int64 (wrap64 x)"
proof -
  have "0 \<le> (x + 2 ^ 63) mod 2 ^ 64" "(x + 2 ^ 63) mod 2 ^ 64 < (2 ^ 64 :: int)"
    by simp_all
  then show ?thesis by (simp add: int64_def wrap64_def)
qed

lemma wrap64_id [simp]: "int64 x \<Longrightarrow> wrap64 x = x"
  by (simp add: int64_def wrap64_def)

subsection \<open>Decimal numbers\<close>

fun natDigits :: "nat \<Rightarrow> string" where
  "natDigits n =
     (if n < 10 then [char_of (48 + n)]
      else natDigits (n div 10) @ [char_of (48 + n mod 10)])"

declare natDigits.simps [simp del]

text \<open>\<open>strconv.FormatInt(n, 10)\<close>, also what go-redis writes for an integer argument.\<close>

definition itoa :: "int \<Rightarrow> string" where
  "itoa n = (if n < 0 then CHR ''-'' # natDigits (nat (- n)) else natDigits (nat n))"

definition isDigit :: "char \<Rightarrow> bool" where
  "isDigit c \<longleftrightarrow> 48 \<le> code c \<and> code c \<le> 57"

definition digitsVal :: "string \<Rightarrow> nat" where
  "digitsVal s = foldl (\<lambda>acc c. 10 * acc + (code c - 48)) 0 s"

text \<open>The exact value of a decimal literal, \<open>None\<close> on a syntax error.\<close>

fun parseDec :: "string \<Rightarrow> int option" where
  "parseDec [] = None"
| "parseDec (c # s) =
     (let d = (if c = CHR ''-'' \<or> c = CHR ''+'' then s else c # s) in
      if d = [] \<or> \<not> list_all isDigit d then None
      else Some (if c = CHR ''-'' then - int (digitsVal d) else int (digitsVal d)))"

text \<open>\<open>n, _ := strconv.ParseInt(s, 10, 64)\<close>: 0 on a syntax error, the nearest bound on a
  range error.\<close>

definition parseInt64 :: "string \<Rightarrow> int" where
  "parseInt64 s = (case parseDec s of None \<Rightarrow> 0
     | Some n \<Rightarrow> max (- (2 ^ 63)) (min (2 ^ 63 - 1) n))"

lemma natDigits_digits: "list_all isDigit (natDigits n) \<and> natDigits n \<noteq> []"
proof (induction n rule: natDigits.induct)
  case (1 n)
  have d: "isDigit (char_of (48 + n mod 10))"
    by (simp add: isDigit_def code_def)
  show ?case
  proof (cases "n < 10")
    case True
    then show ?thesis by (simp add: natDigits.simps [of n] isDigit_def code_def)
  next
    case False
    with 1 d show ?thesis by (simp add: natDigits.simps [of n])
  qed
qed

lemma digitsVal_snoc: "digitsVal (s @ [c]) = 10 * digitsVal s + (code c - 48)"
  by (simp add: digitsVal_def)

lemma digitsVal_natDigits [simp]: "digitsVal (natDigits n) = n"
proof (induction n rule: natDigits.induct)
  case (1 n)
  show ?case
  proof (cases "n < 10")
    case True
    then show ?thesis by (simp add: natDigits.simps [of n] digitsVal_def code_def)
  next
    case False
    have "code (char_of (48 + n mod 10)) = 48 + n mod 10"
      by (rule code_char_of) (simp add: less_le_trans [OF mod_less_divisor])
    with 1 False show ?thesis
      by (simp add: natDigits.simps [of n] digitsVal_snoc)
  qed
qed

lemma isDigit_not_sign: "isDigit c \<Longrightarrow> c \<noteq> CHR ''-'' \<and> c \<noteq> CHR ''+''"
  by (auto simp: isDigit_def code_def)

lemma parseDec_itoa [simp]: "parseDec (itoa n) = Some n"
proof (cases "n < 0")
  case True
  then show ?thesis
    using natDigits_digits [of "nat (- n)"] by (simp add: itoa_def)
next
  case False
  obtain c s where cs: "natDigits (nat n) = c # s"
    using natDigits_digits [of "nat n"] by (cases "natDigits (nat n)") auto
  have "list_all isDigit (c # s)" using natDigits_digits [of "nat n"] cs by simp
  with isDigit_not_sign [of c] have "parseDec (c # s) = Some (int (digitsVal (c # s)))"
    by (simp add: Let_def)
  with False cs show ?thesis
    by (simp add: itoa_def digitsVal_natDigits [of "nat n", unfolded cs])
qed

lemma parseInt64_itoa [simp]: "int64 n \<Longrightarrow> parseInt64 (itoa n) = n"
  by (auto simp: parseInt64_def int64_def)

lemma itoa_nonempty [simp]: "itoa n \<noteq> []"
  using natDigits_digits by (simp add: itoa_def)

lemma itoa_inj [simp]: "itoa m = itoa n \<longleftrightarrow> m = n"
  by (metis option.inject parseDec_itoa)

subsection \<open>Association lists\<close>

lemma delete_as_filter: "AList.delete k m = filter (\<lambda>p. fst p \<noteq> k) m"
  by (auto simp: AList.delete_eq case_prod_beta intro!: filter_cong)

lemma set_alist_update: "set (AList.update k v m) \<subseteq> insert (k, v) (set m)"
  by (induction m) auto

subsection \<open>Constant-time comparison\<close>

text \<open>\<open>crypto/subtle.ConstantTimeCompare\<close>: 1 for equal slices, 0 otherwise, by folding the
  byte differences together instead of stopping at the first one.\<close>

definition byteOf :: "char \<Rightarrow> 8 word" where
  "byteOf c = of_nat (code c)"

definition ConstantTimeCompare :: "bytes \<Rightarrow> bytes \<Rightarrow> int" where
  "ConstantTimeCompare x y =
     (if length x \<noteq> length y then 0
      else if foldl (\<lambda>v (a, b). v OR (byteOf a XOR byteOf b)) 0 (zip x y) = 0 then 1 else 0)"

lemma byteOf_inj [simp]: "byteOf a = byteOf b \<longleftrightarrow> a = b"
proof
  assume "byteOf a = byteOf b"
  then have "unat (byteOf a) = unat (byteOf b)" by simp
  then have "code a = code b"
    by (simp add: byteOf_def unat_of_nat)
  then show "a = b" by (metis char_of_code)
qed simp

lemma word_or_zero: "(x :: 8 word) OR y = 0 \<longleftrightarrow> x = 0 \<and> y = 0"
  by (rule or_eq_0_iff)

lemma word_xor_zero: "(x :: 8 word) XOR y = 0 \<longleftrightarrow> x = y"
proof
  assume "x XOR y = 0"
  then have "(x XOR y) XOR y = y" by simp
  then show "x = y" by (simp add: xor.assoc)
qed simp

lemma diff_fold_zero:
  "foldl (\<lambda>v (a, b). v OR (byteOf a XOR byteOf b)) v ps = 0 \<longleftrightarrow>
     v = 0 \<and> (\<forall>(a, b)\<in>set ps. a = b)"
  by (induction ps arbitrary: v) (auto simp: word_or_zero word_xor_zero)

lemma ConstantTimeCompare_eq [simp]: "ConstantTimeCompare x y = 1 \<longleftrightarrow> x = y"
proof (cases "length x = length y")
  case True
  have "(\<forall>(a, b)\<in>set (zip x y). a = b) \<longleftrightarrow> x = y"
    using True by (induction x y rule: list_induct2) auto
  with True show ?thesis by (simp add: ConstantTimeCompare_def diff_fold_zero)
qed (auto simp: ConstantTimeCompare_def)

end
