(* ===== verification/Envelope.thy ===== *)
theory Envelope
  imports Prelude
begin

text \<open>
  The wire message (\<open>src/internal/envelope/envelope.go\<close>): the closed set of types, the
  routing fields \<open>Validate\<close> checks, and \<open>Decode\<close>, which binds a JSON object to the
  struct and rejects fields outside the contract. The lexical layer of
  \<open>encoding/json\<close> is the parameter \<open>jr\<close>: it turns bytes into the first JSON value of
  the stream, with the raw bytes of each member value; the binding of members to struct
  fields is modelled here.
\<close>

subsection \<open>JSON values as the struct binder sees them\<close>

datatype jval = JNull | JBool bool | JNum string | JStr string | JCompound

datatype jdoc = JDNull | JDObject "(string \<times> bytes \<times> jval) list" | JDOther

type_synonym json_reader = "bytes \<Rightarrow> jdoc option"

text \<open>
  \<open>encoding/json\<close> matches member names to field names up to simple case folding; besides
  ASCII case, the code points U+017F and U+212A fold to \<open>S\<close> and \<open>K\<close>.
\<close>

definition upper :: "char \<Rightarrow> char" where
  "upper c = (if 97 \<le> code c \<and> code c \<le> 122 then char_of (code c - 32) else c)"

fun foldName :: "string \<Rightarrow> string" where
  "foldName [] = []"
| "foldName (a # b # c # s) =
     (if code a = 197 \<and> code b = 191 then CHR ''S'' # foldName (c # s)
      else if code a = 226 \<and> code b = 132 \<and> code c = 170 then CHR ''K'' # foldName s
      else upper a # foldName (b # c # s))"
| "foldName [a, b] =
     (if code a = 197 \<and> code b = 191 then ''S'' else [upper a, upper b])"
| "foldName [a] = [upper a]"

definition fieldOf :: "string list \<Rightarrow> string \<Rightarrow> string option" where
  "fieldOf names k =
     (if k \<in> set names then Some k else List.find (\<lambda>n. foldName n = foldName k) names)"

subsection \<open>Types and validation\<close>

record envelope =
  e_channel :: string
  e_type :: string
  e_id :: string
  e_payload :: "bytes option"
  e_ts :: string

definition validTypes :: "string list" where
  "validTypes = [''request'', ''progress'', ''result'', ''summary'', ''control'', ''error'']"

definition Valid :: "string \<Rightarrow> bool" where
  "Valid t = (t \<in> set validTypes)"

datatype env_error = BadJSON | EmptyChannel | UnknownType string | EmptyID | EmptyTS

definition Validate :: "envelope \<Rightarrow> env_error + unit" where
  "Validate e =
     (if e_channel e = '''' then Inl EmptyChannel
      else if \<not> Valid (e_type e) then Inl (UnknownType (e_type e))
      else if e_id e = '''' then Inl EmptyID
      else if e_ts e = '''' then Inl EmptyTS
      else Inr ())"

subsection \<open>Decoding\<close>

definition envFields :: "string list" where
  "envFields = [''channel'', ''type'', ''id'', ''payload'', ''ts'']"

definition zeroEnvelope :: envelope where
  "zeroEnvelope = \<lparr>e_channel = '''', e_type = '''', e_id = '''', e_payload = None, e_ts = ''''\<rparr>"

text \<open>A string field takes a JSON string, ignores \<open>null\<close> and refuses anything else.\<close>

definition bindString :: "((string \<Rightarrow> string) \<Rightarrow> 'r \<Rightarrow> 'r) \<Rightarrow> jval \<Rightarrow> 'r \<Rightarrow> 'r option" where
  "bindString upd v r =
     (case v of JStr s \<Rightarrow> Some (upd (\<lambda>_. s) r) | JNull \<Rightarrow> Some r | _ \<Rightarrow> None)"

definition bindMember :: "string \<times> bytes \<times> jval \<Rightarrow> envelope \<Rightarrow> envelope option" where
  "bindMember m e = (case m of (k, raw, v) \<Rightarrow>
     (case fieldOf envFields k of
        None \<Rightarrow> None
      | Some f \<Rightarrow>
          if f = ''channel'' then bindString e_channel_update v e
          else if f = ''type'' then bindString e_type_update v e
          else if f = ''id'' then bindString e_id_update v e
          else if f = ''payload'' then Some (e\<lparr>e_payload := Some raw\<rparr>)
          else bindString e_ts_update v e))"

fun bindMembers :: "(string \<times> bytes \<times> jval) list \<Rightarrow> envelope \<Rightarrow> envelope option" where
  "bindMembers [] e = Some e"
| "bindMembers (m # ms) e =
     (case bindMember m e of None \<Rightarrow> None | Some e' \<Rightarrow> bindMembers ms e')"

definition bindEnvelope :: "jdoc \<Rightarrow> envelope option" where
  "bindEnvelope d = (case d of
     JDNull \<Rightarrow> Some zeroEnvelope
   | JDObject ms \<Rightarrow> bindMembers ms zeroEnvelope
   | JDOther \<Rightarrow> None)"

definition Decode :: "json_reader \<Rightarrow> bytes \<Rightarrow> env_error + envelope" where
  "Decode jr b =
     (case jr b of
        None \<Rightarrow> Inl BadJSON
      | Some d \<Rightarrow>
          (case bindEnvelope d of
             None \<Rightarrow> Inl BadJSON
           | Some e \<Rightarrow> (case Validate e of Inl err \<Rightarrow> Inl err | Inr _ \<Rightarrow> Inr e)))"

subsection \<open>Lemmas\<close>

lemma Validate_Inr [simp]:
  "Validate e = Inr u \<longleftrightarrow>
     e_channel e \<noteq> '''' \<and> e_type e \<in> set validTypes \<and> e_id e \<noteq> '''' \<and> e_ts e \<noteq> ''''"
  by (auto simp: Validate_def Valid_def)

lemma bindMembers_append:
  "bindMembers (ms @ ns) e = Option.bind (bindMembers ms e) (bindMembers ns)"
  by (induction ms arbitrary: e) (auto split: option.splits)

lemma bindMembers_fields:
  "bindMembers ms e = Some e' \<Longrightarrow> (k, raw, v) \<in> set ms \<Longrightarrow> fieldOf envFields k \<noteq> None"
  by (induction ms arbitrary: e) (auto simp: bindMember_def split: option.splits)

lemma bindMember_payload:
  "bindMember (k, raw, v) e = Some e' \<Longrightarrow>
     e_payload e' = (if fieldOf envFields k = Some ''payload'' then Some raw else e_payload e)"
  by (auto simp: bindMember_def bindString_def split: option.splits jval.splits if_splits)

lemma bindMembers_payload:
  "bindMembers ms e = Some e' \<Longrightarrow>
     e_payload e' = foldl (\<lambda>p (k, raw, v). if fieldOf envFields k = Some ''payload'' then Some raw
                                          else p) (e_payload e) ms"
  by (induction ms arbitrary: e) (auto dest!: bindMember_payload split: option.splits)

lemma Decode_InrD:
  assumes "Decode jr b = Inr e"
  obtains d where "jr b = Some d" "bindEnvelope d = Some e" "Validate e = Inr ()"
  using assms by (auto simp: Decode_def simp del: Validate_Inr split: option.splits sum.splits)

end
