(* ===== verification/Broker.thy ===== *)
theory Broker
  imports Envelope "HOL-Library.Word" "HOL-Library.Multiset"
begin

text \<open>
  The in-memory pub/sub core (\<open>src/internal/broker/broker.go\<close>). Subscriptions are shared
  objects (the broker's map and the subscriber's goroutine hold the same pointer), so they
  live in an explicit heap; \<open>subs\<close> maps a channel to its \<open>(id, pointer)\<close> entries. Every
  operation under the broker's mutex is one step; closing a dropped or unsubscribed
  subscription happens after the mutex is released and is a step of its own.
\<close>

subsection \<open>State\<close>

definition subscriberQueueDepth :: nat where
  "subscriberQueueDepth = 256"

record subscription =
  sub_id :: "64 word"
  sub_channel :: string
  sub_out :: "envelope list"
  sub_closed :: bool

type_synonym entries = "(64 word \<times> nat) list"

record broker =
  nextID :: "64 word"
  subs :: "string \<rightharpoonup> entries"
  heap :: "nat \<rightharpoonup> subscription"
  alloc :: nat \<comment> \<open>the next unused pointer\<close>

definition newBroker :: broker where
  "newBroker = \<lparr>nextID = 0, subs = Map.empty, heap = Map.empty, alloc = 0\<rparr>"

definition entriesOf :: "broker \<Rightarrow> string \<Rightarrow> entries" where
  "entriesOf b ch = (case subs b ch of None \<Rightarrow> [] | Some m \<Rightarrow> m)"

subsection \<open>Operations\<close>

definition Subscribe :: "string \<Rightarrow> broker \<Rightarrow> nat \<times> broker" where
  "Subscribe ch b =
     (let id = nextID b + 1; r = alloc b;
          s = \<lparr>sub_id = id, sub_channel = ch, sub_out = [], sub_closed = False\<rparr>
      in (r, b\<lparr>nextID := id,
               subs := (subs b)(ch \<mapsto> AList.update id r (entriesOf b ch)),
               heap := (heap b)(r \<mapsto> s),
               alloc := Suc r\<rparr>))"

text \<open>\<open>delete(m, sub.id)\<close>, and the channel itself when its last subscriber is gone.\<close>

definition dropEntry :: "subscription \<Rightarrow> broker \<Rightarrow> broker" where
  "dropEntry s b =
     (case subs b (sub_channel s) of
        None \<Rightarrow> b
      | Some m \<Rightarrow>
          (let m' = AList.delete (sub_id s) m
           in if m' = [] then b\<lparr>subs := (subs b)(sub_channel s := None)\<rparr>
              else b\<lparr>subs := (subs b)(sub_channel s \<mapsto> m')\<rparr>))"

text \<open>\<open>sub.close()\<close>: \<open>sync.Once\<close> makes it idempotent.\<close>

definition closeSub :: "nat \<Rightarrow> broker \<Rightarrow> broker" where
  "closeSub r b =
     (case heap b r of
        None \<Rightarrow> b
      | Some s \<Rightarrow> b\<lparr>heap := (heap b)(r \<mapsto> s\<lparr>sub_closed := True\<rparr>)\<rparr>)"

definition unsubLocked :: "nat \<Rightarrow> broker \<Rightarrow> broker" where
  "unsubLocked r b =
     (case heap b r of
        None \<Rightarrow> b
      | Some s \<Rightarrow>
          (case subs b (sub_channel s) of
             None \<Rightarrow> b
           | Some m \<Rightarrow> if map_of m (sub_id s) = None then b else dropEntry s b))"

definition Unsubscribe :: "nat option \<Rightarrow> broker \<Rightarrow> broker" where
  "Unsubscribe p b = (case p of None \<Rightarrow> b | Some r \<Rightarrow> closeSub r (unsubLocked r b))"

text \<open>The fan-out loop: a non-blocking send to each subscriber in turn.\<close>

fun fanOut :: "envelope \<Rightarrow> nat list \<Rightarrow> (nat \<rightharpoonup> subscription) \<Rightarrow> nat \<Rightarrow> nat list
    \<Rightarrow> (nat \<rightharpoonup> subscription) \<times> nat \<times> nat list" where
  "fanOut e [] h delivered toDrop = (h, delivered, toDrop)"
| "fanOut e (r # rs) h delivered toDrop =
     (case h r of
        None \<Rightarrow> fanOut e rs h delivered toDrop
      | Some s \<Rightarrow>
          if length (sub_out s) < subscriberQueueDepth
          then fanOut e rs (h(r \<mapsto> s\<lparr>sub_out := sub_out s @ [e]\<rparr>)) (Suc delivered) toDrop
          else fanOut e rs h delivered (toDrop @ [r]))"

definition dropRef :: "nat \<Rightarrow> broker \<Rightarrow> broker" where
  "dropRef r b = (case heap b r of None \<Rightarrow> b | Some s \<Rightarrow> dropEntry s b)"

text \<open>
  The locked part of \<open>Publish\<close>. Go visits a map's entries in an unspecified order:
  \<open>order\<close> is the order in which the subscribers are visited. The result is the number of
  deliveries, the subscribers to close once the mutex is released, and the new state.
\<close>

definition publishLocked :: "nat list \<Rightarrow> envelope \<Rightarrow> broker \<Rightarrow> nat \<times> nat list \<times> broker" where
  "publishLocked order e b =
     (case fanOut e order (heap b) 0 [] of (h, delivered, toDrop) \<Rightarrow>
        (delivered, toDrop, fold dropRef toDrop (b\<lparr>heap := h\<rparr>)))"

definition visitOrder :: "nat list \<Rightarrow> envelope \<Rightarrow> broker \<Rightarrow> bool" where
  "visitOrder order e b \<longleftrightarrow> mset order = mset (List.map snd (entriesOf b (e_channel e)))"

definition Publish :: "nat list \<Rightarrow> envelope \<Rightarrow> broker \<Rightarrow> nat \<times> broker" where
  "Publish order e b =
     (case publishLocked order e b of (delivered, toDrop, b') \<Rightarrow>
        (delivered, fold closeSub toDrop b'))"

definition SubscriberCount :: "string \<Rightarrow> broker \<Rightarrow> nat" where
  "SubscriberCount ch b = length (entriesOf b ch)"

text \<open>A subscriber's receive \<open><-sub.C\<close>; \<open>None\<close> when the buffer is empty (it would block).\<close>

definition receive :: "nat \<Rightarrow> broker \<Rightarrow> (envelope \<times> broker) option" where
  "receive r b =
     (case heap b r of
        None \<Rightarrow> None
      | Some s \<Rightarrow>
          (case sub_out s of
             [] \<Rightarrow> None
           | e # q \<Rightarrow> Some (e, b\<lparr>heap := (heap b)(r \<mapsto> s\<lparr>sub_out := q\<rparr>)\<rparr>)))"

subsection \<open>Invariant\<close>

definition registered :: "broker \<Rightarrow> string \<Rightarrow> nat \<Rightarrow> bool" where
  "registered b ch r \<longleftrightarrow> r \<in> snd ` set (entriesOf b ch)"

definition entryOk :: "broker \<Rightarrow> string \<Rightarrow> 64 word \<times> nat \<Rightarrow> bool" where
  "entryOk b ch p \<longleftrightarrow> (\<exists>s. heap b (snd p) = Some s \<and> sub_id s = fst p \<and> sub_channel s = ch
     \<and> \<not> sub_closed s)"

definition brokerInv :: "broker \<Rightarrow> bool" where
  "brokerInv b \<longleftrightarrow>
     (\<forall>r. heap b r \<noteq> None \<longrightarrow> r < alloc b) \<and>
     (\<forall>r s. heap b r = Some s \<longrightarrow> length (sub_out s) \<le> subscriberQueueDepth) \<and>
     (\<forall>ch. subs b ch \<noteq> Some []) \<and>
     (\<forall>ch. distinct (List.map fst (entriesOf b ch))) \<and>
     (\<forall>ch. \<forall>p\<in>set (entriesOf b ch). entryOk b ch p)"

lemma brokerInv_heap: "brokerInv b \<Longrightarrow> heap b r = Some s \<Longrightarrow> length (sub_out s) \<le> subscriberQueueDepth"
  by (auto simp: brokerInv_def)

lemma brokerInv_alloc: "brokerInv b \<Longrightarrow> heap b (alloc b) = None"
  by (auto simp: brokerInv_def)

lemma brokerInv_entry:
  "brokerInv b \<Longrightarrow> (i, r) \<in> set (entriesOf b ch) \<Longrightarrow>
     \<exists>s. heap b r = Some s \<and> sub_id s = i \<and> sub_channel s = ch \<and> \<not> sub_closed s"
  by (fastforce simp: brokerInv_def entryOk_def)

lemma brokerInv_registered:
  assumes "brokerInv b" "registered b ch r"
  obtains s where "heap b r = Some s" "(sub_id s, r) \<in> set (entriesOf b ch)"
    "sub_channel s = ch" "\<not> sub_closed s"
proof -
  from assms(2) obtain i where i: "(i, r) \<in> set (entriesOf b ch)"
    by (auto simp: registered_def)
  from brokerInv_entry [OF assms(1) i] i show ?thesis by (auto intro: that)
qed

lemma brokerInv_distinct: "brokerInv b \<Longrightarrow> distinct (List.map fst (entriesOf b ch))"
  by (simp add: brokerInv_def)

lemma brokerInv_distinct_refs:
  assumes "brokerInv b" shows "distinct (List.map snd (entriesOf b ch))"
proof -
  have "inj_on snd (set (entriesOf b ch))"
    by (rule inj_onI) (metis brokerInv_entry [OF assms] option.inject prod.collapse)
  moreover have "distinct (entriesOf b ch)"
    using brokerInv_distinct [OF assms, of ch] by (simp add: distinct_map)
  ultimately show ?thesis by (simp add: distinct_map)
qed

lemma brokerInv_subs:
  "brokerInv b \<Longrightarrow> subs b ch = (if entriesOf b ch = [] then None else Some (entriesOf b ch))"
  by (auto simp: brokerInv_def entriesOf_def split: option.splits)

lemma newBroker_inv [inv_intros]: "brokerInv newBroker"
  by (simp add: brokerInv_def newBroker_def entriesOf_def)

subsubsection \<open>Frame lemmas\<close>

lemma dropEntry_frame [simp]:
  "heap (dropEntry s b) = heap b" "alloc (dropEntry s b) = alloc b" "nextID (dropEntry s b) = nextID b"
  by (auto simp: dropEntry_def Let_def split: option.splits)

lemma closeSub_frame [simp]:
  "subs (closeSub r b) = subs b" "alloc (closeSub r b) = alloc b" "nextID (closeSub r b) = nextID b"
  by (auto simp: closeSub_def split: option.splits)

lemma entriesOf_closeSub [simp]: "entriesOf (closeSub r b) ch = entriesOf b ch"
  by (simp add: entriesOf_def)

lemma entriesOf_heap [simp]: "entriesOf (b\<lparr>heap := h\<rparr>) ch = entriesOf b ch"
  by (simp add: entriesOf_def)

lemma heap_closeSub:
  "heap (closeSub r b) x =
     (if x = r then map_option (\<lambda>s. s\<lparr>sub_closed := True\<rparr>) (heap b r) else heap b x)"
  by (auto simp: closeSub_def split: option.splits)

lemma entriesOf_dropEntry:
  "entriesOf (dropEntry s b) ch =
     (if ch = sub_channel s then filter (\<lambda>p. fst p \<noteq> sub_id s) (entriesOf b ch)
      else entriesOf b ch)"
  by (auto simp: dropEntry_def entriesOf_def Let_def delete_as_filter split: option.splits)

lemma dropEntry_inv:
  assumes "brokerInv b" shows "brokerInv (dropEntry s b)"
proof -
  have "subs (dropEntry s b) ch \<noteq> Some []" for ch
    using assms by (auto simp: brokerInv_def dropEntry_def Let_def split: option.splits)
  moreover have "distinct (List.map fst (entriesOf (dropEntry s b) ch))" for ch
    using brokerInv_distinct [OF assms] by (simp add: entriesOf_dropEntry distinct_map_filter)
  moreover have "entryOk (dropEntry s b) ch p" if "p \<in> set (entriesOf (dropEntry s b) ch)" for ch p
    using that assms by (auto simp: brokerInv_def entryOk_def entriesOf_dropEntry split: if_splits)
  ultimately show ?thesis using assms by (simp add: brokerInv_def)
qed

lemma unsubLocked_cases:
  "unsubLocked r b = b \<or> (\<exists>s. heap b r = Some s \<and> unsubLocked r b = dropEntry s b)"
  by (auto simp: unsubLocked_def split: option.splits)

lemma unsubLocked_frame [simp]:
  "heap (unsubLocked r b) = heap b" "alloc (unsubLocked r b) = alloc b"
  "nextID (unsubLocked r b) = nextID b"
  by (auto simp: unsubLocked_def split: option.splits)

lemma unsubLocked_inv: "brokerInv b \<Longrightarrow> brokerInv (unsubLocked r b)"
  using unsubLocked_cases [of r b] dropEntry_inv by fastforce

lemma entriesOf_unsubLocked:
  "heap b r = Some s \<Longrightarrow> entriesOf (unsubLocked r b) ch =
     (if ch = sub_channel s then filter (\<lambda>p. fst p \<noteq> sub_id s) (entriesOf b ch)
      else entriesOf b ch)"
proof (cases "map_of (entriesOf b (sub_channel s)) (sub_id s)")
  case None
  then have "filter (\<lambda>p. fst p \<noteq> sub_id s) (entriesOf b (sub_channel s))
      = entriesOf b (sub_channel s)"
    by (intro filter_True) (force simp: map_of_eq_None_iff)
  moreover assume "heap b r = Some s"
  with None have "unsubLocked r b = b"
    by (auto simp: unsubLocked_def entriesOf_def split: option.splits)
  ultimately show ?thesis by simp
next
  case (Some x)
  moreover assume "heap b r = Some s"
  ultimately have "unsubLocked r b = dropEntry s b"
    by (auto simp: unsubLocked_def entriesOf_def split: option.splits)
  then show ?thesis by (simp add: entriesOf_dropEntry)
qed

lemma unregistered_after_unsub:
  assumes "brokerInv b" "heap b r = Some s"
  shows "\<not> registered (unsubLocked r b) ch r"
proof
  assume "registered (unsubLocked r b) ch r"
  then obtain i where i: "(i, r) \<in> set (entriesOf (unsubLocked r b) ch)"
    by (auto simp: registered_def)
  then have "(i, r) \<in> set (entriesOf b ch)"
    by (auto simp: entriesOf_unsubLocked [OF assms(2)] split: if_splits)
  from brokerInv_entry [OF assms(1) this] assms(2) have "i = sub_id s" "ch = sub_channel s"
    by auto
  with i show False by (simp add: entriesOf_unsubLocked [OF assms(2)])
qed

lemma closeSub_inv:
  assumes "brokerInv b" "\<And>ch. \<not> registered b ch r"
  shows "brokerInv (closeSub r b)"
proof -
  have "entryOk (closeSub r b) ch p" if "p \<in> set (entriesOf b ch)" for ch p
  proof -
    from that assms(2) [of ch] have "snd p \<noteq> r" by (auto simp: registered_def)
    with that assms(1) show ?thesis by (auto simp: brokerInv_def entryOk_def heap_closeSub)
  qed
  with assms(1) show ?thesis
    by (auto simp: brokerInv_def heap_closeSub split: if_splits)
qed

lemma Subscribe_inv [inv_intros]:
  assumes "brokerInv b" shows "brokerInv (snd (Subscribe ch b))"
proof -
  let ?b = "snd (Subscribe ch b)"
  have e: "entriesOf ?b c = (if c = ch then AList.update (nextID b + 1) (alloc b) (entriesOf b ch)
      else entriesOf b c)" for c
    by (simp add: Subscribe_def Let_def entriesOf_def)
  have "entryOk ?b c p" if "p \<in> set (entriesOf ?b c)" for c p
  proof -
    from that have "p \<in> set (entriesOf b c) \<or> (c = ch \<and> p = (nextID b + 1, alloc b))"
      by (auto simp: e split: if_splits dest!: set_alist_update [THEN subsetD])
    then show ?thesis
    proof
      assume "p \<in> set (entriesOf b c)"
      with assms brokerInv_alloc [OF assms] show ?thesis
        by (fastforce simp: brokerInv_def entryOk_def Subscribe_def Let_def)
    qed (auto simp: entryOk_def Subscribe_def Let_def)
  qed
  moreover have "distinct (List.map fst (entriesOf ?b c))" for c
    using brokerInv_distinct [OF assms] by (simp add: e distinct_update)
  moreover have "subs ?b c \<noteq> Some []" for c
    using assms by (auto simp: brokerInv_def Subscribe_def Let_def update_nonempty)
  moreover have "heap ?b r \<noteq> None \<Longrightarrow> r < alloc ?b" for r
    using assms by (auto simp: brokerInv_def Subscribe_def Let_def less_Suc_eq split: if_splits)
  moreover have "heap ?b r = Some s \<Longrightarrow> length (sub_out s) \<le> subscriberQueueDepth" for r s
    using assms by (auto simp: brokerInv_def Subscribe_def Let_def split: if_splits)
  ultimately show ?thesis by (simp add: brokerInv_def)
qed

subsection \<open>Publishing\<close>

definition room :: "(nat \<rightharpoonup> subscription) \<Rightarrow> nat \<Rightarrow> bool" where
  "room h r = (case h r of None \<Rightarrow> False
     | Some s \<Rightarrow> length (sub_out s) < subscriberQueueDepth)"

definition full :: "(nat \<rightharpoonup> subscription) \<Rightarrow> nat \<Rightarrow> bool" where
  "full h r = (case h r of None \<Rightarrow> False
     | Some s \<Rightarrow> \<not> length (sub_out s) < subscriberQueueDepth)"

definition enqueue :: "envelope \<Rightarrow> subscription \<Rightarrow> subscription" where
  "enqueue e s = (if length (sub_out s) < subscriberQueueDepth
     then s\<lparr>sub_out := sub_out s @ [e]\<rparr> else s)"

lemma enqueue_frame [simp]:
  "sub_id (enqueue e s) = sub_id s" "sub_channel (enqueue e s) = sub_channel s"
  "sub_closed (enqueue e s) = sub_closed s"
  by (simp_all add: enqueue_def)

lemma fanOut_spec:
  "distinct order \<Longrightarrow> fanOut e order h d t =
     ((\<lambda>r. if r \<in> set order then map_option (enqueue e) (h r) else h r),
      d + length (filter (room h) order), t @ filter (full h) order)"
proof (induction order arbitrary: h d t)
  case Nil
  then show ?case by simp
next
  case (Cons r rs)
  have "room (h(r \<mapsto> s)) x = room h x" "full (h(r \<mapsto> s)) x = full h x" if "x \<in> set rs" for x s
    using that Cons.prems by (auto simp: room_def full_def)
  then have upd: "filter (room (h(r \<mapsto> s))) rs = filter (room h) rs"
    "filter (full (h(r \<mapsto> s))) rs = filter (full h) rs" for s
    by (simp_all cong: filter_cong)
  show ?case
  proof (cases "h r")
    case None
    then have "\<not> room h r" "\<not> full h r" by (simp_all add: room_def full_def)
    with None Cons show ?thesis by (auto simp: fun_eq_iff)
  next
    case (Some s)
    then have "room h r \<longleftrightarrow> length (sub_out s) < subscriberQueueDepth" "full h r \<longleftrightarrow> \<not> room h r"
      by (simp_all add: room_def full_def)
    with Some Cons show ?thesis
      by (cases "room h r") (auto simp: upd enqueue_def fun_eq_iff)
  qed
qed

lemma dropRef_frame [simp]: "heap (dropRef r b) = heap b" "alloc (dropRef r b) = alloc b"
    "nextID (dropRef r b) = nextID b"
  by (auto simp: dropRef_def split: option.splits)

lemma fold_dropRef_frame [simp]: "heap (fold dropRef rs b) = heap b"
    "alloc (fold dropRef rs b) = alloc b" "nextID (fold dropRef rs b) = nextID b"
  by (induction rs arbitrary: b) auto

lemma fold_dropRef_inv: "brokerInv b \<Longrightarrow> brokerInv (fold dropRef rs b)"
  by (induction rs arbitrary: b) (auto simp: dropRef_def dropEntry_inv split: option.splits)

lemma entriesOf_dropRef:
  assumes "brokerInv b" "registered b ch r"
  shows "entriesOf (dropRef r b) c =
     (if c = ch then filter (\<lambda>p. snd p \<noteq> r) (entriesOf b ch) else entriesOf b c)"
proof -
  from assms obtain s where s: "heap b r = Some s" "sub_channel s = ch"
    "(sub_id s, r) \<in> set (entriesOf b ch)"
    by (rule brokerInv_registered)
  have "fst p \<noteq> sub_id s \<longleftrightarrow> snd p \<noteq> r" if "p \<in> set (entriesOf b ch)" for p
  proof -
    obtain i x where p: "p = (i, x)" by (cases p)
    have "i = sub_id s \<Longrightarrow> x = r"
      using that p s(3) eq_key_imp_eq_value [OF brokerInv_distinct [OF assms(1)]] by blast
    moreover have "x = r \<Longrightarrow> i = sub_id s"
      using that p s(1) brokerInv_entry [OF assms(1)] by fastforce
    ultimately show ?thesis using p by auto
  qed
  then have "filter (\<lambda>p. fst p \<noteq> sub_id s) (entriesOf b ch)
      = filter (\<lambda>p. snd p \<noteq> r) (entriesOf b ch)"
    by (rule filter_cong [OF refl])
  with s show ?thesis by (simp add: dropRef_def entriesOf_dropEntry)
qed

lemma entriesOf_fold_dropRef:
  assumes "brokerInv b" "\<And>r. r \<in> set rs \<Longrightarrow> registered b ch r" "distinct rs"
  shows "entriesOf (fold dropRef rs b) c =
     (if c = ch then filter (\<lambda>p. snd p \<notin> set rs) (entriesOf b ch) else entriesOf b c)"
  using assms
proof (induction rs arbitrary: b)
  case Nil
  then show ?case by simp
next
  case (Cons r rs)
  have inv: "brokerInv (dropRef r b)"
    using Cons.prems(1) fold_dropRef_inv [of b "[r]"] by simp
  have e: "entriesOf (dropRef r b) c =
      (if c = ch then filter (\<lambda>p. snd p \<noteq> r) (entriesOf b ch) else entriesOf b c)" for c
    using Cons.prems by (intro entriesOf_dropRef) auto
  have "registered (dropRef r b) ch x" if "x \<in> set rs" for x
  proof -
    from that Cons.prems have "registered b ch x" "x \<noteq> r" by auto
    then show ?thesis by (force simp: registered_def e)
  qed
  with Cons.IH [OF inv] Cons.prems(3) show ?case
    by (auto simp: e intro!: filter_cong)
qed

lemma visitOrder_facts:
  assumes "brokerInv b" "visitOrder order e b"
  shows "distinct order" "set order = {r. registered b (e_channel e) r}"
proof -
  have m: "mset order = mset (List.map snd (entriesOf b (e_channel e)))"
    using assms(2) by (simp add: visitOrder_def)
  show "distinct order"
    using brokerInv_distinct_refs [OF assms(1)] mset_eq_imp_distinct_iff [OF m] by simp
  show "set order = {r. registered b (e_channel e) r}"
    using mset_eq_setD [OF m] by (auto simp: registered_def)
qed

definition afterFanOut :: "envelope \<Rightarrow> broker \<Rightarrow> broker" where
  "afterFanOut e b = b\<lparr>heap := (\<lambda>r. if registered b (e_channel e) r
     then map_option (enqueue e) (heap b r) else heap b r)\<rparr>"

lemma afterFanOut_frame [simp]:
  "entriesOf (afterFanOut e b) ch = entriesOf b ch" "alloc (afterFanOut e b) = alloc b"
  "nextID (afterFanOut e b) = nextID b" "registered (afterFanOut e b) = registered b"
  by (auto simp: afterFanOut_def registered_def fun_eq_iff)

lemma afterFanOut_entryOk: "entryOk b ch p \<Longrightarrow> entryOk (afterFanOut e b) ch p"
  by (auto simp: entryOk_def afterFanOut_def)

lemma enqueue_bound:
  "length (sub_out s) \<le> subscriberQueueDepth \<Longrightarrow>
     length (sub_out (enqueue e s)) \<le> subscriberQueueDepth"
  by (simp add: enqueue_def)

lemma afterFanOut_inv:
  assumes "brokerInv b" shows "brokerInv (afterFanOut e b)"
proof -
  have "subs (afterFanOut e b) = subs b" by (simp add: afterFanOut_def)
  moreover have "heap (afterFanOut e b) r \<noteq> None \<Longrightarrow> r < alloc b" for r
    using assms by (auto simp: brokerInv_def afterFanOut_def split: if_splits)
  moreover have "heap (afterFanOut e b) r = Some s \<Longrightarrow> length (sub_out s) \<le> subscriberQueueDepth"
    for r s
    using brokerInv_heap [OF assms] by (auto simp: afterFanOut_def enqueue_bound split: if_splits)
  ultimately show ?thesis
    using assms by (auto simp: brokerInv_def afterFanOut_entryOk)
qed

lemma publishLocked_spec:
  assumes "brokerInv b" "visitOrder order e b"
  shows "publishLocked order e b =
     (length (filter (room (heap b)) order), filter (full (heap b)) order,
      fold dropRef (filter (full (heap b)) order) (afterFanOut e b))"
  using visitOrder_facts [OF assms]
  by (auto simp: publishLocked_def fanOut_spec afterFanOut_def fun_eq_iff
      intro!: arg_cong [where f = "fold dropRef _"])

text \<open>The state after the locked part, without reference to the visiting order.\<close>

lemma publishLocked_state:
  assumes inv: "brokerInv b" and ord: "visitOrder order e b"
    and pub: "publishLocked order e b = (n, toDrop, b')"
  shows "brokerInv b'"
    and "entriesOf b' ch = (if ch = e_channel e
           then filter (\<lambda>p. \<not> full (heap b) (snd p)) (entriesOf b ch) else entriesOf b ch)"
    and "heap b' r = (if registered b (e_channel e) r then map_option (enqueue e) (heap b r)
           else heap b r)"
    and "set toDrop = {r. registered b (e_channel e) r \<and> full (heap b) r}" "distinct toDrop"
    and "alloc b' = alloc b" "nextID b' = nextID b"
proof -
  note facts = visitOrder_facts [OF inv ord]
  let ?drop = "filter (full (heap b)) order"
  have p: "toDrop = ?drop" "b' = fold dropRef ?drop (afterFanOut e b)"
    using pub by (auto simp: publishLocked_spec [OF inv ord])
  show "brokerInv b'" unfolding p by (intro fold_dropRef_inv afterFanOut_inv inv)
  have "registered (afterFanOut e b) (e_channel e) r" if "r \<in> set ?drop" for r
    using that facts by simp
  from entriesOf_fold_dropRef [OF afterFanOut_inv [OF inv] this, of ?drop ch] facts
  show "entriesOf b' ch = (if ch = e_channel e
      then filter (\<lambda>p. \<not> full (heap b) (snd p)) (entriesOf b ch) else entriesOf b ch)"
    by (auto simp: p registered_def intro!: filter_cong)
  show "heap b' r = (if registered b (e_channel e) r then map_option (enqueue e) (heap b r)
      else heap b r)"
    by (simp add: p) (simp add: afterFanOut_def)
  show "set toDrop = {r. registered b (e_channel e) r \<and> full (heap b) r}" "distinct toDrop"
    using facts by (auto simp: p)
  show "alloc b' = alloc b" "nextID b' = nextID b" by (simp_all add: p)
qed

lemma publishLocked_unregisters:
  assumes "brokerInv b" "visitOrder order e b" "publishLocked order e b = (n, toDrop, b')"
    and "r \<in> set toDrop"
  shows "\<not> registered b' ch r"
proof
  note st = publishLocked_state [OF assms(1-3)]
  assume "registered b' ch r"
  moreover have "full (heap b) r" "registered b (e_channel e) r" using assms(4) st(4) by auto
  ultimately have "registered b ch r" "ch \<noteq> e_channel e"
    by (auto simp: registered_def st(2) split: if_splits)
  with \<open>registered b (e_channel e) r\<close> show False
    by (metis assms(1) brokerInv_registered option.inject)
qed

lemma fold_closeSub_inv:
  "brokerInv b \<Longrightarrow> (\<And>ch r. r \<in> set rs \<Longrightarrow> \<not> registered b ch r) \<Longrightarrow> brokerInv (fold closeSub rs b)"
  by (induction rs arbitrary: b) (auto simp: closeSub_inv registered_def)

end
