(* ===== verification/Interfaces.thy ===== *)
theory Interfaces
  imports Prelude
begin

text \<open>
  The contracts between components, as locales: what a client may rely on, with the
  client's lemmas proved once. The component that provides an interface interprets the
  locale on its model.
\<close>

subsection \<open>Fan-out to live subscribers\<close>

text \<open>
  What the transport relies on when it hands an envelope to the broker: a subscriber that
  is still live afterwards has received it in order, and publishing never makes anyone live.
\<close>

locale fanout =
  fixes inv :: "'b \<Rightarrow> bool"
    and live :: "'b \<Rightarrow> string \<Rightarrow> 'r \<Rightarrow> bool"
    and queue :: "'b \<Rightarrow> 'r \<Rightarrow> 'e list"
    and chan :: "'e \<Rightarrow> string"
    and publish :: "'e \<Rightarrow> 'b \<Rightarrow> 'b"
  assumes inv_publish: "inv b \<Longrightarrow> inv (publish e b)"
    and live_publish: "inv b \<Longrightarrow> live (publish e b) ch r \<Longrightarrow> live b ch r"
    and queue_publish: "inv b \<Longrightarrow> live (publish e b) ch r \<Longrightarrow>
      queue (publish e b) r = queue b r @ (if chan e = ch then [e] else [])"
begin

lemma inv_fold: "inv b \<Longrightarrow> inv (fold publish es b)"
  by (induction es arbitrary: b) (auto simp: inv_publish)

lemma live_fold: "inv b \<Longrightarrow> live (fold publish es b) ch r \<Longrightarrow> live b ch r"
  by (induction es arbitrary: b) (auto intro: inv_publish live_publish)

lemma queue_fold:
  "inv b \<Longrightarrow> live (fold publish es b) ch r \<Longrightarrow>
     queue (fold publish es b) r = queue b r @ filter (\<lambda>e. chan e = ch) es"
proof (induction es arbitrary: b)
  case Nil
  then show ?case by simp
next
  case (Cons e es)
  have inv: "inv (publish e b)" using Cons.prems(1) by (rule inv_publish)
  have "live (publish e b) ch r" using Cons.prems(2) inv live_fold by auto
  then show ?case
    using Cons.IH [OF inv] Cons.prems queue_publish by auto
qed

end

subsection \<open>Encoders with a decoder\<close>

text \<open>An encoding with a partial inverse on the well-formed values.\<close>

locale codec =
  fixes wf :: "'a \<Rightarrow> bool"
    and enc :: "'a \<Rightarrow> 'c"
    and dec :: "'c \<Rightarrow> 'a option"
  assumes dec_enc: "wf x \<Longrightarrow> dec (enc x) = Some x"
begin

lemma enc_inj: "wf x \<Longrightarrow> wf y \<Longrightarrow> enc x = enc y \<Longrightarrow> x = y"
  by (metis dec_enc option.inject)

text \<open>Encoding every value of a map and decoding it back, skipping what does not decode.\<close>

lemma map_roundtrip:
  "(\<And>k v. m k = Some v \<Longrightarrow> wf v) \<Longrightarrow>
     (\<lambda>k. Option.bind (map_option enc (m k)) dec) = m"
proof
  fix k
  assume "\<And>k v. m k = Some v \<Longrightarrow> wf v"
  then show "Option.bind (map_option enc (m k)) dec = m k"
    by (cases "m k") (auto simp: dec_enc)
qed

end

subsection \<open>A log read by cursor\<close>

text \<open>
  What a subscriber relies on when it resumes: a fetch returns the next messages after its
  cursor, and reading does not change the log. Then reading page by page from the position
  of the last message read gives every message after the first cursor, once and in order.
\<close>

locale message_log =
  fixes ok :: "'s \<Rightarrow> bool"
    and log :: "'s \<Rightarrow> 'm list"
    and pos :: "'m \<Rightarrow> int"
    and fetch :: "int \<Rightarrow> nat \<Rightarrow> 's \<Rightarrow> 'm list \<times> 's"
  assumes sorted_log: "ok s \<Longrightarrow> sorted_wrt (<) (List.map pos (log s))"
    and pos_range: "ok s \<Longrightarrow> m \<in> set (log s) \<Longrightarrow> 0 \<le> pos m \<and> pos m < 2 ^ 63"
    and fetch_take: "ok s \<Longrightarrow> 0 \<le> c \<Longrightarrow> c < 2 ^ 63 \<Longrightarrow>
      fst (fetch c k s) = take k (filter (\<lambda>m. c < pos m) (log s))"
    and ok_fetch: "ok s \<Longrightarrow> 0 \<le> c \<Longrightarrow> c < 2 ^ 63 \<Longrightarrow> ok (snd (fetch c k s))"
    and log_fetch: "ok s \<Longrightarrow> 0 \<le> c \<Longrightarrow> c < 2 ^ 63 \<Longrightarrow> log (snd (fetch c k s)) = log s"
begin

primrec pages :: "nat \<Rightarrow> int \<Rightarrow> nat \<Rightarrow> 's \<Rightarrow> 'm list" where
  "pages k c 0 s = []"
| "pages k c (Suc n) s =
     (case fetch c k s of (ms, s') \<Rightarrow>
        ms @ pages k (if ms = [] then c else pos (last ms)) n s')"

lemma after_last_page:
  assumes "sorted_wrt (<) (List.map pos ms)" "take k (filter (\<lambda>m. c < pos m) ms) \<noteq> []"
  shows "filter (\<lambda>m. pos (last (take k (filter (\<lambda>m. c < pos m) ms))) < pos m) ms =
    drop k (filter (\<lambda>m. c < pos m) ms)"
proof -
  let ?f = "filter (\<lambda>m. c < pos m) ms"
  let ?l = "last (take k ?f)"
  have srt: "sorted_wrt (\<lambda>a b. pos a < pos b) ?f"
    using assms(1) by (simp add: sorted_wrt_map sorted_wrt_filter)
  have c: "c < pos ?l"
    using last_in_set [OF assms(2)] by (auto dest: in_set_takeD)
  have split: "?f = butlast (take k ?f) @ [?l] @ drop k ?f"
    by (metis append_assoc append_butlast_last_id [OF assms(2)] append_take_drop_id)
  have "filter (\<lambda>m. pos ?l < pos m) ms = filter (\<lambda>m. pos ?l < pos m) ?f"
    using c by (auto intro!: filter_cong)
  also have "\<dots> = filter (\<lambda>m. pos ?l < pos m) (butlast (take k ?f) @ [?l] @ drop k ?f)"
    using split by simp
  also have "\<dots> = drop k ?f"
  proof -
    have "sorted_wrt (\<lambda>a b. pos a < pos b) (butlast (take k ?f) @ [?l] @ drop k ?f)"
      using srt split by simp
    then show ?thesis
      by (auto simp: sorted_wrt_append filter_empty_conv filter_id_conv not_less less_imp_le)
  qed
  finally show ?thesis .
qed

lemma pages_take:
  assumes "ok s" "0 \<le> c" "c < 2 ^ 63"
  shows "pages k c n s = take (n * k) (filter (\<lambda>m. c < pos m) (log s))"
  using assms
proof (induction n arbitrary: c s)
  case 0
  then show ?case by simp
next
  case (Suc n)
  let ?f = "filter (\<lambda>m. c < pos m) (log s)"
  obtain ms s' where f: "fetch c k s = (ms, s')" by (cases "fetch c k s")
  have ms: "ms = take k ?f" and s': "ok s'" "log s' = log s"
    using fetch_take ok_fetch log_fetch Suc.prems f by (metis fst_conv snd_conv)+
  show ?case
  proof (cases "ms = []")
    case True
    then have "k = 0 \<or> ?f = []" using ms by simp
    then show ?thesis using True f Suc.IH [OF s'(1) Suc.prems(2,3)] s'(2) by auto
  next
    case False
    then have "last ms \<in> set (log s)" using last_in_set ms by (metis filter_is_subset in_set_takeD subsetD)
    then have r: "0 \<le> pos (last ms)" "pos (last ms) < 2 ^ 63" using pos_range Suc.prems(1) by auto
    have "filter (\<lambda>m. pos (last ms) < pos m) (log s) = drop k ?f"
      using after_last_page [OF sorted_log [OF Suc.prems(1)], of k c] False ms by simp
    then show ?thesis
      using f False Suc.IH [OF s'(1) r] s'(2) ms by (simp add: take_add)
  qed
qed

end

end
