(* ===== verification/Broker_Trace.thy ===== *)
theory Broker_Trace
  imports Broker_Delivery
begin

text \<open>
  Executions of the pub/sub core: every interleaving of the mutex-protected sections, of
  the closes that follow them and of the subscribers' receives. The label of a step records
  what it did; \<open>btrace ls b p\<close> says the labels \<open>ls\<close> lead from the empty broker to \<open>b\<close>
  with the closes in \<open>p\<close> still to be carried out.
\<close>

datatype blabel =
    LSub string nat
  | LUnsub nat
  | LPub envelope
  | LClose nat
  | LRecv nat envelope

inductive btrace :: "blabel list \<Rightarrow> broker \<Rightarrow> nat list \<Rightarrow> bool" where
  bt_init: "btrace [] newBroker []"
| bt_sub: "btrace ls b p \<Longrightarrow> Subscribe ch b = (r, b') \<Longrightarrow> btrace (ls @ [LSub ch r]) b' p"
| bt_unsub: "btrace ls b p \<Longrightarrow> heap b r \<noteq> None \<Longrightarrow>
     btrace (ls @ [LUnsub r]) (unsubLocked r b) (p @ [r])"
| bt_pub: "btrace ls b p \<Longrightarrow> visitOrder order e b \<Longrightarrow> publishLocked order e b = (n, d, b') \<Longrightarrow>
     btrace (ls @ [LPub e]) b' (p @ d)"
| bt_close: "btrace ls b p \<Longrightarrow> r \<in> set p \<Longrightarrow> btrace (ls @ [LClose r]) (closeSub r b) (remove1 r p)"
| bt_recv: "btrace ls b p \<Longrightarrow> receive r b = Some (e, b') \<Longrightarrow> btrace (ls @ [LRecv r e]) b' p"

text \<open>What a trace published on \<open>ch\<close> after subscription \<open>r\<close>, and what \<open>r\<close> received.\<close>

definition pubsOn :: "string \<Rightarrow> blabel list \<Rightarrow> envelope list" where
  "pubsOn ch ls = concat (List.map (\<lambda>l. case l of
     LPub e \<Rightarrow> if e_channel e = ch then [e] else [] | _ \<Rightarrow> []) ls)"

fun pubsSince :: "nat \<Rightarrow> string \<Rightarrow> blabel list \<Rightarrow> envelope list" where
  "pubsSince r ch [] = []"
| "pubsSince r ch (l # ls) = (if l = LSub ch r then pubsOn ch ls else pubsSince r ch ls)"

definition recvd :: "nat \<Rightarrow> blabel list \<Rightarrow> envelope list" where
  "recvd r ls = concat (List.map (\<lambda>l. case l of
     LRecv x e \<Rightarrow> if x = r then [e] else [] | _ \<Rightarrow> []) ls)"

lemma pubsOn_snoc [simp]:
  "pubsOn ch (ls @ [l]) = pubsOn ch ls @ pubsOn ch [l]"
  by (simp add: pubsOn_def)

lemma pubsSince_snoc [simp]:
  "pubsSince r ch (ls @ [l]) =
     pubsSince r ch ls @ (if LSub ch r \<in> set ls then pubsOn ch [l] else [])"
  by (induction ls) (auto simp: pubsOn_def)

lemma recvd_snoc [simp]: "recvd r (ls @ [l]) = recvd r ls @ recvd r [l]"
  by (simp add: recvd_def)

subsection \<open>The invariant over all interleavings\<close>

definition pendingOk :: "broker \<Rightarrow> nat list \<Rightarrow> bool" where
  "pendingOk b p \<longleftrightarrow> (\<forall>r\<in>set p. heap b r \<noteq> None \<and> (\<forall>ch. \<not> registered b ch r))"

lemma Subscribe_spec:
  assumes "Subscribe ch b = (r, b')"
  shows "r = alloc b" "alloc b' = Suc r" "nextID b' = nextID b + 1"
    "entriesOf b' c = (if c = ch then AList.update (nextID b + 1) r (entriesOf b ch)
       else entriesOf b c)"
    "heap b' = (heap b)(r \<mapsto> \<lparr>sub_id = nextID b + 1, sub_channel = ch, sub_out = [],
       sub_closed = False\<rparr>)"
  using assms by (auto simp: Subscribe_def Let_def entriesOf_def)

lemma registered_Subscribe:
  assumes "Subscribe ch b = (r, b')" "registered b' c x" "x \<noteq> r"
  shows "registered b c x"
  using assms(2,3) Subscribe_spec(4) [OF assms(1)]
  by (auto simp: registered_def split: if_splits dest!: set_alist_update [THEN subsetD])

lemma receive_spec:
  assumes "receive r b = Some (e, b')"
  obtains s q where "heap b r = Some s" "sub_out s = e # q"
    "b' = b\<lparr>heap := (heap b)(r \<mapsto> s\<lparr>sub_out := q\<rparr>)\<rparr>"
  using assms by (auto simp: receive_def split: option.splits list.splits)

lemma receive_inv:
  assumes "brokerInv b" "receive r b = Some (e, b')"
  shows "brokerInv b' \<and> entriesOf b' = entriesOf b"
proof -
  obtain s q where s: "heap b r = Some s" "sub_out s = e # q"
    "b' = b\<lparr>heap := (heap b)(r \<mapsto> s\<lparr>sub_out := q\<rparr>)\<rparr>"
    using assms(2) by (rule receive_spec)
  have "length q \<le> subscriberQueueDepth" using brokerInv_heap [OF assms(1) s(1)] s(2) by simp
  with assms(1) s show ?thesis by (force simp: brokerInv_def entryOk_def)
qed

lemma btrace_inv: "btrace ls b p \<Longrightarrow> brokerInv b \<and> pendingOk b p"
proof (induction rule: btrace.induct)
  case bt_init
  show ?case by (simp add: newBroker_inv pendingOk_def)
next
  case (bt_sub ls b p ch r b')
  have "brokerInv b'" using Subscribe_inv [of b ch] bt_sub by simp
  moreover have "pendingOk b' p"
    using bt_sub registered_Subscribe [OF bt_sub.hyps(2)] Subscribe_spec [OF bt_sub.hyps(2)]
      brokerInv_alloc [of b] by (fastforce simp: pendingOk_def)
  ultimately show ?case by simp
next
  case (bt_unsub ls b p r)
  then obtain s where s: "heap b r = Some s" by auto
  have "registered (unsubLocked r b) ch x \<Longrightarrow> registered b ch x" for ch x
    by (auto simp: registered_def entriesOf_unsubLocked [OF s] split: if_splits)
  with bt_unsub s show ?case
    by (auto simp: unsubLocked_inv pendingOk_def unregistered_after_unsub)
next
  case (bt_pub ls b p order e n d b')
  then have inv: "brokerInv b" by simp
  note st = publishLocked_state [OF inv bt_pub.hyps(2,3)]
  have mono: "registered b' ch x \<Longrightarrow> registered b ch x" for ch x
    by (auto simp: registered_def st(2) split: if_splits)
  have h: "heap b' x = None \<longleftrightarrow> heap b x = None" for x by (simp add: st(3))
  have "heap b x \<noteq> None" if "x \<in> set d" for x
    using that st(4) by (auto simp: full_def split: option.splits)
  then show ?case
    using bt_pub.IH st(1) h publishLocked_unregisters [OF inv bt_pub.hyps(2,3)]
    by (auto simp: pendingOk_def dest: mono)
next
  case (bt_close ls b p r)
  then have "\<not> registered b ch r" for ch by (auto simp: pendingOk_def)
  with bt_close show ?case
    by (auto simp: closeSub_inv pendingOk_def heap_closeSub registered_def dest: notin_set_remove1)
next
  case (bt_recv ls b p r e b')
  then show ?case
    using receive_inv [of b r e b'] by (force simp: pendingOk_def registered_def elim: receive_spec)
qed

text \<open>Delivery: what a subscriber has received and has queued, against what was published.\<close>

definition deliveryOk :: "blabel list \<Rightarrow> broker \<Rightarrow> bool" where
  "deliveryOk ls b \<longleftrightarrow>
     (\<forall>r. heap b r = None \<longrightarrow> (\<forall>ch. LSub ch r \<notin> set ls) \<and> recvd r ls = []) \<and>
     (\<forall>r s. heap b r = Some s \<longrightarrow> LSub (sub_channel s) r \<in> set ls \<and>
        prefix (recvd r ls @ sub_out s) (pubsSince r (sub_channel s) ls) \<and>
        (registered b (sub_channel s) r \<longrightarrow>
           recvd r ls @ sub_out s = pubsSince r (sub_channel s) ls))"

lemma deliveryOkI:
  assumes "\<And>r. heap b r = None \<Longrightarrow> (\<forall>ch. LSub ch r \<notin> set ls) \<and> recvd r ls = []"
    and "\<And>r s. heap b r = Some s \<Longrightarrow> LSub (sub_channel s) r \<in> set ls"
    and "\<And>r s. heap b r = Some s \<Longrightarrow> prefix (recvd r ls @ sub_out s) (pubsSince r (sub_channel s) ls)"
    and "\<And>r s. heap b r = Some s \<Longrightarrow> registered b (sub_channel s) r \<Longrightarrow>
      recvd r ls @ sub_out s = pubsSince r (sub_channel s) ls"
  shows "deliveryOk ls b"
  using assms by (simp add: deliveryOk_def)

lemma deliveryOkD:
  assumes "deliveryOk ls b" "heap b r = Some s"
  shows "LSub (sub_channel s) r \<in> set ls"
    and "prefix (recvd r ls @ sub_out s) (pubsSince r (sub_channel s) ls)"
    and "registered b (sub_channel s) r \<Longrightarrow>
      recvd r ls @ sub_out s = pubsSince r (sub_channel s) ls"
  using assms by (simp_all add: deliveryOk_def)

lemma registered_heap [simp]: "registered (b\<lparr>heap := h\<rparr>) = registered b"
  by (simp add: registered_def fun_eq_iff)

text \<open>Each kind of step keeps the delivery invariant.\<close>

lemma deliveryOk_frame:
  assumes "deliveryOk ls b"
    and "\<And>r. map_option (\<lambda>s. (sub_channel s, sub_out s)) (heap b' r)
       = map_option (\<lambda>s. (sub_channel s, sub_out s)) (heap b r)"
    and "\<And>ch r. registered b' ch r \<Longrightarrow> registered b ch r"
    and "\<And>ch. pubsOn ch [l] = []" "\<And>ch r. l \<noteq> LSub ch r" "\<And>r. recvd r [l] = []"
  shows "deliveryOk (ls @ [l]) b'"
proof (rule deliveryOkI)
  have n: "heap b' r = None \<longleftrightarrow> heap b r = None" for r
    using assms(2) [of r] by (cases "heap b r"; cases "heap b' r") auto
  have s: "\<exists>s. heap b r = Some s \<and> sub_channel s = sub_channel s' \<and> sub_out s = sub_out s'"
    if "heap b' r = Some s'" for r s'
    using assms(2) [of r] that by (cases "heap b r") auto
  fix r
  show "heap b' r = None \<Longrightarrow> (\<forall>ch. LSub ch r \<notin> set (ls @ [l])) \<and> recvd r (ls @ [l]) = []"
    using assms(1,5,6) n by (auto simp: deliveryOk_def)
  fix s' assume "heap b' r = Some s'"
  then obtain s where "heap b r = Some s" "sub_channel s = sub_channel s'" "sub_out s = sub_out s'"
    using s by blast
  with assms show "LSub (sub_channel s') r \<in> set (ls @ [l])"
    "prefix (recvd r (ls @ [l]) @ sub_out s') (pubsSince r (sub_channel s') (ls @ [l]))"
    "registered b' (sub_channel s') r \<Longrightarrow>
       recvd r (ls @ [l]) @ sub_out s' = pubsSince r (sub_channel s') (ls @ [l])"
    by (fastforce simp: deliveryOk_def)+
qed

lemma pubsSince_fresh: "LSub ch r \<notin> set ls \<Longrightarrow> pubsSince r ch ls = []"
  by (induction ls) auto

lemma deliveryOk_sub:
  assumes "deliveryOk ls b" "brokerInv b" "Subscribe ch b = (r, b')"
  shows "deliveryOk (ls @ [LSub ch r]) b'"
proof (rule deliveryOkI)
  note sp = Subscribe_spec [OF assms(3)]
  have fresh: "heap b r = None" using brokerInv_alloc [OF assms(2)] sp(1) by simp
  have lab: "pubsOn c [LSub ch r] = []" "recvd x [LSub ch r] = []" for c x
    by (simp_all add: pubsOn_def recvd_def)
  fix x
  show "heap b' x = None \<Longrightarrow> (\<forall>c. LSub c x \<notin> set (ls @ [LSub ch r])) \<and>
      recvd x (ls @ [LSub ch r]) = []"
    using assms(1) by (auto simp: sp(5) deliveryOk_def lab split: if_splits)
  fix s assume s: "heap b' x = Some s"
  show "LSub (sub_channel s) x \<in> set (ls @ [LSub ch r])"
    using s assms(1) by (auto simp: sp(5) deliveryOk_def split: if_splits)
  show "prefix (recvd x (ls @ [LSub ch r]) @ sub_out s) (pubsSince x (sub_channel s) (ls @ [LSub ch r]))"
    using s assms(1) fresh
    by (cases "x = r") (auto simp: sp(5) deliveryOk_def lab pubsSince_fresh)
  show "registered b' (sub_channel s) x \<Longrightarrow>
     recvd x (ls @ [LSub ch r]) @ sub_out s = pubsSince x (sub_channel s) (ls @ [LSub ch r])"
    using s assms(1) fresh registered_Subscribe [OF assms(3)]
    by (cases "x = r") (auto simp: sp(5) deliveryOk_def lab pubsSince_fresh)
qed

lemma deliveryOk_recv:
  assumes "deliveryOk ls b" "brokerInv b" "receive r b = Some (e, b')"
  shows "deliveryOk (ls @ [LRecv r e]) b'"
proof (rule deliveryOkI)
  obtain s q where s: "heap b r = Some s" "sub_out s = e # q"
    and b': "b' = b\<lparr>heap := (heap b)(r \<mapsto> s\<lparr>sub_out := q\<rparr>)\<rparr>"
    using assms(3) by (rule receive_spec)
  have lab: "pubsOn c [LRecv r e] = []" "recvd x [LRecv r e] = (if x = r then [e] else [])" for c x
    by (simp_all add: pubsOn_def recvd_def)
  note D = deliveryOkD [OF assms(1) s(1)]
  fix x
  show "heap b' x = None \<Longrightarrow> (\<forall>c. LSub c x \<notin> set (ls @ [LRecv r e])) \<and>
      recvd x (ls @ [LRecv r e]) = []"
    using assms(1) by (auto simp: b' deliveryOk_def lab split: if_splits)
  fix t assume t: "heap b' x = Some t"
  show "LSub (sub_channel t) x \<in> set (ls @ [LRecv r e])"
    "prefix (recvd x (ls @ [LRecv r e]) @ sub_out t) (pubsSince x (sub_channel t) (ls @ [LRecv r e]))"
    "registered b' (sub_channel t) x \<Longrightarrow>
     recvd x (ls @ [LRecv r e]) @ sub_out t = pubsSince x (sub_channel t) (ls @ [LRecv r e])"
    using t s D deliveryOkD [OF assms(1)] by (auto simp: b' lab split: if_splits)
qed

lemma deliveryOk_pub:
  assumes "deliveryOk ls b" "brokerInv b" "visitOrder order e b"
    "publishLocked order e b = (n, d, b')"
  shows "deliveryOk (ls @ [LPub e]) b'"
proof (rule deliveryOkI)
  note st = publishLocked_state [OF assms(2-4)]
  have lab: "pubsOn c [LPub e] = (if e_channel e = c then [e] else [])" "recvd x [LPub e] = []" for c x
    by (simp_all add: pubsOn_def recvd_def)
  fix x
  show "heap b' x = None \<Longrightarrow> (\<forall>c. LSub c x \<notin> set (ls @ [LPub e])) \<and> recvd x (ls @ [LPub e]) = []"
    using assms(1) by (auto simp: st(3) deliveryOk_def lab split: if_splits)
  fix t assume t: "heap b' x = Some t"
  then obtain s where s0: "heap b x = Some s"
    by (cases "heap b x") (auto simp: st(3) split: if_splits)
  with t have "t = (if registered b (e_channel e) x then enqueue e s else s)"
    by (auto simp: st(3))
  with s0 have s: "heap b x = Some s" "sub_channel t = sub_channel s"
    and out: "sub_out t = (if registered b (e_channel e) x \<and> \<not> full (heap b) x
        then sub_out s @ [e] else sub_out s)"
    by (simp_all add: enqueue_def full_def)
  have chan: "registered b c x \<Longrightarrow> c = sub_channel s" for c
    using s(1) by (metis assms(2) brokerInv_registered option.inject)
  have IH: "LSub (sub_channel s) x \<in> set ls"
    "prefix (recvd x ls @ sub_out s) (pubsSince x (sub_channel s) ls)"
    "registered b (sub_channel s) x \<Longrightarrow> recvd x ls @ sub_out s = pubsSince x (sub_channel s) ls"
    using deliveryOkD [OF assms(1) s(1)] by simp_all
  show "LSub (sub_channel t) x \<in> set (ls @ [LPub e])" using IH(1) s(2) by simp
  have reg': "registered b' c x \<longleftrightarrow> registered b c x \<and> (c = e_channel e \<longrightarrow> \<not> full (heap b) x)" for c
    by (auto simp: registered_def st(2))
  show "recvd x (ls @ [LPub e]) @ sub_out t = pubsSince x (sub_channel t) (ls @ [LPub e])"
    if "registered b' (sub_channel t) x"
  proof -
    from that s(2) have r: "registered b (sub_channel s) x"
      "sub_channel s = e_channel e \<Longrightarrow> \<not> full (heap b) x" by (simp_all add: reg')
    have "registered b (e_channel e) x \<longleftrightarrow> sub_channel s = e_channel e"
      using chan r(1) by metis
    with out r have "sub_out t = sub_out s @ (if e_channel e = sub_channel s then [e] else [])"
      by auto
    with IH(1) IH(3) [OF r(1)] s(2) show ?thesis by (simp add: lab)
  qed
  show "prefix (recvd x (ls @ [LPub e]) @ sub_out t) (pubsSince x (sub_channel t) (ls @ [LPub e]))"
  proof (cases "registered b (e_channel e) x")
    case True
    with chan have "sub_channel s = e_channel e" by simp
    with True IH(3) have "recvd x ls @ sub_out s = pubsSince x (e_channel e) ls" by simp
    with True IH(1) s(2) out \<open>sub_channel s = e_channel e\<close> show ?thesis
      by (simp add: lab flip: append_assoc)
  next
    case False
    with IH(2) s(2) out show ?thesis by (simp add: lab)
  qed
qed

lemma btrace_delivery: "btrace ls b p \<Longrightarrow> deliveryOk ls b"
proof (induction rule: btrace.induct)
  case bt_init
  show ?case by (simp add: deliveryOk_def newBroker_def recvd_def)
next
  case (bt_sub ls b p ch r b')
  then show ?case using btrace_inv deliveryOk_sub by blast
next
  case (bt_unsub ls b p r)
  then obtain s where s: "heap b r = Some s" by auto
  show ?case
    by (rule deliveryOk_frame [OF bt_unsub.IH])
      (auto simp: pubsOn_def recvd_def registered_def entriesOf_unsubLocked [OF s] split: if_splits)
next
  case (bt_pub ls b p order e n d b')
  then show ?case using btrace_inv deliveryOk_pub by blast
next
  case (bt_close ls b p r)
  show ?case
    by (rule deliveryOk_frame [OF bt_close.IH])
      (auto simp: pubsOn_def recvd_def registered_def heap_closeSub option.map_comp comp_def)
next
  case (bt_recv ls b p r e b')
  then show ?case using btrace_inv deliveryOk_recv by blast
qed

text \<open>
  C1. At-most-once, in-order delivery over every interleaving of subscribes, unsubscribes,
  publishes, closes and receives: what a subscription has received, followed by what is
  still in its queue, is a prefix of the envelopes published on its channel since it
  subscribed, in that order; as long as the subscription is registered nothing is missing.
\<close>
theorem delivery_in_order:
  assumes "btrace ls b p" and "heap b r = Some s"
  shows "prefix (recvd r ls @ sub_out s) (pubsSince r (sub_channel s) ls) \<and>
    (registered b (sub_channel s) r \<longrightarrow>
       recvd r ls @ sub_out s = pubsSince r (sub_channel s) ls)"
  using btrace_delivery [OF assms(1)] assms(2) by (auto simp: deliveryOk_def)

lemma exTrace: "btrace [LSub ''c'' 0, LPub (exEnv ''c'' ''1'')]
    (snd (snd (publishLocked [0] (exEnv ''c'' ''1'') (snd (Subscribe ''c'' newBroker))))) []"
proof -
  let ?b = "snd (Subscribe ''c'' newBroker)"
  have 1: "btrace ([] @ [LSub ''c'' 0]) ?b []"
    by (rule bt_sub [OF bt_init]) (simp add: Subscribe_def newBroker_def Let_def)
  have "visitOrder [0] (exEnv ''c'' ''1'') ?b"
    by (simp add: visitOrder_def Subscribe_def newBroker_def Let_def entriesOf_def)
  moreover have "publishLocked [0] (exEnv ''c'' ''1'') ?b
      = (1, [], snd (snd (publishLocked [0] (exEnv ''c'' ''1'') ?b)))"
    by (simp add: publishLocked_def Subscribe_def newBroker_def Let_def subscriberQueueDepth_def)
  ultimately show ?thesis
    using bt_pub [OF 1] by fastforce
qed

theorem delivery_in_order_witness:
  "\<exists>b s. btrace [LSub ''c'' 0, LPub (exEnv ''c'' ''1'')] b [] \<and> heap b 0 = Some s \<and>
     sub_out s = [exEnv ''c'' ''1'']"
proof -
  let ?b = "snd (snd (publishLocked [0] (exEnv ''c'' ''1'') (snd (Subscribe ''c'' newBroker))))"
  have e: "\<exists>s. heap ?b 0 = Some s \<and> sub_channel s = ''c'' \<and> registered ?b ''c'' 0"
    by (simp add: publishLocked_def Subscribe_def newBroker_def Let_def subscriberQueueDepth_def
        registered_def entriesOf_def)
  then obtain s where s: "heap ?b 0 = Some s" "sub_channel s = ''c''" "registered ?b ''c'' 0" by blast
  from delivery_in_order [OF exTrace s(1)] s(2,3) have "sub_out s = [exEnv ''c'' ''1'']"
    by (simp add: recvd_def pubsOn_def)
  with exTrace s(1) show ?thesis by blast
qed

subsection \<open>No subscription leaks\<close>

text \<open>
  Subscription ids are 64-bit and would wrap after \<open>2 ^ 64\<close> subscriptions; below that
  every subscription is registered, or about to be closed, or closed.
\<close>

definition accounted :: "broker \<Rightarrow> nat list \<Rightarrow> bool" where
  "accounted b p \<longleftrightarrow> unat (nextID b) = alloc b \<and>
     (\<forall>r s. heap b r = Some s \<longrightarrow> unat (sub_id s) = Suc r \<and>
        (registered b (sub_channel s) r \<or> r \<in> set p \<or> sub_closed s))"

lemma accounted_mono:
  assumes "accounted b p" "alloc b' = alloc b" "nextID b' = nextID b"
    and "\<And>r s'. heap b' r = Some s' \<Longrightarrow> \<exists>s. heap b r = Some s \<and> sub_id s' = sub_id s \<and>
       (registered b (sub_channel s) r \<or> r \<in> set p \<or> sub_closed s \<longrightarrow>
        registered b' (sub_channel s') r \<or> r \<in> set p' \<or> sub_closed s')"
  shows "accounted b' p'"
  using assms unfolding accounted_def by metis

lemma accounted_sub:
  assumes acc: "accounted b p" and inv: "brokerInv b" and sub: "Subscribe ch b = (r, b')"
    and small: "alloc b' < 2 ^ 64"
  shows "accounted b' p"
proof -
  note sp = Subscribe_spec [OF sub]
  have n: "unat (nextID b) = alloc b" using acc by (simp add: accounted_def)
  have lt: "Suc (alloc b) < 2 ^ 64" using small sp(1,2) by simp
  then have id: "unat (nextID b + 1) = Suc (alloc b)"
    using n by (simp add: unat_word_ariths)
  have fresh: "i \<noteq> nextID b + 1" if mem: "(i, x) \<in> set (entriesOf b c)" for i x c
  proof -
    obtain s where s: "heap b x = Some s" "sub_id s = i"
      using brokerInv_entry [OF inv mem] by blast
    then have "x < alloc b" using inv by (auto simp: brokerInv_def)
    moreover have "unat i = Suc x" using acc s by (auto simp: accounted_def)
    ultimately show ?thesis using id by auto
  qed
  have "registered b' c x" if "registered b c x" for c x
  proof -
    from that obtain i where i: "(i, x) \<in> set (entriesOf b c)" by (auto simp: registered_def)
    have "p \<in> set m \<Longrightarrow> fst p \<noteq> k \<Longrightarrow> p \<in> set (AList.update k v m)"
      for p :: "64 word \<times> nat" and k v m
      by (induction m) auto
    from this [OF i, of "nextID b + 1" r] fresh [OF i] i have "(i, x) \<in> set (entriesOf b' c)"
      by (cases "c = ch") (simp_all add: sp(4))
    then show ?thesis by (force simp: registered_def)
  qed
  moreover have "registered b' ch r"
  proof -
    have "(k, v) \<in> set (AList.update k v m)" for k :: "64 word" and v :: nat and m
      by (induction m) auto
    then show ?thesis by (force simp: registered_def sp(4))
  qed
  ultimately show ?thesis
    using acc id sp(1) by (auto simp: accounted_def sp(2,3,5))
qed

lemma btrace_accounted: "btrace ls b p \<Longrightarrow> alloc b < 2 ^ 64 \<Longrightarrow> accounted b p"
proof (induction rule: btrace.induct)
  case bt_init
  show ?case by (simp add: accounted_def newBroker_def)
next
  case (bt_sub ls b p ch r b')
  then have "accounted b p" using Subscribe_spec [OF bt_sub.hyps(2)] by simp
  with bt_sub btrace_inv show ?case by (blast intro: accounted_sub)
next
  case (bt_unsub ls b p r)
  then obtain s where s: "heap b r = Some s" by auto
  have acc: "accounted b p" using bt_unsub by simp
  have "sub_id t \<noteq> sub_id s" if "heap b x = Some t" "x \<noteq> r" for x t
    using acc s that by (metis accounted_def nat.inject)
  then have keep: "registered (unsubLocked r b) c x" if "registered b c x" "x \<noteq> r" for c x
    using that brokerInv_entry [of b] btrace_inv [OF bt_unsub.hyps(1)]
    by (fastforce simp: registered_def entriesOf_unsubLocked [OF s])
  show ?case
    by (rule accounted_mono [OF acc]) (use keep in auto)
next
  case (bt_pub ls b p order e n d b')
  have inv: "brokerInv b" using btrace_inv [OF bt_pub.hyps(1)] by simp
  note st = publishLocked_state [OF inv bt_pub.hyps(2,3)]
  have acc: "accounted b p" using bt_pub.IH bt_pub.prems st(6) by simp
  have keep: "registered b' c x \<or> x \<in> set d" if "registered b c x" for c x
    using that st(2,4) by (auto simp: registered_def)
  show ?case
  proof (rule accounted_mono [OF acc st(6,7)])
    fix r s' assume "heap b' r = Some s'"
    then show "\<exists>s. heap b r = Some s \<and> sub_id s' = sub_id s \<and>
       (registered b (sub_channel s) r \<or> r \<in> set p \<or> sub_closed s \<longrightarrow>
        registered b' (sub_channel s') r \<or> r \<in> set (p @ d) \<or> sub_closed s')"
      by (auto simp: st(3) dest: keep split: if_splits)
  qed
next
  case (bt_close ls b p r)
  have acc: "accounted b p" using bt_close by simp
  show ?case
    by (rule accounted_mono [OF acc])
      (auto simp: heap_closeSub registered_def split: if_splits dest: in_set_remove1 [THEN iffD2])
next
  case (bt_recv ls b p r e b')
  obtain s q where s: "heap b r = Some s" "b' = b\<lparr>heap := (heap b)(r \<mapsto> s\<lparr>sub_out := q\<rparr>)\<rparr>"
    using bt_recv.hyps(2) by (rule receive_spec)
  have acc: "accounted b p" using bt_recv s(2) by simp
  show ?case
    by (rule accounted_mono [OF acc]) (auto simp: s split: if_splits)
qed



end
