(* ===== verification/Codec.thy ===== *)
theory Codec
  imports Interfaces
begin

text \<open>
  The \<open>encoding/base32\<close> and \<open>encoding/base64\<close> functions the program uses: base32 without
  padding (secrets, registration keys, channel ids), base64 with padding (challenge and
  response on the WebSocket) and unpadded URL base64 (account ids, API keys, tickets).
  Bytes are worked on as numbers below 256, symbols as numbers below 32 or 64.
\<close>

definition codes :: "bytes \<Rightarrow> nat list" where
  "codes s = List.map code s"

lemma ascii_codes [simp]: "ascii (codes s) = s"
  by (simp add: ascii_def codes_def comp_def)

lemma codes_ascii: "list_all (\<lambda>n. n < 256) ns \<Longrightarrow> codes (ascii ns) = ns"
  by (induction ns) (auto simp: ascii_def codes_def)

lemma codes_small: "list_all (\<lambda>n. n < 256) (codes s)"
  by (simp add: codes_def list_all_iff)

lemma length_codes [simp]: "length (codes s) = length s"
  by (simp add: codes_def)

lemma length_ascii [simp]: "length (ascii ns) = length ns"
  by (simp add: ascii_def)

text \<open>\<open>DecodeString\<close> of both packages ignores newlines.\<close>

definition stripNewlines :: "string \<Rightarrow> string" where
  "stripNewlines s = filter (\<lambda>c. code c \<noteq> 10 \<and> code c \<noteq> 13) s"

lemma stripNewlines_id: "(\<And>c. c \<in> set s \<Longrightarrow> 13 < code c) \<Longrightarrow> stripNewlines s = s"
  unfolding stripNewlines_def by (rule filter_True) fastforce

subsection \<open>Base32\<close>

definition b32sym :: "nat \<Rightarrow> char" where
  "b32sym n = char_of (if n < 26 then n + 65 else n + 24)"

definition b32val :: "char \<Rightarrow> nat option" where
  "b32val c = (if 65 \<le> code c \<and> code c \<le> 90 then Some (code c - 65)
     else if 50 \<le> code c \<and> code c \<le> 55 then Some (code c - 24) else None)"

fun b32q :: "nat list \<Rightarrow> nat list" where
  "b32q (a # b # c # d # e # r) =
     [a div 8, a mod 8 * 4 + b div 64, b div 2 mod 32, b mod 2 * 16 + c div 16,
      c mod 16 * 2 + d div 128, d div 4 mod 32, d mod 4 * 8 + e div 32, e mod 32] @ b32q r"
| "b32q [a, b, c, d] =
     [a div 8, a mod 8 * 4 + b div 64, b div 2 mod 32, b mod 2 * 16 + c div 16,
      c mod 16 * 2 + d div 128, d div 4 mod 32, d mod 4 * 8]"
| "b32q [a, b, c] =
     [a div 8, a mod 8 * 4 + b div 64, b div 2 mod 32, b mod 2 * 16 + c div 16, c mod 16 * 2]"
| "b32q [a, b] = [a div 8, a mod 8 * 4 + b div 64, b div 2 mod 32, b mod 2 * 16]"
| "b32q [a] = [a div 8, a mod 8 * 4]"
| "b32q [] = []"

text \<open>
  The decoder packs eight symbols into five bytes; of a final partial group of 7, 5, 4 or 2
  symbols it keeps the whole bytes, and a group of any other length yields nothing.
\<close>

fun b32d :: "nat list \<Rightarrow> nat list" where
  "b32d (p # q # r # s # t # u # v # w # rest) =
     [p * 8 + q div 4, q mod 4 * 64 + r * 2 + s div 16, s mod 16 * 16 + t div 2,
      t mod 2 * 128 + u * 4 + v div 8, v mod 8 * 32 + w] @ b32d rest"
| "b32d [p, q, r, s, t, u, v] =
     [p * 8 + q div 4, q mod 4 * 64 + r * 2 + s div 16, s mod 16 * 16 + t div 2,
      t mod 2 * 128 + u * 4 + v div 8]"
| "b32d [p, q, r, s, t] =
     [p * 8 + q div 4, q mod 4 * 64 + r * 2 + s div 16, s mod 16 * 16 + t div 2]"
| "b32d [p, q, r, s] = [p * 8 + q div 4, q mod 4 * 64 + r * 2 + s div 16]"
| "b32d [p, q] = [p * 8 + q div 4]"
| "b32d _ = []"

definition b32encode :: "bytes \<Rightarrow> string" where
  "b32encode s = List.map b32sym (b32q (codes s))"

definition b32decode :: "string \<Rightarrow> bytes option" where
  "b32decode s =
     (let vs = List.map b32val (stripNewlines s)
      in if None \<in> set vs then None else Some (ascii (b32d (List.map the vs))))"

text \<open>Splitting a number at two bit positions and putting the pieces back together.\<close>

lemma carry:
  "(y::nat) < k \<Longrightarrow> (x * k + y) div k = x" "(y::nat) < k \<Longrightarrow> (x * k + y) mod k = y"
  by auto

lemma pieces: "x div (m * n) * (m * n) + x div m mod n * m + x mod m = (x::nat)"
proof -
  have "x mod (m * n) = x div m mod n * m + x mod m"
    by (simp add: mod_mult2_eq)
  then show ?thesis using div_mult_mod_eq [of x "m * n"] by simp
qed

lemma below: "(x::nat) < m \<Longrightarrow> y < k \<Longrightarrow> x * k + y < m * k"
proof -
  assume "x < m" "y < k"
  then have "x * k + y < Suc x * k" by simp
  also have "\<dots> \<le> m * k" using \<open>x < m\<close> by (intro mult_le_mono1) simp
  finally show ?thesis .
qed

lemma b32_bytes:
  fixes a b c d e :: nat
  assumes "a < 256" "b < 256" "c < 256" "d < 256" "e < 256"
  shows "a div 8 * 8 + (a mod 8 * 4 + b div 64) div 4 = a"
    "(a mod 8 * 4 + b div 64) mod 4 * 64 + b div 2 mod 32 * 2 + (b mod 2 * 16 + c div 16) div 16 = b"
    "(b mod 2 * 16 + c div 16) mod 16 * 16 + (c mod 16 * 2 + d div 128) div 2 = c"
    "(c mod 16 * 2 + d div 128) mod 2 * 128 + d div 4 mod 32 * 4 + (d mod 4 * 8 + e div 32) div 8 = d"
    "(d mod 4 * 8 + e div 32) mod 8 * 32 + e mod 32 = e"
proof -
  have 1: "b div 64 < 4" "c div 16 < 16" "d div 128 < 2" "e div 32 < 8" using assms by simp_all
  show "a div 8 * 8 + (a mod 8 * 4 + b div 64) div 4 = a"
    by (simp only: carry [OF 1(1)] div_mult_mod_eq)
  show "(a mod 8 * 4 + b div 64) mod 4 * 64 + b div 2 mod 32 * 2 + (b mod 2 * 16 + c div 16) div 16 = b"
    unfolding carry [OF 1(1)] carry [OF 1(2)] using pieces [of b 2 32] by simp
  show "(b mod 2 * 16 + c div 16) mod 16 * 16 + (c mod 16 * 2 + d div 128) div 2 = c"
    unfolding carry [OF 1(2)] carry [OF 1(3)] by (rule div_mult_mod_eq)
  show "(c mod 16 * 2 + d div 128) mod 2 * 128 + d div 4 mod 32 * 4 + (d mod 4 * 8 + e div 32) div 8 = d"
    unfolding carry [OF 1(3)] carry [OF 1(4)] using pieces [of d 4 32] by simp
  show "(d mod 4 * 8 + e div 32) mod 8 * 32 + e mod 32 = e"
    unfolding carry [OF 1(4)] by (rule div_mult_mod_eq)
qed

lemmas b32_unfold = b32q.simps b32d.simps append_Cons append_Nil list.pred_inject

lemma b32d_b32q [simp]: "list_all (\<lambda>n. n < 256) ns \<Longrightarrow> b32d (b32q ns) = ns"
proof (induction ns rule: b32q.induct)
  case (1 a b c d e r)
  then have lt: "a < 256" "b < 256" "c < 256" "d < 256" "e < 256" and "b32d (b32q r) = r"
    by simp_all
  then show ?case by (simp only: b32_unfold b32_bytes [OF lt])
next
  case (2 a b c d)
  then show ?case using b32_bytes [of a b c d 0] by (simp only: b32_unfold) simp
next
  case (3 a b c)
  then show ?case using b32_bytes [of a b c 0 0] by (simp only: b32_unfold) simp
next
  case (4 a b)
  then show ?case using b32_bytes [of a b 0 0 0] by (simp only: b32_unfold) simp
next
  case (5 a)
  then show ?case using b32_bytes [of a 0 0 0 0] by (simp only: b32_unfold) simp
qed simp

lemma b32_symbols:
  fixes a b c d e :: nat
  assumes "a < 256" "b < 256" "c < 256" "d < 256" "e < 256"
  shows "a div 8 < 32" "a mod 8 * 4 + b div 64 < 32" "b div 2 mod 32 < 32"
    "b mod 2 * 16 + c div 16 < 32" "c mod 16 * 2 + d div 128 < 32" "d div 4 mod 32 < 32"
    "d mod 4 * 8 + e div 32 < 32" "e mod 32 < 32"
  using assms below [of "a mod 8" 8 "b div 64" 4] below [of "b mod 2" 2 "c div 16" 16]
    below [of "c mod 16" 16 "d div 128" 2] below [of "d mod 4" 4 "e div 32" 8]
  by simp_all

lemma b32q_small: "list_all (\<lambda>n. n < 256) ns \<Longrightarrow> list_all (\<lambda>n. n < 32) (b32q ns)"
proof (induction ns rule: b32q.induct)
  case (1 a b c d e r)
  then have lt: "a < 256" "b < 256" "c < 256" "d < 256" "e < 256"
    and "list_all (\<lambda>n. n < 32) (b32q r)" by simp_all
  then show ?case by (simp only: b32_unfold b32_symbols [OF lt] simp_thms)
next
  case (2 a b c d)
  then show ?case using b32_symbols [of a b c d 0] by (simp only: b32_unfold) simp
next
  case (3 a b c)
  then show ?case using b32_symbols [of a b c 0 0] by (simp only: b32_unfold) simp
next
  case (4 a b)
  then show ?case using b32_symbols [of a b 0 0 0] by (simp only: b32_unfold) simp
next
  case (5 a)
  then show ?case using b32_symbols [of a 0 0 0 0] by (simp only: b32_unfold) simp
qed simp

lemma b32val_sym [simp]: "n < 32 \<Longrightarrow> b32val (b32sym n) = Some n"
  by (auto simp: b32val_def b32sym_def)

lemma b32sym_printable: "n < 32 \<Longrightarrow> 13 < code (b32sym n)"
  by (auto simp: b32sym_def)

lemma b32decode_encode: "b32decode (b32encode s) = Some s"
proof -
  let ?q = "b32q (codes s)"
  have small: "\<And>n. n \<in> set ?q \<Longrightarrow> n < 32"
    using b32q_small [OF codes_small] by (auto simp: list_all_iff)
  have "stripNewlines (b32encode s) = b32encode s"
    by (rule stripNewlines_id) (auto simp: b32encode_def dest: small intro: b32sym_printable)
  moreover have "List.map b32val (b32encode s) = List.map Some ?q"
    using small by (simp add: b32encode_def)
  ultimately show ?thesis
    by (auto simp: b32decode_def Let_def comp_def codes_small)
qed

interpretation b32: codec "\<lambda>_. True" b32encode b32decode
  by unfold_locales (rule b32decode_encode)

lemma length_b32encode: "length (b32encode s) = length (b32q (codes s))"
  by (simp add: b32encode_def)

subsection \<open>Base64\<close>

definition b64sym :: "nat \<Rightarrow> char" where
  "b64sym n = char_of (if n < 26 then n + 65 else if n < 52 then n + 71
     else if n < 62 then n - 4 else if n = 62 then 43 else 47)"

definition b64urlsym :: "nat \<Rightarrow> char" where
  "b64urlsym n = (if n = 62 then CHR ''-'' else if n = 63 then CHR ''_'' else b64sym n)"

definition b64val :: "char \<Rightarrow> nat option" where
  "b64val c = (let n = code c in
     if 65 \<le> n \<and> n \<le> 90 then Some (n - 65)
     else if 97 \<le> n \<and> n \<le> 122 then Some (n - 71)
     else if 48 \<le> n \<and> n \<le> 57 then Some (n + 4)
     else if n = 43 then Some 62 else if n = 47 then Some 63 else None)"

fun b64q :: "nat list \<Rightarrow> nat list" where
  "b64q (a # b # c # r) =
     [a div 4, a mod 4 * 16 + b div 16, b mod 16 * 4 + c div 64, c mod 64] @ b64q r"
| "b64q [a, b] = [a div 4, a mod 4 * 16 + b div 16, b mod 16 * 4]"
| "b64q [a] = [a div 4, a mod 4 * 16]"
| "b64q [] = []"

text \<open>\<open>base64.RawURLEncoding.EncodeToString\<close>.\<close>

definition b64urlencode :: "bytes \<Rightarrow> string" where
  "b64urlencode s = List.map b64urlsym (b64q (codes s))"

text \<open>\<open>base64.StdEncoding\<close>: the last group is padded with \<open>=\<close> to four symbols.\<close>

fun b64pad :: "string \<Rightarrow> string" where
  "b64pad (a # b # c # d # r) = a # b # c # d # b64pad r"
| "b64pad [a, b, c] = [a, b, c, CHR ''='']"
| "b64pad [a, b] = [a, b, CHR ''='', CHR ''='']"
| "b64pad s = s"

definition b64encode :: "bytes \<Rightarrow> string" where
  "b64encode s = b64pad (List.map b64sym (b64q (codes s)))"

text \<open>Padding ends the input; anything after it, or a missing symbol, is corrupt.\<close>

fun b64d :: "string \<Rightarrow> nat list option" where
  "b64d [] = Some []"
| "b64d (a # b # c # d # r) =
     (case (b64val a, b64val b) of
        (Some p, Some q) \<Rightarrow>
          (if d = CHR ''='' \<and> r = [] then
             (if c = CHR ''='' then Some [p * 4 + q div 16]
              else case b64val c of None \<Rightarrow> None
                 | Some t \<Rightarrow> Some [p * 4 + q div 16, q mod 16 * 16 + t div 4])
           else case (b64val c, b64val d, b64d r) of
               (Some t, Some u, Some rest) \<Rightarrow>
                  Some ([p * 4 + q div 16, q mod 16 * 16 + t div 4, t mod 4 * 64 + u] @ rest)
             | _ \<Rightarrow> None)
      | _ \<Rightarrow> None)"
| "b64d _ = None"

definition b64decode :: "string \<Rightarrow> bytes option" where
  "b64decode s = map_option ascii (b64d (stripNewlines s))"

lemma b64val_sym [simp]: "n < 64 \<Longrightarrow> b64val (b64sym n) = Some n"
  by (auto simp: b64val_def b64sym_def Let_def)

lemma b64sym_printable: "n < 64 \<Longrightarrow> 13 < code (b64sym n)"
  by (auto simp: b64sym_def)

lemma b64sym_not_pad [simp]: "n < 64 \<Longrightarrow> b64sym n \<noteq> CHR ''=''"
proof
  assume "n < 64" "b64sym n = CHR ''=''"
  then have "b64val (CHR ''='') = Some n" using b64val_sym by metis
  then show False by (simp add: b64val_def Let_def code_def)
qed

lemma b64_bytes:
  fixes a b c :: nat
  assumes "a < 256" "b < 256" "c < 256"
  shows "a div 4 * 4 + (a mod 4 * 16 + b div 16) div 16 = a"
    "(a mod 4 * 16 + b div 16) mod 16 * 16 + (b mod 16 * 4 + c div 64) div 4 = b"
    "(b mod 16 * 4 + c div 64) mod 4 * 64 + c mod 64 = c"
    "a div 4 < 64" "a mod 4 * 16 + b div 16 < 64" "b mod 16 * 4 + c div 64 < 64" "c mod 64 < 64"
proof -
  have 1: "b div 16 < 16" "c div 64 < 4" using assms by simp_all
  show "a div 4 * 4 + (a mod 4 * 16 + b div 16) div 16 = a"
    by (simp only: carry [OF 1(1)] div_mult_mod_eq)
  show "(a mod 4 * 16 + b div 16) mod 16 * 16 + (b mod 16 * 4 + c div 64) div 4 = b"
    by (simp only: carry [OF 1(1)] carry [OF 1(2)] div_mult_mod_eq)
  show "(b mod 16 * 4 + c div 64) mod 4 * 64 + c mod 64 = c"
    by (simp only: carry [OF 1(2)] div_mult_mod_eq)
  show "a div 4 < 64" "a mod 4 * 16 + b div 16 < 64" "b mod 16 * 4 + c div 64 < 64" "c mod 64 < 64"
    using assms below [of "a mod 4" 4 "b div 16" 16] below [of "b mod 16" 16 "c div 64" 4] 1
    by simp_all
qed

lemmas b64_unfold = b64q.simps b64pad.simps b64d.simps list.map append_Cons append_Nil

lemma b64d_encode: "list_all (\<lambda>n. n < 256) ns \<Longrightarrow> b64d (b64pad (List.map b64sym (b64q ns))) = Some ns"
proof (induction ns rule: b64q.induct)
  case (1 a b c r)
  then have lt: "a < 256" "b < 256" "c < 256"
    and "b64d (b64pad (List.map b64sym (b64q r))) = Some r" by simp_all
  note f = b64_bytes [OF lt]
  show ?case
    by (simp only: b64_unfold b64val_sym f b64sym_not_pad simp_thms if_False
        option.case prod.case \<open>b64d _ = Some r\<close>)
next
  case (2 a b)
  then have lt: "a < 256" "b < 256" "(0::nat) < 256" by simp_all
  have e: "b mod 16 * 4 + 0 div 64 = b mod 16 * 4" by simp
  note f = b64_bytes [OF lt, unfolded e]
  show ?case
    by (simp only: b64_unfold b64val_sym f b64sym_not_pad simp_thms if_False if_True
        option.case prod.case)
next
  case (3 a)
  then have lt: "a < 256" "(0::nat) < 256" "(0::nat) < 256" by simp_all
  have e: "a mod 4 * 16 + 0 div 16 = a mod 4 * 16" by simp
  note f = b64_bytes [OF lt, unfolded e]
  show ?case
    by (simp only: b64_unfold b64val_sym f b64sym_not_pad simp_thms if_False if_True
        option.case prod.case)
qed simp

lemma b64q_small: "list_all (\<lambda>n. n < 256) ns \<Longrightarrow> \<forall>n\<in>set (b64q ns). n < 64"
proof (induction ns rule: b64q.induct)
  case (1 a b c r)
  then have lt: "a < 256" "b < 256" "c < 256" by simp_all
  from b64_bytes(4-7) [OF lt] 1 show ?case by auto
next
  case (2 a b)
  then show ?case using b64_bytes(4-7) [of a b 0] by auto
next
  case (3 a)
  then show ?case using b64_bytes(4-7) [of a 0 0] by auto
qed simp

lemma set_b64pad: "set (b64pad s) \<subseteq> insert (CHR ''='') (set s)"
  by (induction s rule: b64pad.induct) auto

lemma b64decode_encode: "b64decode (b64encode s) = Some s"
proof -
  have "13 < code c" if "c \<in> set (b64encode s)" for c
  proof -
    from that set_b64pad have "c = CHR ''='' \<or> (\<exists>n\<in>set (b64q (codes s)). c = b64sym n)"
      by (fastforce simp: b64encode_def)
    then show ?thesis
      using b64q_small [OF codes_small] by (auto simp: code_def intro: b64sym_printable [unfolded code_def])
  qed
  then have "stripNewlines (b64encode s) = b64encode s" by (rule stripNewlines_id)
  then show ?thesis
    by (simp add: b64decode_def b64encode_def b64d_encode codes_small)
qed

interpretation b64: codec "\<lambda>_. True" b64encode b64decode
  by unfold_locales (rule b64decode_encode)

lemma length_b64q: "length (b64q ns) = (4 * length ns + 2) div 3"
  by (induction ns rule: b64q.induct) auto

end
