(* ===== verification/Client_Crypto.thy ===== *)
theory Client_Crypto
  imports Codec
begin

text \<open>
  The client-side cryptography (\<open>src/internal/clientcrypto/clientcrypto.go\<close>, re-exported by
  \<open>src/pkg/clientcrypto\<close>). The primitives of \<open>golang.org/x/crypto\<close> (HKDF over BLAKE2b,
  secretbox, sealed boxes) are parameters, collected in \<open>prims\<close>; random bytes are an
  argument, \<open>None\<close> when the system's generator fails. What is modelled is how the code
  composes them: domain separation, key directions, nonce placement, encodings, errors.
\<close>

record prims =
  p_hkdf :: "bytes \<Rightarrow> bytes \<Rightarrow> bytes \<Rightarrow> nat \<Rightarrow> bytes" \<comment> \<open>key material, salt, info, length\<close>
  p_seal :: "bytes \<Rightarrow> bytes \<Rightarrow> bytes \<Rightarrow> bytes"  \<comment> \<open>secretbox: key, nonce, message\<close>
  p_open :: "bytes \<Rightarrow> bytes \<Rightarrow> bytes \<Rightarrow> bytes option"
  p_genKey :: "bytes \<Rightarrow> bytes \<times> bytes" \<comment> \<open>box.GenerateKey: public and private key\<close>
  p_sealAnon :: "bytes \<Rightarrow> bytes \<Rightarrow> bytes \<Rightarrow> bytes" \<comment> \<open>public key, message, random bytes\<close>
  p_openAnon :: "bytes \<Rightarrow> bytes \<Rightarrow> bytes \<Rightarrow> bytes option"
  p_sha256 :: "bytes \<Rightarrow> bytes"

definition keySize :: nat where "keySize = 32"
definition nonceSize :: nat where "nonceSize = 24"
definition secretBytes :: nat where "secretBytes = 32"
definition authTag :: string where "authTag = ''doublethink-auth-v1''"
definition encTag :: string where "encTag = ''doublethink-enc-v1''"
definition challengeTag :: string where "challengeTag = ''doublethink-challenge-v1''"

text \<open>Documented behaviour of the primitives: output lengths, and opening undoes sealing.\<close>

definition prims_ok :: "prims \<Rightarrow> bool" where
  "prims_ok P \<longleftrightarrow>
     (\<forall>ikm salt info. length (p_hkdf P ikm salt info keySize) = keySize) \<and>
     (\<forall>k n m. length k = keySize \<longrightarrow> length n = nonceSize \<longrightarrow> p_open P k n (p_seal P k n m) = Some m) \<and>
     (\<forall>r m r'. case p_genKey P r of (pub, priv) \<Rightarrow>
        p_openAnon P pub priv (p_sealAnon P pub m r') = Some m)"

datatype cc_error = RandFailed | InvalidSecret | InvalidAuthKey | InvalidRole
  | CiphertextTooShort | DecryptionFailed

definition roleValid :: "string \<Rightarrow> bool" where
  "roleValid r \<longleftrightarrow> r = ''a'' \<or> r = ''b''"

subsection \<open>Secrets and keys\<close>

definition GenerateSecret :: "bytes option \<Rightarrow> cc_error + string" where
  "GenerateSecret rand = (case rand of None \<Rightarrow> Inl RandFailed | Some raw \<Rightarrow> Inr (b32encode raw))"

definition decodeSecret :: "string \<Rightarrow> cc_error + bytes" where
  "decodeSecret s =
     (case b32decode s of
        None \<Rightarrow> Inl InvalidSecret
      | Some b \<Rightarrow> if length b < 16 then Inl InvalidSecret else Inr b)"

text \<open>A \<open>[32]byte\<close> filled by \<open>copy\<close> from a slice.\<close>

definition toKey :: "bytes \<Rightarrow> bytes" where
  "toKey out = take keySize (out @ replicate keySize (char_of (0::nat)))"

definition derive :: "prims \<Rightarrow> bytes \<Rightarrow> string \<Rightarrow> bytes" where
  "derive P ikm info = toKey (p_hkdf P ikm [] info keySize)"

definition AuthKey :: "prims \<Rightarrow> string \<Rightarrow> cc_error + bytes" where
  "AuthKey P secret =
     (case decodeSecret secret of Inl e \<Rightarrow> Inl e | Inr s \<Rightarrow> Inr (derive P s authTag))"

definition RegistrationKey :: "prims \<Rightarrow> string \<Rightarrow> cc_error + string" where
  "RegistrationKey P secret =
     (case AuthKey P secret of Inl e \<Rightarrow> Inl e | Inr ka \<Rightarrow> Inr (b32encode ka))"

definition ResponseFromAuthKey :: "prims \<Rightarrow> bytes \<Rightarrow> bytes \<Rightarrow> bytes" where
  "ResponseFromAuthKey P ka challenge = toKey (p_hkdf P ka challenge challengeTag keySize)"

definition ChallengeResponse :: "prims \<Rightarrow> string \<Rightarrow> bytes \<Rightarrow> cc_error + bytes" where
  "ChallengeResponse P secret challenge =
     (case AuthKey P secret of Inl e \<Rightarrow> Inl e | Inr ka \<Rightarrow> Inr (ResponseFromAuthKey P ka challenge))"

definition DecodeAuthKey :: "string \<Rightarrow> cc_error + bytes" where
  "DecodeAuthKey encoded =
     (case b32decode encoded of
        None \<Rightarrow> Inl InvalidAuthKey
      | Some b \<Rightarrow> if length b \<noteq> keySize then Inl InvalidAuthKey else Inr b)"

definition RegistrationKeyFromBytes :: "bytes \<Rightarrow> string" where
  "RegistrationKeyFromBytes k = b32encode k"

subsection \<open>Sessions\<close>

record session =
  send :: bytes
  recv :: bytes

definition NewSession :: "prims \<Rightarrow> string \<Rightarrow> string \<Rightarrow> cc_error + session" where
  "NewSession P secret role =
     (if \<not> roleValid role then Inl InvalidRole
      else case decodeSecret secret of
        Inl e \<Rightarrow> Inl e
      | Inr s \<Rightarrow>
          (let kenc = derive P s encTag;
               aToB = derive P kenc ''enc a->b'';
               bToA = derive P kenc ''enc b->a''
           in if role = ''a'' then Inr \<lparr>send = aToB, recv = bToA\<rparr>
              else Inr \<lparr>send = bToA, recv = aToB\<rparr>))"

definition Seal :: "prims \<Rightarrow> bytes option \<Rightarrow> session \<Rightarrow> bytes \<Rightarrow> cc_error + bytes" where
  "Seal P rand s plaintext =
     (case rand of
        None \<Rightarrow> Inl RandFailed
      | Some nonce \<Rightarrow> Inr (nonce @ p_seal P (send s) nonce plaintext))"

definition Open :: "prims \<Rightarrow> session \<Rightarrow> bytes \<Rightarrow> cc_error + bytes" where
  "Open P s blob =
     (if length blob < nonceSize then Inl CiphertextTooShort
      else case p_open P (recv s) (take nonceSize blob) (drop nonceSize blob) of
        None \<Rightarrow> Inl DecryptionFailed
      | Some out \<Rightarrow> Inr out)"

subsection \<open>Sealed boxes\<close>

record boxKeypair =
  kp_Public :: bytes
  kp_Private :: bytes

definition GenerateBoxKeypair :: "prims \<Rightarrow> bytes option \<Rightarrow> cc_error + boxKeypair" where
  "GenerateBoxKeypair P rand =
     (case rand of
        None \<Rightarrow> Inl RandFailed
      | Some r \<Rightarrow> (case p_genKey P r of (pub, priv) \<Rightarrow> Inr \<lparr>kp_Public = pub, kp_Private = priv\<rparr>))"

definition SealTo :: "prims \<Rightarrow> bytes option \<Rightarrow> bytes \<Rightarrow> bytes \<Rightarrow> cc_error + bytes" where
  "SealTo P rand recipientPub msg =
     (case rand of None \<Rightarrow> Inl RandFailed | Some r \<Rightarrow> Inr (p_sealAnon P recipientPub msg r))"

definition OpenSealed :: "prims \<Rightarrow> boxKeypair \<Rightarrow> bytes \<Rightarrow> bytes option" where
  "OpenSealed P kp blob = p_openAnon P (kp_Public kp) (kp_Private kp) blob"

subsection \<open>Lemmas\<close>

lemma length_toKey [simp]: "length (toKey b) = keySize"
  by (simp add: toKey_def)

lemma length_derive [simp]: "length (derive P ikm info) = keySize"
  by (simp add: derive_def)

lemma AuthKey_length: "AuthKey P s = Inr k \<Longrightarrow> length k = keySize"
  by (auto simp: AuthKey_def split: sum.splits)

definition decodeKeyOpt :: "string \<Rightarrow> bytes option" where
  "decodeKeyOpt s = (case DecodeAuthKey s of Inl _ \<Rightarrow> None | Inr k \<Rightarrow> Some k)"

interpretation authkey: codec "\<lambda>k. length k = keySize" RegistrationKeyFromBytes decodeKeyOpt
  by unfold_locales
    (simp add: decodeKeyOpt_def DecodeAuthKey_def RegistrationKeyFromBytes_def b32.dec_enc)

lemma DecodeAuthKey_enc [simp]: "length k = keySize \<Longrightarrow> DecodeAuthKey (b32encode k) = Inr k"
  by (simp add: DecodeAuthKey_def b32.dec_enc)

lemma DecodeAuthKey_empty: "DecodeAuthKey '''' = Inl InvalidAuthKey"
  by (simp add: DecodeAuthKey_def b32decode_def stripNewlines_def keySize_def ascii_def)

lemma DecodeAuthKey_length: "DecodeAuthKey s = Inr k \<Longrightarrow> length k = keySize"
  by (auto simp: DecodeAuthKey_def split: option.splits if_splits)

text \<open>A concrete set of primitives with the documented behaviour, for the witnesses.\<close>

definition xorPrims :: prims where
  "xorPrims = \<lparr>p_hkdf = (\<lambda>ikm salt info n. take n (info @ salt @ ikm @ replicate n (CHR ''k''))),
     p_seal = (\<lambda>k n m. k @ n @ m),
     p_open = (\<lambda>k n c. if prefix (k @ n) c then Some (drop (length k + length n) c) else None),
     p_genKey = (\<lambda>r. (r, r)),
     p_sealAnon = (\<lambda>pub m r. pub @ m),
     p_openAnon = (\<lambda>pub priv c. if prefix pub c then Some (drop (length pub) c) else None),
     p_sha256 = (\<lambda>m. take 32 (m @ replicate 32 (CHR ''h'')))\<rparr>"

lemma xorPrims_ok: "prims_ok xorPrims"
  by (auto simp: prims_ok_def xorPrims_def)

definition exSecret :: string where
  "exSecret = ''AAAAAAAAAAAAAAAAAAAAAAAAAAAAAAAA''"

lemma exSecret_ok: "\<exists>s. decodeSecret exSecret = Inr s"
  by (simp add: decodeSecret_def b32decode_def exSecret_def stripNewlines_def b32val_def code_def)

subsection \<open>Properties\<close>

text \<open>
  What the client registers is what the broker stores: the registration key of a secret
  decodes to exactly the admission key the client answers challenges with, and encoding
  that key for persistence and decoding it again gives it back.
\<close>
theorem registration_key_roundtrip:
  assumes "RegistrationKey P secret = Inr enc"
  shows "\<exists>ka. AuthKey P secret = Inr ka \<and> DecodeAuthKey enc = Inr ka \<and>
    DecodeAuthKey (RegistrationKeyFromBytes ka) = Inr ka"
  using assms AuthKey_length [of P secret]
  by (auto simp: RegistrationKey_def RegistrationKeyFromBytes_def split: sum.splits)

theorem registration_key_roundtrip_witness:
  "\<exists>enc ka. RegistrationKey xorPrims exSecret = Inr enc \<and> DecodeAuthKey enc = Inr ka"
proof -
  obtain s where "decodeSecret exSecret = Inr s" using exSecret_ok by blast
  then have "RegistrationKey xorPrims exSecret = Inr (b32encode (derive xorPrims s authTag))"
    by (simp add: RegistrationKey_def AuthKey_def)
  then show ?thesis using registration_key_roundtrip by blast
qed

text \<open>
  C27. End-to-end payloads: two sessions derived from one secret with opposite roles have
  mirrored keys, so whatever one side seals, under any nonce, the other side opens to the
  same plaintext, in both directions.
\<close>
theorem session_roundtrip:
  assumes "prims_ok P" and "NewSession P secret ''a'' = Inr sa" and "NewSession P secret ''b'' = Inr sb"
    and "length nonce = nonceSize"
  shows "send sa = recv sb \<and> recv sa = send sb \<and>
    (\<exists>c. Seal P (Some nonce) sa m = Inr c \<and> Open P sb c = Inr m) \<and>
    (\<exists>c. Seal P (Some nonce) sb m = Inr c \<and> Open P sa c = Inr m)"
  using assms
  by (auto simp: NewSession_def roleValid_def Seal_def Open_def Let_def prims_ok_def split: sum.splits)

theorem session_roundtrip_witness:
  "\<exists>sa sb c. NewSession xorPrims exSecret ''a'' = Inr sa \<and> NewSession xorPrims exSecret ''b'' = Inr sb \<and>
     Seal xorPrims (Some (replicate 24 (CHR ''n''))) sa ''hi'' = Inr c \<and> Open xorPrims sb c = Inr ''hi''"
proof -
  obtain s where "decodeSecret exSecret = Inr s" using exSecret_ok by blast
  then obtain sa sb where ab: "NewSession xorPrims exSecret ''a'' = Inr sa"
    "NewSession xorPrims exSecret ''b'' = Inr sb"
    by (auto simp: NewSession_def roleValid_def Let_def)
  have "length (replicate 24 (CHR ''n'')) = nonceSize" by (simp add: nonceSize_def)
  from session_roundtrip [OF xorPrims_ok ab this, of "''hi''"] ab show ?thesis by blast
qed

end
