(* ===== verification/Account.thy ===== *)
theory Account
  imports Client_Crypto
begin

text \<open>
  Accounts and API keys (\<open>src/internal/account/account.go\<close>): identifiers and keys made from
  random bytes, the stored hash of a key, and the checks on a presented key.
\<close>

definition idBytes :: nat where "idBytes = 12"
definition keyBytes :: nat where "keyBytes = 32"
definition keyPrefix :: string where "keyPrefix = ''dtk_''"

definition NewID :: "bytes option \<Rightarrow> string option" where
  "NewID rand = map_option b64urlencode rand"

definition NewKey :: "bytes option \<Rightarrow> string option" where
  "NewKey rand = map_option (\<lambda>b. keyPrefix @ b64urlencode b) rand"

definition HashKey :: "prims \<Rightarrow> string \<Rightarrow> string" where
  "HashKey P key = b64urlencode (p_sha256 P key)"

definition VerifyKey :: "prims \<Rightarrow> string \<Rightarrow> string \<Rightarrow> bool" where
  "VerifyKey P key storedHash =
     (let got = HashKey P key in ConstantTimeCompare got storedHash = 1)"

definition LooksLikeKey :: "string \<Rightarrow> bool" where
  "LooksLikeKey key =
     (if length key < length keyPrefix + 20 \<or> take (length keyPrefix) key \<noteq> keyPrefix then False
      else True)"

lemma length_b64urlencode: "length (b64urlencode s) = (4 * length s + 2) div 3"
  by (simp add: b64urlencode_def length_b64q)

lemma VerifyKey_iff [simp]: "VerifyKey P key h \<longleftrightarrow> h = HashKey P key"
  by (auto simp: VerifyKey_def)

lemma NewKey_shape:
  assumes "NewKey (Some b) = Some key" "length b = keyBytes"
  shows "LooksLikeKey key" "length key = 47"
  using assms by (auto simp: NewKey_def LooksLikeKey_def keyPrefix_def length_b64urlencode keyBytes_def)

text \<open>
  Every issued API key passes the shape check and verifies against the hash stored for
  it, and a presented key verifies against a stored hash only when it hashes to it.
\<close>
theorem issued_key_verifies:
  assumes "length b = keyBytes"
  shows "\<exists>key. NewKey (Some b) = Some key \<and> LooksLikeKey key \<and> VerifyKey P key (HashKey P key) \<and>
    (\<forall>other. VerifyKey P other (HashKey P key) \<longleftrightarrow> HashKey P other = HashKey P key)"
  using NewKey_shape(1) [OF _ assms] by (auto simp: NewKey_def)

theorem issued_key_verifies_witness:
  "\<exists>key. NewKey (Some (replicate 32 (CHR ''x''))) = Some key \<and> LooksLikeKey key"
  using issued_key_verifies [of "replicate 32 (CHR ''x'')"] by (auto simp: keyBytes_def)

end
