(* ===== verification/Admin.thy ===== *)
theory Admin
  imports Prelude
begin

text \<open>
  The operator key (\<open>src/internal/admin/admin.go\<close>): admin is enabled only by a key of at
  least 32 bytes and is otherwise absent.
\<close>

definition EnvVar :: string where "EnvVar = ''DOUBLETHINK_ADMIN_KEY''"
definition minKeyLen :: nat where "minKeyLen = 32"

record admin =
  adm_key :: string
  enabled :: bool

definition From :: "string \<Rightarrow> admin \<times> string" where
  "From key =
     (if key = '''' then (\<lparr>adm_key = '''', enabled = False\<rparr>,
        ''admin API disabled ('' @ EnvVar @ '' not set)'')
      else if length key < minKeyLen then (\<lparr>adm_key = '''', enabled = False\<rparr>,
        ''admin API disabled ('' @ EnvVar @ '' too short; need >= 32 chars)'')
      else (\<lparr>adm_key = key, enabled = True\<rparr>, ''admin API enabled''))"

definition Enabled :: "admin \<Rightarrow> bool" where
  "Enabled a = enabled a"

definition adminVerify :: "string \<Rightarrow> admin \<Rightarrow> bool" where
  "adminVerify presented a =
     (if \<not> enabled a then False else ConstantTimeCompare presented (adm_key a) = 1)"

definition FromEnv :: "(string \<Rightarrow> string) \<Rightarrow> admin \<times> string" where
  "FromEnv getenv = From (getenv EnvVar)"

text \<open>
  Fail-safe: a key is accepted exactly when the operator configured that very key with
  at least 32 bytes; with no or a short key there is no admin surface and nothing, not even
  the empty key, is accepted.
\<close>
theorem admin_fail_safe:
  "(adminVerify presented (fst (From key)) \<longleftrightarrow> presented = key \<and> 32 \<le> length key) \<and>
   (Enabled (fst (From key)) \<longleftrightarrow> 32 \<le> length key)"
  by (auto simp: adminVerify_def From_def Enabled_def minKeyLen_def)

end
