(* ===== verification/Redis.thy ===== *)
theory Redis
  imports Prelude "HOL-Library.Product_Lexorder"
begin

text \<open>
  Redis as the store sees it. The server and its client library are not part of the
  repository: they are a parameter, a record \<open>redis\<close> of functions on an abstract state, and
  \<open>redis_ok\<close> is what the store relies on, the documented effect of the few commands it
  sends. The store's methods are programs: trees of requests whose continuation gets the
  reply. One request is one command or one Lua script, which Redis runs atomically.
\<close>

subsection \<open>Commands, replies and the keyspace\<close>

datatype rcmd =
    HGet string string
  | HSet string "(string \<times> string) list"
  | HSetNX string string string
  | HGetAll string
  | HMGet string "string list"
  | HIncrBy string string int
  | Exists string
  | SMembers string
  | SAdd string string
  | XAdd string string "(string \<times> string) list"
  | XRange string string string "int option"
  | XDel string string
  | Del string
  | Expire string int
  | Scan int string int
  | Ping

text \<open>\<open>RHang\<close> is the reply of a script that has not returned within the model's fuel.\<close>

datatype reply =
    RNil
  | RInt int
  | RStr string
  | RPairs "(string \<times> string) list"
  | ROpts "string option list"
  | RStrs "string list"
  | REntries "(string \<times> (string \<times> string) list) list"
  | RScan int "string list"
  | RErr string
  | RHang

definition isErr :: "reply \<Rightarrow> bool" where
  "isErr r = (case r of RErr e \<Rightarrow> True | RHang \<Rightarrow> True | _ \<Rightarrow> False)"

lemma isErr_simps [simp]:
  "\<not> isErr RNil" "\<not> isErr (RInt n)" "\<not> isErr (RStr s)" "\<not> isErr (RPairs ps)"
  "\<not> isErr (ROpts os)" "\<not> isErr (RStrs ss)" "\<not> isErr (REntries es)" "\<not> isErr (RScan c ks)"
  "isErr (RErr e)" "isErr RHang"
  by (simp_all add: isErr_def)

text \<open>A stream keeps its entries in id order and its last generated id; ids are pairs of
  64-bit numbers compared lexicographically.\<close>

type_synonym sid = "nat \<times> nat"
type_synonym fields = "(string \<times> string) list"

datatype rval =
    RHash fields
  | RStream "(sid \<times> fields) list" sid
  | RSet "string list"

record db =
  kv :: "string \<rightharpoonup> rval"
  expiry :: "string \<rightharpoonup> int"

definition emptyDb :: db where
  "emptyDb = \<lparr>kv = Map.empty, expiry = Map.empty\<rparr>"

definition put :: "string \<Rightarrow> rval \<Rightarrow> db \<Rightarrow> db" where
  "put k v d = d\<lparr>kv := (kv d)(k \<mapsto> v)\<rparr>"

definition remove :: "string \<Rightarrow> db \<Rightarrow> db" where
  "remove k d = d\<lparr>kv := (kv d)(k := None), expiry := (expiry d)(k := None)\<rparr>"

lemma kv_put [simp]: "kv (put k v d) = (kv d)(k \<mapsto> v)"
  by (simp add: put_def)

lemma kv_remove [simp]: "kv (remove k d) = (kv d)(k := None)"
  by (simp add: remove_def)

lemma expiry_put [simp]: "expiry (put k v d) = expiry d"
  by (simp add: put_def)

subsection \<open>Stream identifiers\<close>

definition decNat :: "string \<Rightarrow> nat option" where
  "decNat s = (if s \<noteq> [] \<and> list_all isDigit s \<and> digitsVal s < 2 ^ 64
     then Some (digitsVal s) else None)"

definition parseSid :: "string \<Rightarrow> sid option" where
  "parseSid s =
     (let a = takeWhile (\<lambda>c. c \<noteq> CHR ''-'') s;
          b = drop (Suc (length a)) s
      in case (decNat a, decNat b) of
           (Some m, Some n) \<Rightarrow> Some (m, n)
         | _ \<Rightarrow> None)"

definition showSid :: "sid \<Rightarrow> string" where
  "showSid i = natDigits (fst i) @ ''-'' @ natDigits (snd i)"

text \<open>The start of a range: \<open>-\<close>, an id, or \<open>(\<close> and an id to exclude it; the end: \<open>+\<close> or an
  id.\<close>

definition aboveStart :: "string \<Rightarrow> (sid \<Rightarrow> bool) option" where
  "aboveStart s =
     (if s = ''-'' then Some (\<lambda>_. True)
      else if hasPrefix s ''('' then map_option (\<lambda>i j. i < j) (parseSid (drop 1 s))
      else map_option (\<lambda>i j. i \<le> j) (parseSid s))"

definition belowEnd :: "string \<Rightarrow> (sid \<Rightarrow> bool) option" where
  "belowEnd s =
     (if s = ''+'' then Some (\<lambda>_. True) else map_option (\<lambda>i j. j \<le> i) (parseSid s))"

definition showEntry :: "sid \<times> fields \<Rightarrow> string \<times> fields" where
  "showEntry e = (showSid (fst e), snd e)"

lemma natDigits_no_dash: "\<forall>c\<in>set (natDigits n). c \<noteq> CHR ''-''"
  using natDigits_digits [of n] by (auto simp: list_all_iff dest: isDigit_not_sign)

lemma decNat_natDigits [simp]: "n < 2 ^ 64 \<Longrightarrow> decNat (natDigits n) = Some n"
  using natDigits_digits [of n] by (simp add: decNat_def)

lemma takeWhile_showSid: "takeWhile (\<lambda>c. c \<noteq> CHR ''-'') (natDigits m @ CHR ''-'' # s) = natDigits m"
  using natDigits_no_dash [of m] by (subst takeWhile_append2) auto

lemma parseSid_showSid [simp]:
  "fst i < 2 ^ 64 \<Longrightarrow> snd i < 2 ^ 64 \<Longrightarrow> parseSid (showSid i) = Some i"
  by (simp add: parseSid_def showSid_def takeWhile_showSid)

lemma itoa_nat: "0 \<le> n \<Longrightarrow> itoa n = natDigits (nat n)"
  by (simp add: itoa_def)

lemma natDigits_1: "natDigits 1 = ''1''"
  by (simp add: natDigits.simps [of "Suc 0"] char_of_def bit_simps)

subsection \<open>What the commands are documented to do\<close>

definition wrongType :: reply where
  "wrongType = RErr ''WRONGTYPE''"

lemma isErr_wrongType [simp]: "isErr wrongType"
  by (simp add: wrongType_def)

definition asHash :: "rval option \<Rightarrow> fields option" where
  "asHash v = (case v of None \<Rightarrow> Some [] | Some (RHash m) \<Rightarrow> Some m | _ \<Rightarrow> None)"

definition asStream :: "rval option \<Rightarrow> ((sid \<times> fields) list \<times> sid) option" where
  "asStream v = (case v of None \<Rightarrow> Some ([], (0, 0)) | Some (RStream es lst) \<Rightarrow> Some (es, lst)
     | _ \<Rightarrow> None)"

definition asSet :: "rval option \<Rightarrow> string list option" where
  "asSet v = (case v of None \<Rightarrow> Some [] | Some (RSet ms) \<Rightarrow> Some ms | _ \<Rightarrow> None)"

definition setFields :: "fields \<Rightarrow> fields \<Rightarrow> fields" where
  "setFields fs m = fold (\<lambda>(f, v). AList.update f v) fs m"

definition optReply :: "string option \<Rightarrow> reply" where
  "optReply v = (case v of None \<Rightarrow> RNil | Some x \<Rightarrow> RStr x)"

text \<open>\<open>HINCRBY\<close> wants the field to hold the canonical decimal of a 64-bit integer.\<close>

definition intField :: "string option \<Rightarrow> int option" where
  "intField v = (case v of None \<Rightarrow> Some 0
     | Some x \<Rightarrow> (case parseDec x of
          Some n \<Rightarrow> if itoa n = x \<and> int64 n then Some n else None
        | None \<Rightarrow> None))"

fun cmdDoc :: "rcmd \<Rightarrow> db \<Rightarrow> reply \<times> db" where
  "cmdDoc (HGet k f) d =
     (case asHash (kv d k) of None \<Rightarrow> (wrongType, d)
      | Some m \<Rightarrow> (optReply (map_of m f), d))"
| "cmdDoc (HSet k fs) d =
     (case asHash (kv d k) of None \<Rightarrow> (wrongType, d)
      | Some m \<Rightarrow> (RInt (int (length (setFields fs m)) - int (length m)),
          put k (RHash (setFields fs m)) d))"
| "cmdDoc (HSetNX k f v) d =
     (case asHash (kv d k) of None \<Rightarrow> (wrongType, d)
      | Some m \<Rightarrow> if map_of m f = None then (RInt 1, put k (RHash (AList.update f v m)) d)
                  else (RInt 0, d))"
| "cmdDoc (HGetAll k) d =
     (case asHash (kv d k) of None \<Rightarrow> (wrongType, d) | Some m \<Rightarrow> (RPairs m, d))"
| "cmdDoc (HMGet k fs) d =
     (case asHash (kv d k) of None \<Rightarrow> (wrongType, d)
      | Some m \<Rightarrow> (ROpts (List.map (map_of m) fs), d))"
| "cmdDoc (HIncrBy k f n) d =
     (case asHash (kv d k) of None \<Rightarrow> (wrongType, d)
      | Some m \<Rightarrow>
          (case intField (map_of m f) of None \<Rightarrow> (RErr ''ERR hash value is not an integer'', d)
           | Some x \<Rightarrow>
               if int64 (x + n) then (RInt (x + n), put k (RHash (AList.update f (itoa (x + n)) m)) d)
               else (RErr ''ERR increment or decrement would overflow'', d)))"
| "cmdDoc (Exists k) d = (RInt (if kv d k = None then 0 else 1), d)"
| "cmdDoc (SMembers k) d =
     (case asSet (kv d k) of None \<Rightarrow> (wrongType, d) | Some ms \<Rightarrow> (RStrs (remdups ms), d))"
| "cmdDoc (SAdd k x) d =
     (case asSet (kv d k) of None \<Rightarrow> (wrongType, d)
      | Some ms \<Rightarrow> if x \<in> set ms then (RInt 0, d) else (RInt 1, put k (RSet (ms @ [x])) d))"
| "cmdDoc (XAdd k i fs) d =
     (case asStream (kv d k) of None \<Rightarrow> (wrongType, d)
      | Some (es, lst) \<Rightarrow>
          (case parseSid i of None \<Rightarrow> (RErr ''ERR Invalid stream ID'', d)
           | Some j \<Rightarrow>
               if lst < j then (RStr i, put k (RStream (es @ [(j, fs)]) j) d)
               else (RErr ''ERR The ID specified in XADD is equal or smaller'', d)))"
| "cmdDoc (XRange k s e n) d =
     (case asStream (kv d k) of None \<Rightarrow> (wrongType, d)
      | Some (es, lst) \<Rightarrow>
          (case (aboveStart s, belowEnd e) of
             (Some lo, Some hi) \<Rightarrow>
               (let sel = filter (\<lambda>e. lo (fst e) \<and> hi (fst e)) es;
                    sel = (case n of None \<Rightarrow> sel | Some c \<Rightarrow> take (nat c) sel)
                in (REntries (List.map showEntry sel), d))
           | _ \<Rightarrow> (RErr ''ERR Invalid stream ID'', d)))"
| "cmdDoc (XDel k i) d =
     (case asStream (kv d k) of None \<Rightarrow> (wrongType, d)
      | Some (es, lst) \<Rightarrow>
          (case parseSid i of None \<Rightarrow> (RErr ''ERR Invalid stream ID'', d)
           | Some j \<Rightarrow>
               if j \<in> set (List.map fst es)
               then (RInt 1, put k (RStream (filter (\<lambda>e. fst e \<noteq> j) es) lst) d)
               else (RInt 0, d)))"
| "cmdDoc (Del k) d = (if kv d k = None then (RInt 0, d) else (RInt 1, remove k d))"
| "cmdDoc (Expire k ns) d =
     (if kv d k = None then (RInt 0, d)
      else if ns \<le> 0 then (RInt 1, remove k d)
      else (RInt 1, d\<lparr>expiry := (expiry d)(k \<mapsto> ns)\<rparr>))"
| "cmdDoc (Scan c pat n) d = (RScan 0 [], d)"
| "cmdDoc Ping d = (RStr ''PONG'', d)"

text \<open>
  The order of \<open>SMEMBERS\<close> is not specified, nor which part of the matching keys one \<open>SCAN\<close>
  step returns. A pattern \<open>prefix*\<close> matches the keys with that prefix.
\<close>

definition globMatch :: "string \<Rightarrow> string \<Rightarrow> bool" where
  "globMatch pat k = (if hasSuffix pat ''*'' then hasPrefix k (butlast pat) else k = pat)"

definition docs :: "rcmd \<Rightarrow> db \<Rightarrow> (reply \<times> db) set" where
  "docs c d = (case c of
     SMembers k \<Rightarrow> (case asSet (kv d k) of None \<Rightarrow> {(wrongType, d)}
        | Some ms \<Rightarrow> {(RStrs xs, d) |xs. set xs = set ms \<and> distinct xs})
   | Scan cur pat n \<Rightarrow> {(RScan cur' ks, d) |cur' ks. \<forall>k\<in>set ks. kv d k \<noteq> None \<and> globMatch pat k}
   | _ \<Rightarrow> {cmdDoc c d})"

subsection \<open>The parameter\<close>

text \<open>
  How a request fares on the way: the client library may have to resend it after losing the
  reply, so it can have run some number of times before the run that is answered, or
  before the library gives up.
\<close>

datatype fate = Answered nat | Failed nat

record 'r redis =
  r_cmd :: "rcmd \<Rightarrow> 'r \<Rightarrow> reply \<times> 'r"
  r_net :: "'r \<Rightarrow> fate \<times> 'r"
  r_db :: "'r \<Rightarrow> db"

definition redis_ok :: "'r redis \<Rightarrow> bool" where
  "redis_ok R \<longleftrightarrow>
     (\<forall>c s. (fst (r_cmd R c s), r_db R (snd (r_cmd R c s))) \<in> docs c (r_db R s)) \<and>
     (\<forall>s. r_db R (snd (r_net R s)) = r_db R s)"

text \<open>A link that never loses a request or a reply.\<close>

definition link_up :: "'r redis \<Rightarrow> bool" where
  "link_up R \<longleftrightarrow> (\<forall>s. fst (r_net R s) = Answered 0)"

text \<open>A concrete instance, for witnesses: the keyspace itself, with an ideal link.\<close>

definition exRedis :: "db redis" where
  "exRedis = \<lparr>r_cmd = cmdDoc, r_net = (\<lambda>d. (Answered 0, d)), r_db = (\<lambda>d. d)\<rparr>"

subsection \<open>Scripts and programs\<close>

text \<open>\<open>redis.call\<close> in a Lua script aborts the script on an error reply; what it has written
  before stays.\<close>

datatype script = Done reply | Call rcmd "reply \<Rightarrow> script"

datatype 'a prog = Return 'a | Request script "reply \<Rightarrow> 'a prog"

primrec runScript :: "'r redis \<Rightarrow> script \<Rightarrow> 'r \<Rightarrow> reply \<times> 'r" where
  "runScript R (Done v) = (\<lambda>s. (v, s))"
| "runScript R (Call c k) = (\<lambda>s.
     case r_cmd R c s of (v, s') \<Rightarrow> if isErr v then (v, s') else runScript R (k v) s')"

definition resend :: "'r redis \<Rightarrow> script \<Rightarrow> nat \<Rightarrow> 'r \<Rightarrow> 'r" where
  "resend R sc n s = ((\<lambda>s. snd (runScript R sc s)) ^^ n) s"

definition linkErr :: reply where
  "linkErr = RErr ''connection''"

lemma isErr_linkErr [simp]: "isErr linkErr"
  by (simp add: linkErr_def)

definition request :: "'r redis \<Rightarrow> script \<Rightarrow> 'r \<Rightarrow> reply \<times> 'r" where
  "request R sc s =
     (case r_net R s of
        (Answered n, s1) \<Rightarrow> runScript R sc (resend R sc n s1)
      | (Failed n, s1) \<Rightarrow> (linkErr, resend R sc n s1))"

primrec run :: "'r redis \<Rightarrow> 'a prog \<Rightarrow> 'r \<Rightarrow> 'a \<times> 'r" where
  "run R (Return v) = (\<lambda>s. (v, s))"
| "run R (Request sc k) = (\<lambda>s. case request R sc s of (v, s') \<Rightarrow> run R (k v) s')"

primrec andThen :: "'a prog \<Rightarrow> ('a \<Rightarrow> 'b prog) \<Rightarrow> 'b prog" where
  "andThen (Return v) f = f v"
| "andThen (Request sc k) f = Request sc (\<lambda>v. andThen (k v) f)"

text \<open>A request of one command.\<close>

definition send :: "rcmd \<Rightarrow> (reply \<Rightarrow> 'a prog) \<Rightarrow> 'a prog" where
  "send c k = Request (Call c Done) k"

lemma run_andThen:
  "run R (andThen p f) s = (case run R p s of (v, s') \<Rightarrow> run R (f v) s')"
  by (induction p arbitrary: s) (auto split: prod.splits)

subsection \<open>Outcomes\<close>

text \<open>
  What the documentation allows a script and a program to do to the keyspace, and that every
  execution against a Redis that keeps to the documentation is one of these. \<open>clean\<close>
  outcomes are those over a link that loses nothing.
\<close>

primrec souts :: "script \<Rightarrow> db \<Rightarrow> (reply \<times> db) set" where
  "souts (Done v) = (\<lambda>d. {(v, d)})"
| "souts (Call c k) = (\<lambda>d. \<Union>(v, d')\<in>docs c d. if isErr v then {(v, d')} else souts (k v) d')"

definition sruns :: "script \<Rightarrow> (db \<times> db) set" where
  "sruns sc = {(d, d'). \<exists>v. (v, d') \<in> souts sc d}"

definition routs :: "script \<Rightarrow> db \<Rightarrow> (reply \<times> db) set" where
  "routs sc d =
     {(v, d'). \<exists>d1. (d, d1) \<in> (sruns sc)\<^sup>* \<and> ((v, d') \<in> souts sc d1 \<or> v = linkErr \<and> d' = d1)}"

primrec outs :: "'a prog \<Rightarrow> db \<Rightarrow> ('a \<times> db) set" where
  "outs (Return v) = (\<lambda>d. {(v, d)})"
| "outs (Request sc k) = (\<lambda>d. \<Union>(v, d')\<in>routs sc d. outs (k v) d')"

primrec clean :: "'a prog \<Rightarrow> db \<Rightarrow> ('a \<times> db) set" where
  "clean (Return v) = (\<lambda>d. {(v, d)})"
| "clean (Request sc k) = (\<lambda>d. \<Union>(v, d')\<in>souts sc d. clean (k v) d')"

lemma runScript_souts:
  assumes "redis_ok R"
  shows "(fst (runScript R sc s), r_db R (snd (runScript R sc s))) \<in> souts sc (r_db R s)"
proof (induction sc arbitrary: s)
  case (Done v)
  then show ?case by simp
next
  case (Call c k)
  obtain v s' where c: "r_cmd R c s = (v, s')" by (cases "r_cmd R c s")
  have m: "(v, r_db R s') \<in> docs c (r_db R s)"
    using assms c unfolding redis_ok_def by (metis fst_conv snd_conv)
  show ?case
  proof (cases "isErr v")
    case True
    then show ?thesis using m c by force
  next
    case False
    with Call.IH [OF rangeI, of v s'] show ?thesis using m c by force
  qed
qed

lemma resend_sruns: "redis_ok R \<Longrightarrow> (r_db R s, r_db R (resend R sc n s)) \<in> (sruns sc)\<^sup>*"
proof (induction n)
  case 0
  then show ?case by (simp add: resend_def)
next
  case (Suc n)
  have "(r_db R (resend R sc n s), r_db R (resend R sc (Suc n) s)) \<in> sruns sc"
    using runScript_souts [OF Suc.prems, of sc "resend R sc n s"]
    by (auto simp: sruns_def resend_def)
  with Suc show ?case by (meson rtrancl.rtrancl_into_rtrancl)
qed

lemma request_routs:
  assumes "redis_ok R"
  shows "(fst (request R sc s), r_db R (snd (request R sc s))) \<in> routs sc (r_db R s)"
proof -
  obtain f s1 where n: "r_net R s = (f, s1)" by (cases "r_net R s")
  have s1: "r_db R s1 = r_db R s" using assms n unfolding redis_ok_def by (metis snd_conv)
  show ?thesis
  proof (cases f)
    case (Answered m)
    have "(r_db R s1, r_db R (resend R sc m s1)) \<in> (sruns sc)\<^sup>*" by (rule resend_sruns [OF assms])
    moreover note runScript_souts [OF assms, of sc "resend R sc m s1"]
    ultimately show ?thesis
      by (auto simp: routs_def request_def n s1 Answered)
  next
    case (Failed m)
    have "(r_db R s1, r_db R (resend R sc m s1)) \<in> (sruns sc)\<^sup>*" by (rule resend_sruns [OF assms])
    then show ?thesis by (auto simp: routs_def request_def n s1 Failed)
  qed
qed

theorem run_outs:
  assumes "redis_ok R"
  shows "(fst (run R p s), r_db R (snd (run R p s))) \<in> outs p (r_db R s)"
proof (induction p arbitrary: s)
  case (Return v)
  then show ?case by simp
next
  case (Request sc k)
  obtain v s' where r: "request R sc s = (v, s')" by (cases "request R sc s")
  have "(v, r_db R s') \<in> routs sc (r_db R s)" using request_routs [OF assms, of sc s] r by simp
  moreover have "(fst (run R (k v) s'), r_db R (snd (run R (k v) s'))) \<in> outs (k v) (r_db R s')"
    using Request by auto
  ultimately show ?case using r by force
qed

theorem run_clean:
  assumes "redis_ok R" "link_up R"
  shows "(fst (run R p s), r_db R (snd (run R p s))) \<in> clean p (r_db R s)"
proof (induction p arbitrary: s)
  case (Return v)
  then show ?case by simp
next
  case (Request sc k)
  obtain s1 where n: "r_net R s = (Answered 0, s1)"
    using assms(2) by (metis link_up_def prod.collapse)
  have s1: "r_db R s1 = r_db R s" using assms(1) n unfolding redis_ok_def by (metis snd_conv)
  obtain v s' where r: "runScript R sc s1 = (v, s')" by (cases "runScript R sc s1")
  have "(v, r_db R s') \<in> souts sc (r_db R s)" using runScript_souts [OF assms(1), of sc s1] r s1 by simp
  moreover have "(fst (run R (k v) s'), r_db R (snd (run R (k v) s'))) \<in> clean (k v) (r_db R s')"
    using Request by auto
  ultimately show ?case using r n by (force simp: request_def resend_def)
qed

subsection \<open>Invariants of the keyspace\<close>

text \<open>A property of the keyspace that every script of a program keeps survives the whole
  program, whatever the link does to its requests.\<close>

definition keeps :: "(db \<Rightarrow> bool) \<Rightarrow> script \<Rightarrow> bool" where
  "keeps I sc \<longleftrightarrow> (\<forall>d v d'. I d \<longrightarrow> (v, d') \<in> souts sc d \<longrightarrow> I d')"

primrec scriptsOf :: "'a prog \<Rightarrow> script set" where
  "scriptsOf (Return v) = {}"
| "scriptsOf (Request sc k) = insert sc (\<Union>v. scriptsOf (k v))"

lemma keeps_routs: "keeps I sc \<Longrightarrow> I d \<Longrightarrow> (v, d') \<in> routs sc d \<Longrightarrow> I d'"
proof -
  assume k: "keeps I sc" and "I d" and r: "(v, d') \<in> routs sc d"
  from r obtain d1 where d1: "(d, d1) \<in> (sruns sc)\<^sup>*" "(v, d') \<in> souts sc d1 \<or> d' = d1"
    by (auto simp: routs_def)
  from d1(1) \<open>I d\<close> have "I d1"
    by (induction rule: rtrancl_induct) (use k in \<open>auto simp: keeps_def sruns_def\<close>)
  with d1(2) k show "I d'" by (auto simp: keeps_def)
qed

lemma outs_keeps:
  "(\<And>sc. sc \<in> scriptsOf p \<Longrightarrow> keeps I sc) \<Longrightarrow> I d \<Longrightarrow> (v, d') \<in> outs p d \<Longrightarrow> I d'"
proof (induction p arbitrary: d)
  case (Return v)
  then show ?case by simp
next
  case (Request sc k)
  from Request.prems(3) obtain w d1 where w: "(w, d1) \<in> routs sc d" "(v, d') \<in> outs (k w) d1"
    by auto
  have "I d1" using keeps_routs [OF Request.prems(1) Request.prems(2) w(1)] by simp
  then show ?case
    using Request.IH [OF rangeI, of w d1] Request.prems(1) w(2) by auto
qed

lemma exRedis_ok: "redis_ok exRedis" "link_up exRedis"
proof -
  have "cmdDoc c d \<in> docs c d" for c d
    by (cases c) (auto simp: docs_def split: option.splits)
  then show "redis_ok exRedis" by (simp add: redis_ok_def exRedis_def)
  show "link_up exRedis" by (simp add: link_up_def exRedis_def)
qed

end
