(* ===== verification/Store.thy ===== *)
theory Store
  imports Redis Codec
begin

text \<open>
  The durable store (\<open>internal/store\<close>): every method as a program over Redis, the Lua scripts
  as atomic scripts. The clock \<open>nowUnix()\<close> is an argument (each method reads it once), the
  random bytes of a ticket are an argument, and a loop of a script that could run on is
  bounded by fuel (\<open>RHang\<close> when it runs out).

  Lua numbers are doubles: the model is exact for numbers of at most 14 digits, which is the
  range the theorems about the scripts state.
\<close>

subsection \<open>Data and keys\<close>

datatype store_error =
    ErrNotFound | ErrExists | ErrQuotaAcct | ErrTooManyChan | ErrBadTicket
  | NotRetained | NoEntropy | RedisErr reply

record channel =
  ch_id :: string
  ch_owner :: string
  ch_kauth :: string
  ch_retained :: bool
  ch_ttl :: int
  ch_maxBytes :: int
  ch_maxMsgs :: int

record storedMessage =
  m_seq :: int
  m_ciphertext :: bytes

definition chKey :: "string \<Rightarrow> string" where "chKey i = ''dt:ch:'' @ i"
definition chMsgsKey :: "string \<Rightarrow> string" where "chMsgsKey i = ''dt:ch:'' @ i @ '':msgs''"
definition chUsageKey :: "string \<Rightarrow> string" where "chUsageKey i = ''dt:ch:'' @ i @ '':usage''"
definition acctKey :: "string \<Rightarrow> string" where "acctKey i = ''dt:acct:'' @ i"
definition acctUsageKey :: "string \<Rightarrow> string" where "acctUsageKey i = ''dt:acct:'' @ i @ '':usage''"
definition chansSet :: string where "chansSet = ''dt:chans''"
definition ticketKey :: "string \<Rightarrow> string" where "ticketKey i = ''dt:ticket:'' @ i"

text \<open>A missing key of a Go map of strings reads as the empty string; later duplicates of a
  reply's pairs win.\<close>

definition valueOf :: "fields \<Rightarrow> string \<Rightarrow> string" where
  "valueOf fs k = (case map_of (rev fs) k of None \<Rightarrow> '''' | Some v \<Rightarrow> v)"

definition boolStr :: "bool \<Rightarrow> string" where
  "boolStr b = (if b then ''1'' else ''0'')"

definition openOptions :: "string \<Rightarrow> string \<times> string" where
  "openOptions addr =
     (if hasPrefix addr ''unix://'' then (''unix'', trimPrefix addr ''unix://'') else ('''', addr))"

definition storeOpen :: "(store_error + unit) prog" where
  "storeOpen = send Ping (\<lambda>r. Return (if isErr r then Inl (RedisErr r) else Inr ()))"

subsection \<open>Accounts\<close>

definition CreateAccount :: "int \<Rightarrow> string \<Rightarrow> string \<Rightarrow> (store_error + unit) prog" where
  "CreateAccount now i keyHash =
     send (HSetNX (acctKey i) ''api_key_hash'' keyHash) (\<lambda>r.
       case r of
         RInt n \<Rightarrow>
           if n = 0 then Return (Inl ErrExists)
           else send (HSet (acctKey i) [(''created'', itoa now)]) (\<lambda>_.
                send (HSetNX (acctUsageKey i) ''bytes'' ''0'') (\<lambda>_.
                send (HSetNX (acctUsageKey i) ''channels'' ''0'') (\<lambda>_.
                Return (Inr ()))))
       | _ \<Rightarrow> Return (Inl (RedisErr r)))"

definition AccountKeyHash :: "string \<Rightarrow> (store_error + string) prog" where
  "AccountKeyHash i =
     send (HGet (acctKey i) ''api_key_hash'') (\<lambda>r. Return (case r of
         RNil \<Rightarrow> Inl ErrNotFound
       | RStr h \<Rightarrow> Inr h
       | _ \<Rightarrow> Inl (RedisErr r)))"

subsection \<open>Numbers in Lua\<close>

definition scriptErr :: reply where
  "scriptErr = RErr ''ERR Error running script''"

text \<open>\<open>tonumber(s)\<close> used in arithmetic: a string that is no number stops the script.\<close>

definition withNum :: "string \<Rightarrow> (int \<Rightarrow> script) \<Rightarrow> script" where
  "withNum s k = (case parseDec s of None \<Rightarrow> Done scriptErr | Some n \<Rightarrow> k n)"

text \<open>\<open>tonumber(redis.call(...) or "d")\<close>: a missing field reads as \<open>false\<close>.\<close>

definition numOr :: "int \<Rightarrow> reply \<Rightarrow> (int \<Rightarrow> script) \<Rightarrow> script" where
  "numOr d r k = (case r of RStr s \<Rightarrow> withNum s k | RNil \<Rightarrow> k d | _ \<Rightarrow> Done scriptErr)"

subsection \<open>Channels\<close>

text \<open>The writes both creation scripts share: the channel's hash, fresh usage counters, and the
  set of channels.\<close>

definition configFields ::
    "string \<Rightarrow> string \<Rightarrow> string \<Rightarrow> string \<Rightarrow> string \<Rightarrow> string \<Rightarrow> string \<Rightarrow> fields" where
  "configFields owner kAuth retained ttl mb mm created =
     [(''owner'', owner), (''k_auth'', kAuth), (''retained'', retained), (''ttl_sec'', ttl),
      (''max_bytes'', mb), (''max_msgs'', mm), (''created'', created)]"

definition freshUsage :: fields where
  "freshUsage = [(''bytes'', ''0''), (''msgs'', ''0''), (''next_seq'', ''1'')]"

definition writeChannel :: "string \<Rightarrow> string \<Rightarrow> string \<Rightarrow> fields \<Rightarrow> string \<Rightarrow> script \<Rightarrow> script" where
  "writeChannel kCh kUsage kSet fs i rest =
     Call (HSet kCh fs) (\<lambda>_.
     Call (HSet kUsage freshUsage) (\<lambda>_.
     Call (SAdd kSet i) (\<lambda>_. rest)))"

definition createChannelLua :: "string \<times> string \<times> string \<times> string \<Rightarrow> channel \<Rightarrow> int \<Rightarrow> int \<Rightarrow> script" where
  "createChannelLua ks c created chanCap =
     (case ks of (k1, k2, k3, k4) \<Rightarrow>
       let create = writeChannel k1 k2 k4
             (configFields (ch_owner c) (ch_kauth c) (boolStr (ch_retained c)) (itoa (ch_ttl c))
                (itoa (ch_maxBytes c)) (itoa (ch_maxMsgs c)) (itoa created))
             (ch_id c)
             (if ch_owner c \<noteq> [] then Call (HIncrBy k3 ''channels'' 1) (\<lambda>_. Done (RStr ''OK''))
              else Done (RStr ''OK''))
       in Call (Exists k1) (\<lambda>e.
            if e = RInt 1 then Done (RStr ''EXISTS'')
            else if ch_owner c \<noteq> [] then
              Call (HGet k3 ''channels'') (\<lambda>r. numOr 0 r (\<lambda>n.
                if n \<ge> chanCap then Done (RStr ''TOOMANY'') else create))
            else create))"

definition CreateChannel :: "int \<Rightarrow> channel \<Rightarrow> int \<Rightarrow> (store_error + unit) prog" where
  "CreateChannel now c channelsPerAccountCap =
     (let chanCap = (if channelsPerAccountCap \<le> 0 then 2 ^ 30 else channelsPerAccountCap) in
      Request (createChannelLua
          (chKey (ch_id c), chUsageKey (ch_id c), acctUsageKey (ch_owner c), chansSet) c now chanCap)
        (\<lambda>r. Return
          (if isErr r \<or> r = RNil then Inl (RedisErr r)
           else if r = RStr ''EXISTS'' then Inl ErrExists
           else if r = RStr ''TOOMANY'' then Inl ErrTooManyChan
           else Inr ())))"

definition channelOf :: "string \<Rightarrow> fields \<Rightarrow> channel" where
  "channelOf i m =
     \<lparr>ch_id = i, ch_owner = valueOf m ''owner'', ch_kauth = valueOf m ''k_auth'',
      ch_retained = (valueOf m ''retained'' = ''1''),
      ch_ttl = parseInt64 (valueOf m ''ttl_sec''),
      ch_maxBytes = parseInt64 (valueOf m ''max_bytes''),
      ch_maxMsgs = parseInt64 (valueOf m ''max_msgs'')\<rparr>"

definition GetChannel :: "string \<Rightarrow> (store_error + channel) prog" where
  "GetChannel i =
     send (HGetAll (chKey i)) (\<lambda>r. Return (case r of
         RPairs m \<Rightarrow> if m = [] then Inl ErrNotFound else Inr (channelOf i m)
       | _ \<Rightarrow> Inl (RedisErr r)))"

definition storeHasChannel :: "string \<Rightarrow> bool prog" where
  "storeHasChannel i =
     send (Exists (chKey i)) (\<lambda>r. Return (case r of RInt n \<Rightarrow> n > 0 | _ \<Rightarrow> False))"

definition limitFields :: "int \<Rightarrow> int \<Rightarrow> int \<Rightarrow> fields" where
  "limitFields ttlSec maxBytes maxMsgs =
     (if ttlSec \<ge> 0 then [(''ttl_sec'', itoa ttlSec)] else []) @
     (if maxBytes \<ge> 0 then [(''max_bytes'', itoa maxBytes)] else []) @
     (if maxMsgs \<ge> 0 then [(''max_msgs'', itoa maxMsgs)] else [])"

definition SetChannelLimits :: "string \<Rightarrow> int \<Rightarrow> int \<Rightarrow> int \<Rightarrow> (store_error + unit) prog" where
  "SetChannelLimits i ttlSec maxBytes maxMsgs =
     andThen (storeHasChannel i) (\<lambda>ok.
       if \<not> ok then Return (Inl ErrNotFound)
       else (let fs = limitFields ttlSec maxBytes maxMsgs in
         if fs = [] then Return (Inr ())
         else send (HSet (chKey i) fs) (\<lambda>r.
           Return (if isErr r then Inl (RedisErr r) else Inr ()))))"

fun kauthLoop :: "string list \<Rightarrow> (string \<rightharpoonup> string) \<Rightarrow> (string \<rightharpoonup> string) prog" where
  "kauthLoop [] out = Return out"
| "kauthLoop (i # ids) out =
     send (HGet (chKey i) ''k_auth'') (\<lambda>r. case r of
         RStr ka \<Rightarrow> kauthLoop ids (out(i \<mapsto> ka))
       | _ \<Rightarrow> kauthLoop ids out)"

definition AllChannelKAuth :: "(store_error + (string \<rightharpoonup> string)) prog" where
  "AllChannelKAuth =
     send (SMembers chansSet) (\<lambda>r. case r of
         RStrs ids \<Rightarrow> andThen (kauthLoop ids Map.empty) (\<lambda>m. Return (Inr m))
       | _ \<Rightarrow> Return (Inl (RedisErr r)))"

definition ChannelUsage :: "string \<Rightarrow> (store_error + int \<times> int) prog" where
  "ChannelUsage i =
     send (HMGet (chUsageKey i) [''bytes'', ''msgs'']) (\<lambda>r. Return (case r of
         ROpts [b, m] \<Rightarrow>
           (let parse = (\<lambda>v. case v of None \<Rightarrow> 0 | Some s \<Rightarrow> parseInt64 s)
            in if b = None then Inl ErrNotFound else Inr (parse b, parse m))
       | _ \<Rightarrow> Inl (RedisErr r)))"

subsection \<open>Grants\<close>

record grant =
  g_match :: string
  g_retained :: bool
  g_ttl :: int
  g_maxBytes :: int
  g_maxMsgs :: int

definition IssueGrant :: "bytes option \<Rightarrow> grant \<Rightarrow> int \<Rightarrow> (store_error + string) prog" where
  "IssueGrant raw g expirySec =
     (case raw of
        None \<Rightarrow> Return (Inl NoEntropy)
      | Some raw \<Rightarrow>
          (let ticket = b64urlencode raw; key = ticketKey ticket in
           send (HSet key
             [(''match'', g_match g), (''retained'', boolStr (g_retained g)),
              (''ttl_sec'', itoa (g_ttl g)), (''max_bytes'', itoa (g_maxBytes g)),
              (''max_msgs'', itoa (g_maxMsgs g))]) (\<lambda>r.
             if isErr r then Return (Inl (RedisErr r))
             else if expirySec > 0 then
               send (Expire key (wrap64 (expirySec * 1000000000))) (\<lambda>_. Return (Inr ticket))
             else Return (Inr ticket))))"

definition luaMatch :: "string \<Rightarrow> string \<Rightarrow> bool" where
  "luaMatch m i =
     (if m = i then True
      else if drop (length m - 2) m = ''/*'' then
        (let prefix = take (length m - 1) m in take (length prefix) i = prefix)
      else False)"

text \<open>A field read back with \<open>HGET\<close> and passed on: a missing one is \<open>false\<close>, which is no
  argument of a command and no string.\<close>

definition withStr :: "reply \<Rightarrow> (string \<Rightarrow> script) \<Rightarrow> script" where
  "withStr r k = (case r of RStr s \<Rightarrow> k s | _ \<Rightarrow> Done scriptErr)"

definition createWithTicketLua :: "string \<times> string \<times> string \<times> string \<Rightarrow> string \<Rightarrow> string \<Rightarrow> string \<Rightarrow> script" where
  "createWithTicketLua ks i kAuth owner =
     (case ks of (k1, k2, k3, k4) \<Rightarrow>
       Call (Exists k1) (\<lambda>e. if e = RInt 0 then Done (RStr ''BADTICKET'') else
       Call (HGet k1 ''match'') (\<lambda>m. withStr m (\<lambda>m.
         if \<not> luaMatch m i then Done (RStr ''MISMATCH'') else
       Call (Exists k2) (\<lambda>e. if e = RInt 1 then Done (RStr ''EXISTS'') else
       Call (HGet k1 ''retained'') (\<lambda>retained.
       Call (HGet k1 ''ttl_sec'') (\<lambda>ttl.
       Call (HGet k1 ''max_bytes'') (\<lambda>mb.
       Call (HGet k1 ''max_msgs'') (\<lambda>mm.
         withStr retained (\<lambda>retained. withStr ttl (\<lambda>ttl. withStr mb (\<lambda>mb. withStr mm (\<lambda>mm.
       writeChannel k2 k3 k4 (configFields owner kAuth retained ttl mb mm ''0'') i
         (Call (Del k1) (\<lambda>_. Done (RStr ''OK''))))))))))))))))"

definition CreateChannelWithTicket ::
    "string \<Rightarrow> string \<Rightarrow> string \<Rightarrow> string \<Rightarrow> (store_error + unit) prog" where
  "CreateChannelWithTicket ticket channelID kAuth owner =
     (if ticket = '''' \<or> channelID = '''' then Return (Inl ErrBadTicket)
      else Request (createWithTicketLua
             (ticketKey ticket, chKey channelID, chUsageKey channelID, chansSet)
             channelID kAuth owner)
           (\<lambda>r. Return
             (if isErr r \<or> r = RNil then Inl (RedisErr r)
              else if r = RStr ''OK'' then Inr ()
              else if r = RStr ''EXISTS'' then Inl ErrExists
              else Inl ErrBadTicket)))"

definition channelMatches :: "string \<Rightarrow> string \<Rightarrow> bool" where
  "channelMatches m i =
     (if m = i then True
      else if hasSuffix m ''/*'' then hasPrefix i (take (length m - 1) m)
      else False)"

subsection \<open>Messages\<close>

text \<open>\<open>for i = 1, #fields, 2 do if fields[i] == "size" then osize = tonumber(...) end end\<close>\<close>

definition luaSize :: "fields \<Rightarrow> int option" where
  "luaSize fs = foldl (\<lambda>osize (f, v). if f = ''size'' then parseDec v else osize) (Some 0) fs"

definition overCap :: "int \<Rightarrow> int \<Rightarrow> int \<Rightarrow> int \<Rightarrow> bool" where
  "overCap maxMsgs maxBytes m b \<longleftrightarrow> (maxMsgs > 0 \<and> m > maxMsgs) \<or> (maxBytes > 0 \<and> b > maxBytes)"

primrec evictLoop :: "nat \<Rightarrow> string \<times> string \<times> string \<Rightarrow> bool \<Rightarrow> int \<Rightarrow> int \<Rightarrow> int \<Rightarrow> script" where
  "evictLoop 0 ks hasOwner maxMsgs maxBytes seq = Done RHang"
| "evictLoop (Suc n) ks hasOwner maxMsgs maxBytes seq =
     (case ks of (k1, k2, k3) \<Rightarrow>
       Call (HGet k1 ''bytes'') (\<lambda>r. numOr 0 r (\<lambda>b.
       Call (HGet k1 ''msgs'') (\<lambda>r. numOr 0 r (\<lambda>m.
         if \<not> overCap maxMsgs maxBytes m b then Done (RInt seq) else
       Call (XRange k2 ''-'' ''+'' (Some 1)) (\<lambda>oldest. case oldest of
           REntries ((oid, fs) # _) \<Rightarrow>
             Call (XDel k2 oid) (\<lambda>_. case luaSize fs of
                 None \<Rightarrow> Done scriptErr
               | Some osize \<Rightarrow>
                   Call (HIncrBy k1 ''bytes'' (- osize)) (\<lambda>_.
                   Call (HIncrBy k1 ''msgs'' (- 1)) (\<lambda>_.
                   if hasOwner then
                     Call (HIncrBy k3 ''bytes'' (- osize)) (\<lambda>_.
                       evictLoop n ks hasOwner maxMsgs maxBytes seq)
                   else evictLoop n ks hasOwner maxMsgs maxBytes seq)))
         | _ \<Rightarrow> Done (RInt seq)))))))"

record append_args =
  a_blob :: bytes
  a_size :: int
  a_ttl :: int
  a_maxBytes :: int
  a_maxMsgs :: int
  a_acctCap :: int
  a_now :: int
  a_hasOwner :: bool

text \<open>Steps 2 to 5 of the script, after the account's quota has been checked.\<close>

definition storeLua :: "nat \<Rightarrow> string \<times> string \<times> string \<Rightarrow> append_args \<Rightarrow> script" where
  "storeLua fuel ks a =
     (case ks of (k1, k2, k3) \<Rightarrow>
       Call (HGet k1 ''next_seq'') (\<lambda>r. numOr 1 r (\<lambda>seq.
         let expires = (if a_ttl a > 0 then a_now a + a_ttl a else 0) in
       Call (XAdd k2 (itoa seq @ ''-1'')
         [(''blob'', a_blob a), (''exp'', itoa expires), (''size'', itoa (a_size a))]) (\<lambda>_.
       Call (HIncrBy k1 ''bytes'' (a_size a)) (\<lambda>_.
       Call (HIncrBy k1 ''msgs'' 1) (\<lambda>_.
       Call (HIncrBy k1 ''next_seq'' 1) (\<lambda>_.
       if a_hasOwner a then
         Call (HIncrBy k3 ''bytes'' (a_size a)) (\<lambda>_.
           evictLoop fuel ks (a_hasOwner a) (a_maxMsgs a) (a_maxBytes a) seq)
       else evictLoop fuel ks (a_hasOwner a) (a_maxMsgs a) (a_maxBytes a) seq)))))))"

definition appendLua :: "nat \<Rightarrow> string \<times> string \<times> string \<Rightarrow> append_args \<Rightarrow> script" where
  "appendLua fuel ks a =
     (case ks of (k1, k2, k3) \<Rightarrow>
       if a_hasOwner a \<and> a_acctCap a > 0 then
         Call (HGet k3 ''bytes'') (\<lambda>r. numOr 0 r (\<lambda>ab.
           if ab + a_size a > a_acctCap a then Done (RStr ''QUOTA_ACCT'')
           else storeLua fuel ks a))
       else storeLua fuel ks a)"

definition toInt64 :: "reply \<Rightarrow> int \<times> bool" where
  "toInt64 r = (case r of
       RInt n \<Rightarrow> (n, True)
     | RStr s \<Rightarrow> (parseInt64 s, case parseDec s of None \<Rightarrow> False | Some n \<Rightarrow> int64 n)
     | _ \<Rightarrow> (0, False))"

definition appendArgs :: "channel \<Rightarrow> bytes \<Rightarrow> int \<Rightarrow> int \<Rightarrow> append_args" where
  "appendArgs c blob acctBytesCap now =
     \<lparr>a_blob = blob, a_size = int (length blob), a_ttl = ch_ttl c, a_maxBytes = ch_maxBytes c,
      a_maxMsgs = ch_maxMsgs c, a_acctCap = acctBytesCap, a_now = now,
      a_hasOwner = (ch_owner c \<noteq> '''')\<rparr>"

definition Append :: "nat \<Rightarrow> int \<Rightarrow> string \<Rightarrow> bytes \<Rightarrow> int \<Rightarrow> (store_error + int) prog" where
  "Append fuel now channelID blob acctBytesCap =
     andThen (GetChannel channelID) (\<lambda>r. case r of
         Inl e \<Rightarrow> Return (Inl e)
       | Inr c \<Rightarrow>
           if \<not> ch_retained c then Return (Inl NotRetained)
           else Request (appendLua fuel
                  (chUsageKey channelID, chMsgsKey channelID, acctUsageKey (ch_owner c))
                  (appendArgs c blob acctBytesCap now))
                (\<lambda>r. Return
                  (if isErr r \<or> r = RNil then Inl (RedisErr r)
                   else if r = RStr ''QUOTA_ACCT'' then Inl ErrQuotaAcct
                   else Inr (fst (toInt64 r)))))"

definition expOf :: "fields \<Rightarrow> int" where
  "expOf fs = parseInt64 (valueOf fs ''exp'')"

definition seqOfId :: "string \<Rightarrow> int" where
  "seqOfId i = parseInt64 (takeWhile (\<lambda>c. c \<noteq> CHR ''-'') i)"

fun liveMsgs :: "int \<Rightarrow> (string \<times> fields) list \<Rightarrow> storedMessage list" where
  "liveMsgs now [] = []"
| "liveMsgs now ((i, fs) # es) =
     (if expOf fs > 0 \<and> expOf fs \<le> now then liveMsgs now es
      else \<lparr>m_seq = seqOfId i, m_ciphertext = valueOf fs ''blob''\<rparr> # liveMsgs now es)"

definition CatchUp :: "int \<Rightarrow> string \<Rightarrow> int \<Rightarrow> int \<Rightarrow> (store_error + storedMessage list) prog" where
  "CatchUp now channelID afterSeq limit =
     send (XRange (chMsgsKey channelID) (''('' @ itoa afterSeq @ ''-1'') ''+'' (Some limit)) (\<lambda>r.
       Return (case r of
           REntries es \<Rightarrow> Inr (liveMsgs now es)
         | _ \<Rightarrow> Inl (RedisErr r)))"

definition intReply :: "reply \<Rightarrow> int" where
  "intReply r = (case r of RInt n \<Rightarrow> n | _ \<Rightarrow> 0)"

definition strReply :: "reply \<Rightarrow> string" where
  "strReply r = (case r of RStr s \<Rightarrow> s | _ \<Rightarrow> '''')"

fun pruneEntries :: "int \<Rightarrow> string \<Rightarrow> (string \<times> fields) list \<Rightarrow> int \<Rightarrow> int prog" where
  "pruneEntries now i [] pruned = Return pruned"
| "pruneEntries now i ((eid, fs) # es) pruned =
     (if expOf fs = 0 \<or> expOf fs > now then pruneEntries now i es pruned
      else
        (let size = parseInt64 (valueOf fs ''size'') in
         send (XDel (chMsgsKey i) eid) (\<lambda>r.
           if intReply r = 0 then pruneEntries now i es pruned
           else
             send (HIncrBy (chUsageKey i) ''bytes'' (wrap64 (- size))) (\<lambda>_.
             send (HIncrBy (chUsageKey i) ''msgs'' (- 1)) (\<lambda>_.
             send (HGet (chKey i) ''owner'') (\<lambda>r.
               if strReply r \<noteq> '''' then
                 send (HIncrBy (acctUsageKey (strReply r)) ''bytes'' (wrap64 (- size))) (\<lambda>_.
                   pruneEntries now i es (pruned + 1))
               else pruneEntries now i es (pruned + 1)))))))"

fun pruneLoop :: "int \<Rightarrow> string list \<Rightarrow> int \<Rightarrow> int prog" where
  "pruneLoop now [] pruned = Return pruned"
| "pruneLoop now (i # ids) pruned =
     send (XRange (chMsgsKey i) ''-'' ''+'' None) (\<lambda>r. case r of
         REntries es \<Rightarrow> andThen (pruneEntries now i es pruned) (pruneLoop now ids)
       | _ \<Rightarrow> pruneLoop now ids pruned)"

definition PruneExpired :: "int \<Rightarrow> (store_error + int) prog" where
  "PruneExpired now =
     send (SMembers chansSet) (\<lambda>r. case r of
         RStrs ids \<Rightarrow> andThen (pruneLoop now ids 0) (\<lambda>n. Return (Inr n))
       | _ \<Rightarrow> Return (Inl (RedisErr r)))"

subsection \<open>Statistics\<close>

record stats =
  st_channels :: int
  st_retainedChannels :: int
  st_accounts :: int
  st_retainedMessages :: int
  st_retainedBytes :: int

record channelInfo =
  ci_id :: string
  ci_owner :: string
  ci_retained :: bool
  ci_ttl :: int
  ci_maxBytes :: int
  ci_maxMsgs :: int
  ci_bytes :: int
  ci_msgs :: int

fun statsLoop :: "string list \<Rightarrow> stats \<Rightarrow> stats prog" where
  "statsLoop [] st = Return st"
| "statsLoop (i # ids) st =
     andThen (GetChannel i) (\<lambda>r. case r of
         Inl e \<Rightarrow> statsLoop ids st
       | Inr c \<Rightarrow>
           (let st = (if ch_retained c
                then st\<lparr>st_retainedChannels := st_retainedChannels st + 1\<rparr> else st) in
            andThen (ChannelUsage i) (\<lambda>u. case u of
                Inl e \<Rightarrow> statsLoop ids st
              | Inr (b, m) \<Rightarrow> statsLoop ids
                  (st\<lparr>st_retainedBytes := wrap64 (st_retainedBytes st + b),
                      st_retainedMessages := wrap64 (st_retainedMessages st + m)\<rparr>))))"

definition acctBase :: "string \<Rightarrow> bool" where
  "acctBase k \<longleftrightarrow> length k > length ''dt:acct:'' \<and> drop (length k - 6) k \<noteq> '':usage''"

primrec scanLoop :: "nat \<Rightarrow> int \<Rightarrow> string list \<Rightarrow> (string list) option prog" where
  "scanLoop 0 cursor seen = Return None"
| "scanLoop (Suc n) cursor seen =
     send (Scan cursor ''dt:acct:*'' 200) (\<lambda>r. case r of
         RScan cur keys \<Rightarrow>
           (let seen = fold List.insert (filter acctBase keys) seen in
            if cur = 0 then Return (Some seen) else scanLoop n cur seen)
       | _ \<Rightarrow> Return (Some seen))"

definition Stats :: "nat \<Rightarrow> (store_error + stats) prog" where
  "Stats fuel =
     send (SMembers chansSet) (\<lambda>r. case r of
         RStrs ids \<Rightarrow>
           andThen (statsLoop ids
             \<lparr>st_channels = int (length ids), st_retainedChannels = 0, st_accounts = 0,
              st_retainedMessages = 0, st_retainedBytes = 0\<rparr>) (\<lambda>st.
           andThen (scanLoop fuel 0 []) (\<lambda>seen. Return (case seen of
               None \<Rightarrow> Inl (RedisErr RHang)
             | Some seen \<Rightarrow> Inr (st\<lparr>st_accounts := int (length seen)\<rparr>))))
       | _ \<Rightarrow> Return (Inl (RedisErr r)))"

definition infoOf :: "string \<Rightarrow> channel \<Rightarrow> int \<times> int \<Rightarrow> channelInfo" where
  "infoOf i c u =
     \<lparr>ci_id = i, ci_owner = ch_owner c, ci_retained = ch_retained c, ci_ttl = ch_ttl c,
      ci_maxBytes = ch_maxBytes c, ci_maxMsgs = ch_maxMsgs c, ci_bytes = fst u, ci_msgs = snd u\<rparr>"

fun listLoop :: "string list \<Rightarrow> channelInfo list \<Rightarrow> channelInfo list prog" where
  "listLoop [] out = Return out"
| "listLoop (i # ids) out =
     andThen (GetChannel i) (\<lambda>r. case r of
         Inl e \<Rightarrow> listLoop ids out
       | Inr c \<Rightarrow> andThen (ChannelUsage i) (\<lambda>u.
           listLoop ids (out @ [infoOf i c (case u of Inl e \<Rightarrow> (0, 0) | Inr v \<Rightarrow> v)])))"

definition ListChannels :: "(store_error + channelInfo list) prog" where
  "ListChannels =
     send (SMembers chansSet) (\<lambda>r. case r of
         RStrs ids \<Rightarrow> andThen (listLoop ids []) (\<lambda>l. Return (Inr l))
       | _ \<Rightarrow> Return (Inl (RedisErr r)))"

end
