(* ===== verification/Store_Log.thy ===== *)
theory Store_Log
  imports Store
begin

text \<open>
  The retained log of a channel: what the stream and the usage counters say about it, and
  that the append script is the ring buffer it is meant to be: append, then drop the oldest
  messages until the caps hold, with the counters of the channel and of the owning account
  in step.
\<close>

subsection \<open>Deterministic commands\<close>

definition det :: "rcmd \<Rightarrow> bool" where
  "det c = (case c of SMembers k \<Rightarrow> False | Scan a b n \<Rightarrow> False | _ \<Rightarrow> True)"

lemma det_simps [simp]:
  "det (HGet k f)" "det (HSet k fs)" "det (HSetNX k f v)" "det (HGetAll k)" "det (HMGet k ks)"
  "det (HIncrBy k f n)" "det (Exists k)" "det (SAdd k v)" "det (XAdd k i fs)"
  "det (XRange k i v w)" "det (XDel k i)" "det (Del k)" "det (Expire k n)"
  by (simp_all add: det_def)

lemma docs_det: "det c \<Longrightarrow> docs c d = {cmdDoc c d}"
  by (cases c) (simp_all add: docs_def det_def)

lemma souts_det:
  "det c \<Longrightarrow> souts (Call c k) d =
     (if isErr (fst (cmdDoc c d)) then {cmdDoc c d}
      else souts (k (fst (cmdDoc c d))) (snd (cmdDoc c d)))"
  by (simp add: docs_det split: prod.splits)

declare souts.simps(2) [simp del]

definition sameBut :: "string set \<Rightarrow> db \<Rightarrow> db \<Rightarrow> bool" where
  "sameBut S d d' \<longleftrightarrow> (\<forall>k. k \<notin> S \<longrightarrow> kv d' k = kv d k) \<and> expiry d' = expiry d"

lemma sameBut_refl [simp]: "sameBut S d d"
  by (simp add: sameBut_def)

lemma sameBut_trans: "sameBut S d d1 \<Longrightarrow> sameBut S d1 d2 \<Longrightarrow> sameBut S d d2"
  by (simp add: sameBut_def)

lemma sameBut_put [simp]: "k \<in> S \<Longrightarrow> sameBut S d (put k v d)"
  by (auto simp: sameBut_def)

subsection \<open>Keys\<close>

lemma key_distinct [simp]:
  "chUsageKey i \<noteq> chMsgsKey i" "chMsgsKey i \<noteq> chUsageKey i"
  "chUsageKey i \<noteq> acctUsageKey j" "acctUsageKey j \<noteq> chUsageKey i"
  "chMsgsKey i \<noteq> acctUsageKey j" "acctUsageKey j \<noteq> chMsgsKey i"
  "chKey i \<noteq> chUsageKey i" "chUsageKey i \<noteq> chKey i"
  "chKey i \<noteq> chMsgsKey i" "chMsgsKey i \<noteq> chKey i"
  "chKey i \<noteq> acctUsageKey j" "acctUsageKey j \<noteq> chKey i"
  "chKey i \<noteq> chansSet" "chansSet \<noteq> chKey i" "chUsageKey i \<noteq> chansSet" "chansSet \<noteq> chUsageKey i"
  "chMsgsKey i \<noteq> chansSet" "chansSet \<noteq> chMsgsKey i"
  "acctUsageKey i \<noteq> chansSet" "chansSet \<noteq> acctUsageKey i"
  "ticketKey i \<noteq> chansSet" "chansSet \<noteq> ticketKey i"
  "ticketKey i \<noteq> chKey j" "chKey j \<noteq> ticketKey i"
  "ticketKey i \<noteq> chUsageKey j" "chUsageKey j \<noteq> ticketKey i"
  "ticketKey i \<noteq> chMsgsKey j" "chMsgsKey j \<noteq> ticketKey i"
  "ticketKey i \<noteq> acctUsageKey j" "acctUsageKey j \<noteq> ticketKey i"
  by (simp_all add: chUsageKey_def chMsgsKey_def acctUsageKey_def chKey_def chansSet_def ticketKey_def)

lemma key_inj [simp]:
  "chKey i = chKey j \<longleftrightarrow> i = j" "chUsageKey i = chUsageKey j \<longleftrightarrow> i = j"
  "chMsgsKey i = chMsgsKey j \<longleftrightarrow> i = j" "acctUsageKey i = acctUsageKey j \<longleftrightarrow> i = j"
  "ticketKey i = ticketKey j \<longleftrightarrow> i = j" "acctKey i = acctKey j \<longleftrightarrow> i = j"
  by (simp_all add: chUsageKey_def chMsgsKey_def acctUsageKey_def chKey_def ticketKey_def acctKey_def)

subsection \<open>The abstract log\<close>

record entry =
  l_seq :: nat
  l_blob :: bytes
  l_exp :: int
  l_size :: int

definition encEntry :: "entry \<Rightarrow> sid \<times> fields" where
  "encEntry e = ((l_seq e, 1),
     [(''blob'', l_blob e), (''exp'', itoa (l_exp e)), (''size'', itoa (l_size e))])"

definition bytesOf :: "entry list \<Rightarrow> int" where
  "bytesOf L = sum_list (List.map l_size L)"

lemma bytesOf_simps [simp]:
  "bytesOf [] = 0" "bytesOf (e # L) = l_size e + bytesOf L" "bytesOf (L @ M) = bytesOf L + bytesOf M"
  by (simp_all add: bytesOf_def)

text \<open>The range in which Lua's doubles are exact and print as integers.\<close>

definition exact :: "int \<Rightarrow> bool" where
  "exact x \<longleftrightarrow> \<bar>x\<bar> < 10 ^ 14"

lemma exact_int64 [simp]: "exact x \<Longrightarrow> int64 x"
  by (auto simp: exact_def int64_def abs_less_iff)

lemma exact_diff: "exact x \<Longrightarrow> exact y \<Longrightarrow> int64 (x - y)" "exact x \<Longrightarrow> exact y \<Longrightarrow> int64 (x + y)"
  by (auto simp: exact_def int64_def abs_less_iff)

definition usageIs :: "db \<Rightarrow> string \<Rightarrow> int \<Rightarrow> int \<Rightarrow> int \<Rightarrow> bool" where
  "usageIs d i b m n \<longleftrightarrow> (\<exists>u. kv d (chUsageKey i) = Some (RHash u) \<and>
     map_of u ''bytes'' = Some (itoa b) \<and> map_of u ''msgs'' = Some (itoa m) \<and>
     map_of u ''next_seq'' = Some (itoa n))"

definition streamIs :: "db \<Rightarrow> string \<Rightarrow> entry list \<Rightarrow> sid \<Rightarrow> bool" where
  "streamIs d i L lst \<longleftrightarrow> asStream (kv d (chMsgsKey i)) = Some (List.map encEntry L, lst)"

definition acctIs :: "db \<Rightarrow> string \<Rightarrow> int \<Rightarrow> bool" where
  "acctIs d ow b \<longleftrightarrow> (\<exists>m. asHash (kv d (acctUsageKey ow)) = Some m \<and>
     intField (map_of m ''bytes'') = Some b)"

definition entriesOk :: "entry list \<Rightarrow> int \<Rightarrow> bool" where
  "entriesOk L n \<longleftrightarrow> sorted_wrt (<) (List.map l_seq L) \<and>
     (\<forall>e\<in>set L. 0 < l_seq e \<and> int (l_seq e) < n \<and> 0 \<le> l_size e \<and> exact (l_exp e))"

definition logIs :: "db \<Rightarrow> string \<Rightarrow> entry list \<Rightarrow> int \<Rightarrow> bool" where
  "logIs d i L n \<longleftrightarrow> usageIs d i (bytesOf L) (int (length L)) n \<and> entriesOk L n \<and>
     0 < n \<and> exact n \<and> exact (bytesOf L) \<and> exact (int (length L)) \<and>
     (\<exists>lst. streamIs d i L lst \<and> lst < (nat n, 1))"

definition fits :: "int \<Rightarrow> int \<Rightarrow> entry list \<Rightarrow> bool" where
  "fits maxMsgs maxBytes L \<longleftrightarrow> \<not> overCap maxMsgs maxBytes (int (length L)) (bytesOf L)"

text \<open>The ring buffer: drop the oldest until the caps hold.\<close>

fun evict :: "int \<Rightarrow> int \<Rightarrow> entry list \<Rightarrow> entry list" where
  "evict maxMsgs maxBytes [] = []"
| "evict maxMsgs maxBytes (e # L) =
     (if fits maxMsgs maxBytes (e # L) then e # L else evict maxMsgs maxBytes L)"

lemma fits_Nil [simp]: "fits mm mb []"
  by (simp add: fits_def overCap_def)

lemma evict_longest:
  "\<exists>k. evict mm mb L = drop k L \<and> fits mm mb (evict mm mb L) \<and> (\<forall>j<k. \<not> fits mm mb (drop j L))"
proof (induction L)
  case Nil
  then show ?case by (auto intro: exI [of _ 0])
next
  case (Cons e L)
  show ?case
  proof (cases "fits mm mb (e # L)")
    case True
    then show ?thesis by (auto intro: exI [of _ 0])
  next
    case False
    from Cons obtain k where k: "evict mm mb L = drop k L" "fits mm mb (evict mm mb L)"
      "\<forall>j<k. \<not> fits mm mb (drop j L)" by auto
    have "\<forall>j<Suc k. \<not> fits mm mb (drop j (e # L))"
      using False k(3) by (auto simp: less_Suc_eq_0_disj)
    then show ?thesis using False k by (auto intro!: exI [of _ "Suc k"])
  qed
qed

subsection \<open>The commands on a log\<close>

abbreviation effect :: "rcmd \<Rightarrow> db \<Rightarrow> db" where
  "effect c d \<equiv> snd (cmdDoc c d)"

lemma intField_itoa [simp]: "int64 n \<Longrightarrow> intField (Some (itoa n)) = Some n"
  by (simp add: intField_def)

lemma intField_None [simp]: "intField None = Some 0"
  by (simp add: intField_def)

lemma HGet_usage [simp]:
  assumes "usageIs d i b m n"
  shows "cmdDoc (HGet (chUsageKey i) ''bytes'') d = (RStr (itoa b), d)"
    "cmdDoc (HGet (chUsageKey i) ''msgs'') d = (RStr (itoa m), d)"
    "cmdDoc (HGet (chUsageKey i) ''next_seq'') d = (RStr (itoa n), d)"
  using assms by (auto simp: usageIs_def asHash_def optReply_def)

lemma HIncrBy_usage:
  assumes "usageIs d i b m n"
  shows "int64 b \<Longrightarrow> int64 (b + x) \<Longrightarrow>
      fst (cmdDoc (HIncrBy (chUsageKey i) ''bytes'' x) d) = RInt (b + x) \<and>
      usageIs (effect (HIncrBy (chUsageKey i) ''bytes'' x) d) i (b + x) m n"
    "int64 m \<Longrightarrow> int64 (m + x) \<Longrightarrow>
      fst (cmdDoc (HIncrBy (chUsageKey i) ''msgs'' x) d) = RInt (m + x) \<and>
      usageIs (effect (HIncrBy (chUsageKey i) ''msgs'' x) d) i b (m + x) n"
    "int64 n \<Longrightarrow> int64 (n + x) \<Longrightarrow>
      fst (cmdDoc (HIncrBy (chUsageKey i) ''next_seq'' x) d) = RInt (n + x) \<and>
      usageIs (effect (HIncrBy (chUsageKey i) ''next_seq'' x) d) i b m (n + x)"
  using assms by (auto simp: usageIs_def asHash_def update_conv')

lemma HIncrBy_frame:
  "sameBut {k} d (effect (HIncrBy k f x) d)"
  by (auto split: option.splits)

lemma HIncrBy_acct:
  assumes "acctIs d ow b" "int64 (b + x)"
  shows "fst (cmdDoc (HIncrBy (acctUsageKey ow) ''bytes'' x) d) = RInt (b + x) \<and>
    acctIs (effect (HIncrBy (acctUsageKey ow) ''bytes'' x) d) ow (b + x)"
  using assms by (auto simp: acctIs_def asHash_def update_conv')

lemma streamIs_frame: "sameBut S d d' \<Longrightarrow> chMsgsKey i \<notin> S \<Longrightarrow> streamIs d' i L lst = streamIs d i L lst"
  by (simp add: streamIs_def sameBut_def)

lemma usageIs_frame: "sameBut S d d' \<Longrightarrow> chUsageKey i \<notin> S \<Longrightarrow> usageIs d' i b m n = usageIs d i b m n"
  by (simp add: usageIs_def sameBut_def)

lemma acctIs_frame: "sameBut S d d' \<Longrightarrow> acctUsageKey ow \<notin> S \<Longrightarrow> acctIs d' ow b = acctIs d ow b"
  by (simp add: acctIs_def sameBut_def)

lemmas log_frame = streamIs_frame usageIs_frame acctIs_frame


lemma entry_sid: "entriesOk L n \<Longrightarrow> exact n \<Longrightarrow> e \<in> set L \<Longrightarrow> l_seq e < 2 ^ 64"
  by (fastforce simp: entriesOk_def exact_def abs_less_iff)

definition entryId :: "entry \<Rightarrow> string" where
  "entryId e = showSid (l_seq e, 1)"

lemma showEntry_enc: "showEntry (encEntry e) = (entryId e, snd (encEntry e))"
  by (simp add: showEntry_def encEntry_def entryId_def)

lemma luaSize_enc [simp]: "luaSize (snd (encEntry e)) = Some (l_size e)"
  by (simp add: luaSize_def encEntry_def)

lemma XRange_oldest:
  assumes "streamIs d i L lst"
  shows "cmdDoc (XRange (chMsgsKey i) ''-'' ''+'' (Some 1)) d =
    (REntries (case L of [] \<Rightarrow> [] | e # _ \<Rightarrow> [(entryId e, snd (encEntry e))]), d)"
  using assms
  by (auto simp: streamIs_def aboveStart_def belowEnd_def showEntry_enc split: list.splits)

lemma seq_unique:
  assumes "entriesOk (K @ e # L) n"
  shows "filter (\<lambda>x. fst x \<noteq> (l_seq e, 1)) (List.map encEntry (K @ e # L)) = List.map encEntry (K @ L)"
proof -
  have "l_seq x \<noteq> l_seq e" if "x \<in> set K \<union> set L" for x
    using assms that by (auto simp: entriesOk_def sorted_wrt_append)
  then show ?thesis by (auto simp: encEntry_def filter_id_conv)
qed

lemma XDel_entry:
  assumes "streamIs d i (K @ e # L) lst" "entriesOk (K @ e # L) n" "exact n"
  shows "fst (cmdDoc (XDel (chMsgsKey i) (entryId e)) d) = RInt 1"
    and "streamIs (effect (XDel (chMsgsKey i) (entryId e)) d) i (K @ L) lst"
    and "sameBut {chMsgsKey i} d (effect (XDel (chMsgsKey i) (entryId e)) d)"
proof -
  have "parseSid (entryId e) = Some (l_seq e, 1)"
    using entry_sid [OF assms(2,3), of e] by (simp add: entryId_def)
  then have eq: "cmdDoc (XDel (chMsgsKey i) (entryId e)) d =
      (RInt 1, put (chMsgsKey i) (RStream (List.map encEntry (K @ L)) lst) d)"
    using assms(1) seq_unique [OF assms(2)] by (simp add: streamIs_def encEntry_def)
  then show "fst (cmdDoc (XDel (chMsgsKey i) (entryId e)) d) = RInt 1"
    "streamIs (effect (XDel (chMsgsKey i) (entryId e)) d) i (K @ L) lst"
    "sameBut {chMsgsKey i} d (effect (XDel (chMsgsKey i) (entryId e)) d)"
    by (simp_all add: streamIs_def asStream_def)
qed

lemmas XDel_oldest = XDel_entry [where K = "[]", simplified append_Nil]

lemma XAdd_next:
  assumes "streamIs d i L lst" "lst < (nat n, 1)" "0 < n" "exact n"
  shows "cmdDoc (XAdd (chMsgsKey i) (itoa n @ ''-1'') fs) d =
    (RStr (itoa n @ ''-1''), put (chMsgsKey i) (RStream (List.map encEntry L @ [((nat n, 1), fs)]) (nat n, 1)) d)"
proof -
  have "itoa n @ ''-1'' = showSid (nat n, 1)"
    using assms(3) natDigits_1 by (simp add: showSid_def itoa_nat)
  moreover have "nat n < 2 ^ 64" using assms(4) by (auto simp: exact_def abs_less_iff)
  ultimately have "parseSid (itoa n @ ''-1'') = Some (nat n, 1)" by simp
  then show ?thesis using assms(1,2) by (simp add: streamIs_def)
qed

subsection \<open>The eviction loop\<close>

declare cmdDoc.simps [simp del]

definition logKeys :: "string \<Rightarrow> string \<Rightarrow> string set" where
  "logKeys i ow = {chUsageKey i, chMsgsKey i, acctUsageKey ow}"

lemma sameBut_mono: "sameBut S d d' \<Longrightarrow> S \<subseteq> T \<Longrightarrow> sameBut T d d'"
  by (auto simp: sameBut_def)

lemma numOr_itoa [simp]: "numOr x (RStr (itoa n)) k = k n"
  by (simp add: numOr_def withNum_def)

lemma numOr_nil [simp]: "numOr x RNil k = k x"
  by (simp add: numOr_def)

abbreviation scriptKeys :: "string \<Rightarrow> string \<Rightarrow> string \<times> string \<times> string" where
  "scriptKeys i ow \<equiv> (chUsageKey i, chMsgsKey i, acctUsageKey ow)"

lemma evict_stop:
  assumes "usageIs d i (bytesOf L) (int (length L)) n" "fits mm mb L"
  shows "souts (evictLoop (Suc k) (scriptKeys i ow) ho mm mb s) d = {(RInt s, d)}"
  using assms by (simp add: souts_det fits_def)

lemma evict_step:
  assumes u: "usageIs d i (bytesOf (e # L)) (int (length (e # L))) n"
    and st: "streamIs d i (e # L) lst" and ok: "entriesOk (e # L) n" and n: "exact n"
    and b: "exact (bytesOf (e # L))" and len: "exact (int (length (e # L)))"
    and ac: "ho \<Longrightarrow> acctIs d ow a" "ho \<Longrightarrow> int64 (a - l_size e)" and over: "\<not> fits mm mb (e # L)"
  shows "\<exists>d'. souts (evictLoop (Suc k) (scriptKeys i ow) ho mm mb s) d =
        souts (evictLoop k (scriptKeys i ow) ho mm mb s) d' \<and>
      usageIs d' i (bytesOf L) (int (length L)) n \<and> streamIs d' i L lst \<and>
      (ho \<longrightarrow> acctIs d' ow (a - l_size e)) \<and> sameBut (logKeys i ow) d d'"
proof -
  have nonneg: "0 \<le> l_size e" "0 \<le> bytesOf L"
    using ok by (auto simp: entriesOk_def bytesOf_def intro!: sum_list_nonneg)
  have small: "exact (bytesOf L)" "exact (l_size e)" "exact (int (length L))"
    using b len nonneg by (auto simp: exact_def)
  let ?K = "logKeys i ow"
  define d1 where "d1 = effect (XDel (chMsgsKey i) (entryId e)) d"
  define d2 where "d2 = effect (HIncrBy (chUsageKey i) ''bytes'' (- l_size e)) d1"
  define d3 where "d3 = effect (HIncrBy (chUsageKey i) ''msgs'' (- 1)) d2"
  define d4 where "d4 = effect (HIncrBy (acctUsageKey ow) ''bytes'' (- l_size e)) d3"
  have f1: "sameBut {chMsgsKey i} d d1" "streamIs d1 i L lst"
    unfolding d1_def using XDel_oldest [OF st ok n] by auto
  have u1: "usageIs d1 i (bytesOf (e # L)) (int (length (e # L))) n"
    using u usageIs_frame [OF f1(1)] by simp
  have u2: "fst (cmdDoc (HIncrBy (chUsageKey i) ''bytes'' (- l_size e)) d1) = RInt (bytesOf L)"
      "usageIs d2 i (bytesOf L) (int (length (e # L))) n"
    using HIncrBy_usage(1) [OF u1, of "- l_size e"] b small by (simp_all add: d2_def)
  have f2: "sameBut {chUsageKey i} d1 d2" unfolding d2_def by (rule HIncrBy_frame)
  have u3: "fst (cmdDoc (HIncrBy (chUsageKey i) ''msgs'' (- 1)) d2) = RInt (int (length L))"
      "usageIs d3 i (bytesOf L) (int (length L)) n"
    using HIncrBy_usage(2) [OF u2(2), of "- 1"] len small by (simp_all add: d3_def)
  have f3: "sameBut {chUsageKey i} d2 d3" unfolding d3_def by (rule HIncrBy_frame)
  have f4: "sameBut {acctUsageKey ow} d3 d4" unfolding d4_def by (rule HIncrBy_frame)
  have s3: "streamIs d3 i L lst"
    using f1(2) streamIs_frame [OF f2] streamIs_frame [OF f3] by simp
  have fr3: "sameBut ?K d d3"
    using f1(1) f2 f3 by (auto simp: sameBut_def logKeys_def)
  have a3: "acctIs d3 ow a" if ho
    using ac(1) [OF that] acctIs_frame [OF f1(1)] acctIs_frame [OF f2] acctIs_frame [OF f3] by simp
  have a4: "fst (cmdDoc (HIncrBy (acctUsageKey ow) ''bytes'' (- l_size e)) d3) = RInt (a - l_size e)"
      "acctIs d4 ow (a - l_size e)" if ho
    using HIncrBy_acct [OF a3 [OF that], of "- l_size e"] ac(2) [OF that]
    by (simp_all add: d4_def)
  have "souts (evictLoop (Suc k) (scriptKeys i ow) ho mm mb s) d =
      souts (if ho then Call (HIncrBy (acctUsageKey ow) ''bytes'' (- l_size e))
              (\<lambda>_. evictLoop k (scriptKeys i ow) ho mm mb s)
             else evictLoop k (scriptKeys i ow) ho mm mb s) d3"
    using u over XDel_oldest(1) [OF st ok n] u2(1) u3(1)
    by (simp add: souts_det fits_def XRange_oldest [OF st] flip: d1_def d2_def d3_def)
  also have "\<dots> = souts (evictLoop k (scriptKeys i ow) ho mm mb s) (if ho then d4 else d3)"
    using a4(1) by (simp add: souts_det flip: d4_def)
  finally have eq: "souts (evictLoop (Suc k) (scriptKeys i ow) ho mm mb s) d =
      souts (evictLoop k (scriptKeys i ow) ho mm mb s) (if ho then d4 else d3)" .
  have "usageIs d4 i (bytesOf L) (int (length L)) n" "streamIs d4 i L lst" "sameBut ?K d d4"
    using usageIs_frame [OF f4] streamIs_frame [OF f4] u3(2) s3 fr3 f4
    by (auto simp: sameBut_def logKeys_def)
  then show ?thesis
    using eq a4(2) u3(2) s3 fr3 by (intro exI [of _ "if ho then d4 else d3"]) simp
qed

lemma entriesOk_tl: "entriesOk (e # L) n \<Longrightarrow> entriesOk L n"
  by (auto simp: entriesOk_def)

lemma bytesOf_nonneg: "entriesOk L n \<Longrightarrow> 0 \<le> bytesOf L"
  by (auto simp: entriesOk_def bytesOf_def intro!: sum_list_nonneg)

lemma evict_loop:
  assumes "length L < k" "usageIs d i (bytesOf L) (int (length L)) n" "streamIs d i L lst"
    "entriesOk L n" "exact n" "exact (bytesOf L)" "exact (int (length L))"
    "ho \<Longrightarrow> acctIs d ow a" "ho \<Longrightarrow> int64 a \<and> int64 (a - bytesOf L)"
  shows "\<exists>d'. souts (evictLoop k (scriptKeys i ow) ho mm mb s) d = {(RInt s, d')} \<and>
      usageIs d' i (bytesOf (evict mm mb L)) (int (length (evict mm mb L))) n \<and>
      streamIs d' i (evict mm mb L) lst \<and> sameBut (logKeys i ow) d d' \<and>
      (ho \<longrightarrow> acctIs d' ow (a - (bytesOf L - bytesOf (evict mm mb L))))"
  using assms
proof (induction L arbitrary: d k a)
  case Nil
  then obtain j where "k = Suc j" by (cases k) auto
  with Nil.prems show ?case
    using evict_stop [of d i "[]" n mm mb j ow ho s] by auto
next
  case (Cons e L)
  then obtain j where k: "k = Suc j" by (cases k) auto
  show ?case
  proof (cases "fits mm mb (e # L)")
    case True
    then show ?thesis using Cons.prems k evict_stop [OF Cons.prems(2) True] by auto
  next
    case False
    have nonneg: "0 \<le> l_size e" "0 \<le> bytesOf L"
      using Cons.prems(4) bytesOf_nonneg [OF entriesOk_tl [OF Cons.prems(4)]]
      by (auto simp: entriesOk_def)
    have a: "int64 (a - l_size e) \<and> int64 (a - l_size e - bytesOf L)" if ho
      using Cons.prems(9) [OF that] nonneg by (auto simp: int64_def)
    from evict_step [OF Cons.prems(2-8) conjunct1 [OF a] False, where k = j and s = s]
    obtain d' where d': "souts (evictLoop k (scriptKeys i ow) ho mm mb s) d =
          souts (evictLoop j (scriptKeys i ow) ho mm mb s) d'"
        "usageIs d' i (bytesOf L) (int (length L)) n" "streamIs d' i L lst"
        "ho \<Longrightarrow> acctIs d' ow (a - l_size e)" "sameBut (logKeys i ow) d d'"
      unfolding k by auto
    have "exact (bytesOf L)" "exact (int (length L))" "length L < j"
      using Cons.prems(1,6,7) nonneg k by (auto simp: exact_def)
    from Cons.IH [OF this(3) d'(2,3) entriesOk_tl [OF Cons.prems(4)] Cons.prems(5) this(1,2) d'(4) a]
    obtain d2 where "souts (evictLoop j (scriptKeys i ow) ho mm mb s) d' = {(RInt s, d2)}"
        "usageIs d2 i (bytesOf (evict mm mb L)) (int (length (evict mm mb L))) n"
        "streamIs d2 i (evict mm mb L) lst" "sameBut (logKeys i ow) d' d2"
        "ho \<longrightarrow> acctIs d2 ow (a - l_size e - (bytesOf L - bytesOf (evict mm mb L)))" by auto
    then show ?thesis
      using d'(1) sameBut_trans [OF d'(5)] False by (auto simp: algebra_simps)
  qed
qed

subsection \<open>The append script\<close>

definition newEntry :: "append_args \<Rightarrow> int \<Rightarrow> entry" where
  "newEntry a n = \<lparr>l_seq = nat n, l_blob = a_blob a,
     l_exp = (if a_ttl a > 0 then a_now a + a_ttl a else 0), l_size = a_size a\<rparr>"

definition overQuota :: "append_args \<Rightarrow> int \<Rightarrow> bool" where
  "overQuota a ab \<longleftrightarrow> a_hasOwner a \<and> a_acctCap a > 0 \<and> ab + a_size a > a_acctCap a"

text \<open>All the numbers of one append stay in the exact range.\<close>

definition roomy :: "append_args \<Rightarrow> entry list \<Rightarrow> int \<Rightarrow> int \<Rightarrow> bool" where
  "roomy a L n ab \<longleftrightarrow> 0 \<le> a_size a \<and> exact (n + 1) \<and> exact (bytesOf L + a_size a) \<and>
     exact (int (length L) + 1) \<and> exact ab \<and> exact (ab + a_size a) \<and>
     exact (a_now a + a_ttl a)"

lemma intField_cases:
  "intField v = Some b \<Longrightarrow> v = None \<and> b = 0 \<or> v = Some (itoa b) \<and> int64 b"
  by (auto simp: intField_def split: option.splits if_splits)

lemma HGet_acct:
  assumes "acctIs d ow b"
  shows "cmdDoc (HGet (acctUsageKey ow) ''bytes'') d = (RNil, d) \<and> b = 0 \<or>
    cmdDoc (HGet (acctUsageKey ow) ''bytes'') d = (RStr (itoa b), d)"
proof -
  from assms obtain m where "asHash (kv d (acctUsageKey ow)) = Some m"
    "intField (map_of m ''bytes'') = Some b" by (auto simp: acctIs_def)
  with intField_cases [OF this(2)] show ?thesis by (auto simp: cmdDoc.simps optReply_def)
qed

lemma entriesOk_snoc:
  "entriesOk L n \<Longrightarrow> 0 < n \<Longrightarrow> 0 \<le> l_size e \<Longrightarrow> exact (l_exp e) \<Longrightarrow>
     l_seq e = nat n \<Longrightarrow> entriesOk (L @ [e]) (n + 1)"
  by (fastforce simp: entriesOk_def sorted_wrt_append)

lemma entriesOk_evict: "entriesOk L n \<Longrightarrow> entriesOk (evict mm mb L) n"
  by (induction L) (auto dest: entriesOk_tl)

lemma evict_le: "entriesOk L n \<Longrightarrow> bytesOf (evict mm mb L) \<le> bytesOf L \<and> length (evict mm mb L) \<le> length L"
proof (induction L)
  case (Cons e L)
  then show ?case using entriesOk_tl [OF Cons.prems] by (auto simp: entriesOk_def)
qed simp

lemma logIs_evict:
  assumes "usageIs d i (bytesOf (evict mm mb M)) (int (length (evict mm mb M))) n"
    and "streamIs d i (evict mm mb M) lst" "lst < (nat n, 1)"
    and ok: "entriesOk M n" and "0 < n" "exact n" and ex: "exact (bytesOf M)" "exact (int (length M))"
  shows "logIs d i (evict mm mb M) n"
proof -
  have "bytesOf (evict mm mb M) \<le> bytesOf M" "length (evict mm mb M) \<le> length M"
    "0 \<le> bytesOf (evict mm mb M)"
    using evict_le [OF ok] bytesOf_nonneg [OF entriesOk_evict [OF ok]] by blast+
  then have "exact (bytesOf (evict mm mb M))" "exact (int (length (evict mm mb M)))"
    using ex by (auto simp: exact_def)
  then show ?thesis
    unfolding logIs_def using assms(1-6) entriesOk_evict [OF ok] by (intro conjI exI [of _ lst])
qed

lemma append_script:
  assumes lg: "logIs d i L n" and ac: "a_hasOwner a \<Longrightarrow> acctIs d ow ab" and r: "roomy a L n ab"
    and fuel: "Suc (length L) < fuel"
  defines "L' \<equiv> evict (a_maxMsgs a) (a_maxBytes a) (L @ [newEntry a n])"
  shows "if overQuota a ab
    then souts (appendLua fuel (scriptKeys i ow) a) d = {(RStr ''QUOTA_ACCT'', d)}
    else \<exists>d'. souts (appendLua fuel (scriptKeys i ow) a) d = {(RInt n, d')} \<and>
      logIs d' i L' (n + 1) \<and> sameBut (logKeys i ow) d d' \<and>
      (a_hasOwner a \<longrightarrow> acctIs d' ow (ab + a_size a - (bytesOf L + a_size a - bytesOf L')))"
proof -
  let ?e = "newEntry a n" and ?M = "L @ [newEntry a n]" and ?K = "logKeys i ow"
  from lg obtain lst where st: "streamIs d i L lst" "lst < (nat n, 1)"
    by (auto simp: logIs_def)
  from lg have u: "usageIs d i (bytesOf L) (int (length L)) n" and ok: "entriesOk L n"
    and n: "0 < n" "exact n" and ex: "exact (bytesOf L)" "exact (int (length L))"
    by (auto simp: logIs_def)
  from r have ro: "0 \<le> a_size a" "exact (n + 1)" "exact (bytesOf L + a_size a)"
    "exact (int (length L) + 1)" "exact ab" "exact (ab + a_size a)" by (auto simp: roomy_def)
  have "exact (l_exp ?e)" using r by (simp add: roomy_def newEntry_def exact_def)
  then have okM: "entriesOk ?M (n + 1)"
    using entriesOk_snoc [OF ok n(1), of ?e] ro by (simp add: newEntry_def)
  define fs where "fs = snd (encEntry ?e)"
  define d1 where "d1 = effect (XAdd (chMsgsKey i) (itoa n @ ''-1'') fs) d"
  define d2 where "d2 = effect (HIncrBy (chUsageKey i) ''bytes'' (a_size a)) d1"
  define d3 where "d3 = effect (HIncrBy (chUsageKey i) ''msgs'' 1) d2"
  define d4 where "d4 = effect (HIncrBy (chUsageKey i) ''next_seq'' 1) d3"
  define d5 where "d5 = effect (HIncrBy (acctUsageKey ow) ''bytes'' (a_size a)) d4"
  note xadd = XAdd_next [OF st n(1) n(2), of fs]
  have x1: "fst (cmdDoc (XAdd (chMsgsKey i) (itoa n @ ''-1'') fs) d) = RStr (itoa n @ ''-1'')"
    using xadd by simp
  have f1: "sameBut {chMsgsKey i} d d1" using xadd by (simp add: d1_def)
  have s1: "streamIs d1 i ?M (nat n, 1)"
    using xadd by (simp add: d1_def streamIs_def asStream_def fs_def encEntry_def newEntry_def)
  have u1: "usageIs d1 i (bytesOf L) (int (length L)) n" using u usageIs_frame [OF f1] by simp
  have u2: "fst (cmdDoc (HIncrBy (chUsageKey i) ''bytes'' (a_size a)) d1) = RInt (bytesOf L + a_size a)"
      "usageIs d2 i (bytesOf L + a_size a) (int (length L)) n"
    using HIncrBy_usage(1) [OF u1] ex ro by (simp_all add: d2_def)
  have f2: "sameBut {chUsageKey i} d1 d2" unfolding d2_def by (rule HIncrBy_frame)
  have u3: "fst (cmdDoc (HIncrBy (chUsageKey i) ''msgs'' 1) d2) = RInt (int (length L) + 1)"
      "usageIs d3 i (bytesOf L + a_size a) (int (length L) + 1) n"
    using HIncrBy_usage(2) [OF u2(2)] ex ro by (simp_all add: d3_def)
  have f3: "sameBut {chUsageKey i} d2 d3" unfolding d3_def by (rule HIncrBy_frame)
  have u4: "fst (cmdDoc (HIncrBy (chUsageKey i) ''next_seq'' 1) d3) = RInt (n + 1)"
      "usageIs d4 i (bytesOf L + a_size a) (int (length L) + 1) (n + 1)"
    using HIncrBy_usage(3) [OF u3(2)] n ro by (simp_all add: d4_def)
  have f4: "sameBut {chUsageKey i} d3 d4" unfolding d4_def by (rule HIncrBy_frame)
  have f5: "sameBut {acctUsageKey ow} d4 d5" unfolding d5_def by (rule HIncrBy_frame)
  have a4: "acctIs d4 ow ab" if "a_hasOwner a"
    using ac [OF that] acctIs_frame [OF f1] acctIs_frame [OF f2] acctIs_frame [OF f3] acctIs_frame [OF f4] by simp
  have a5: "fst (cmdDoc (HIncrBy (acctUsageKey ow) ''bytes'' (a_size a)) d4) = RInt (ab + a_size a)"
      "acctIs d5 ow (ab + a_size a)" if "a_hasOwner a"
    using HIncrBy_acct [OF a4 [OF that]] ro by (simp_all add: d5_def)
  let ?d = "if a_hasOwner a then d5 else d4"
  have s4: "streamIs d4 i ?M (nat n, 1)"
    using s1 streamIs_frame [OF f2] streamIs_frame [OF f3] streamIs_frame [OF f4] by simp
  have uM: "usageIs ?d i (bytesOf ?M) (int (length ?M)) (n + 1)" and sM: "streamIs ?d i ?M (nat n, 1)"
    using u4(2) s4 usageIs_frame [OF f5] streamIs_frame [OF f5]
    by (auto simp: newEntry_def algebra_simps)
  have fr: "sameBut ?K d ?d" using f1 f2 f3 f4 f5 by (auto simp: sameBut_def logKeys_def)
  have enc: "fs = [(''blob'', a_blob a), (''exp'', itoa (if a_ttl a > 0 then a_now a + a_ttl a else 0)),
      (''size'', itoa (a_size a))]"
    by (simp add: fs_def encEntry_def newEntry_def)
  have step1: "souts (storeLua fuel (scriptKeys i ow) a) d =
      souts (if a_hasOwner a then Call (HIncrBy (acctUsageKey ow) ''bytes'' (a_size a)) (\<lambda>_.
          evictLoop fuel (scriptKeys i ow) (a_hasOwner a) (a_maxMsgs a) (a_maxBytes a) n)
        else evictLoop fuel (scriptKeys i ow) (a_hasOwner a) (a_maxMsgs a) (a_maxBytes a) n) d4"
    using u x1 u2(1) u3(1) u4(1)
    by (simp add: storeLua_def souts_det Let_def flip: enc d1_def d2_def d3_def d4_def)
  have step: "souts (storeLua fuel (scriptKeys i ow) a) d =
      souts (evictLoop fuel (scriptKeys i ow) (a_hasOwner a) (a_maxMsgs a) (a_maxBytes a) n) ?d"
    unfolding step1 using a5(1) by (simp add: souts_det flip: d5_def)
  have bM: "bytesOf ?M = bytesOf L + a_size a" "int (length ?M) = int (length L) + 1"
    by (simp_all add: newEntry_def)
  have exM: "exact (bytesOf ?M)" "exact (int (length ?M))"
    unfolding bM by (rule ro(3), rule ro(4))
  have ovf: "int64 (ab + a_size a) \<and> int64 (ab + a_size a - bytesOf ?M)"
    using ro exM(1) by (simp add: exact_diff)
  have fuel': "length ?M < fuel" using fuel by simp
  have acd: "acctIs ?d ow (ab + a_size a)" if "a_hasOwner a" using a5(2) [OF that] that by simp
  from evict_loop [OF fuel' uM sM okM ro(2) exM acd ovf, where mm = "a_maxMsgs a" and mb = "a_maxBytes a" and s = n]
  obtain d' where d': "souts (evictLoop fuel (scriptKeys i ow) (a_hasOwner a) (a_maxMsgs a) (a_maxBytes a) n) ?d = {(RInt n, d')}"
      "usageIs d' i (bytesOf L') (int (length L')) (n + 1)" "streamIs d' i L' (nat n, 1)"
      "sameBut ?K ?d d'" "a_hasOwner a \<longrightarrow> acctIs d' ow (ab + a_size a - (bytesOf ?M - bytesOf L'))"
    unfolding L'_def by blast
  have "logIs d' i L' (n + 1)"
    unfolding L'_def
  proof (rule logIs_evict [OF _ _ _ okM _ ro(2) exM])
    show "usageIs d' i (bytesOf (evict (a_maxMsgs a) (a_maxBytes a) ?M))
        (int (length (evict (a_maxMsgs a) (a_maxBytes a) ?M))) (n + 1)"
      using d'(2) by (simp only: L'_def)
    show "streamIs d' i (evict (a_maxMsgs a) (a_maxBytes a) ?M) (nat n, 1)"
      using d'(3) by (simp only: L'_def)
  qed (use n in auto)
  then have res: "\<exists>d'. souts (storeLua fuel (scriptKeys i ow) a) d = {(RInt n, d')} \<and>
      logIs d' i L' (n + 1) \<and> sameBut ?K d d' \<and>
      (a_hasOwner a \<longrightarrow> acctIs d' ow (ab + a_size a - (bytesOf L + a_size a - bytesOf L')))"
    using d' step sameBut_trans [OF fr d'(4)] bM(1) by auto
  show ?thesis
  proof (cases "a_hasOwner a \<and> a_acctCap a > 0")
    case True
    then have "souts (appendLua fuel (scriptKeys i ow) a) d =
      (if overQuota a ab then {(RStr ''QUOTA_ACCT'', d)} else souts (storeLua fuel (scriptKeys i ow) a) d)"
      using HGet_acct [OF ac] True by (auto simp: appendLua_def souts_det overQuota_def)
    then show ?thesis using res by (simp only: if_split) auto
  next
    case False
    then have "\<not> overQuota a ab" "souts (appendLua fuel (scriptKeys i ow) a) d =
        souts (storeLua fuel (scriptKeys i ow) a) d"
      by (auto simp: appendLua_def overQuota_def)
    then show ?thesis using res by simp
  qed
qed

end
