(* ===== verification/Store_Messages.thy ===== *)
theory Store_Messages
  imports Store_Log
begin

text \<open>
  What the message methods of the store do to a retained channel: append as a ring buffer,
  catch-up as a filter of the log, the sweep of expired messages.
\<close>

subsection \<open>Channel configuration\<close>

definition configIs :: "db \<Rightarrow> channel \<Rightarrow> bool" where
  "configIs d c \<longleftrightarrow> (\<exists>m. kv d (chKey (ch_id c)) = Some (RHash m) \<and> m \<noteq> [] \<and>
     distinct (List.map fst m) \<and> channelOf (ch_id c) m = c)"

lemma clean_send: "det c \<Longrightarrow> clean (send c k) d =
    clean (k (fst (cmdDoc c d))) (snd (cmdDoc c d))"
  by (auto simp: send_def souts_det)

lemma clean_andThen: "clean (andThen p f) d = (\<Union>(v, d')\<in>clean p d. clean (f v) d')"
proof (induction p arbitrary: d)
  case (Return v)
  then show ?case by simp
next
  case (Request sc k)
  then show ?case by (simp add: UN_UN_flatten case_prod_beta)
qed

lemma clean_GetChannel: "configIs d c \<Longrightarrow> clean (GetChannel (ch_id c)) d = {(Inr c, d)}"
  by (auto simp: GetChannel_def clean_send configIs_def cmdDoc.simps asHash_def)

lemma run_cleanE:
  assumes "redis_ok R" "link_up R" "clean p (r_db R s) = {(v, d)}"
  shows "fst (run R p s) = v \<and> r_db R (snd (run R p s)) = d"
  using run_clean [OF assms(1,2), of p s] assms(3) by simp

subsection \<open>Append\<close>

lemma clean_Append:
  assumes c: "configIs d c" "ch_retained c" and lg: "logIs d (ch_id c) L n"
    and ac: "ch_owner c \<noteq> '''' \<Longrightarrow> acctIs d (ch_owner c) ab"
    and r: "roomy (appendArgs c blob cap now) L n ab" and fuel: "Suc (length L) < fuel"
  shows "if overQuota (appendArgs c blob cap now) ab
    then clean (Append fuel now (ch_id c) blob cap) d = {(Inl ErrQuotaAcct, d)}
    else \<exists>d'. clean (Append fuel now (ch_id c) blob cap) d = {(Inr n, d')} \<and>
      logIs d' (ch_id c) (evict (ch_maxMsgs c) (ch_maxBytes c)
        (L @ [newEntry (appendArgs c blob cap now) n])) (n + 1) \<and>
      sameBut (logKeys (ch_id c) (ch_owner c)) d d' \<and>
      (ch_owner c \<noteq> '''' \<longrightarrow> acctIs d' (ch_owner c) (ab - bytesOf L +
        bytesOf (evict (ch_maxMsgs c) (ch_maxBytes c) (L @ [newEntry (appendArgs c blob cap now) n]))))"
proof -
  let ?a = "appendArgs c blob cap now"
  have ac': "acctIs d (ch_owner c) ab" if "a_hasOwner ?a"
    using ac that by (simp add: appendArgs_def)
  have caps: "a_maxMsgs ?a = ch_maxMsgs c" "a_maxBytes ?a = ch_maxBytes c"
      "a_hasOwner ?a \<longleftrightarrow> ch_owner c \<noteq> ''''"
    by (simp_all add: appendArgs_def)
  have eq: "clean (Append fuel now (ch_id c) blob cap) d =
      (\<lambda>(v, d'). (if isErr v \<or> v = RNil then Inl (RedisErr v)
         else if v = RStr ''QUOTA_ACCT'' then Inl ErrQuotaAcct
         else Inr (fst (toInt64 v)), d')) ` souts (appendLua fuel (scriptKeys (ch_id c) (ch_owner c)) ?a) d"
    using c by (auto simp: Append_def clean_andThen clean_GetChannel)
  note sc = append_script [OF lg ac' r fuel, unfolded caps]
  show ?thesis
  proof (cases "overQuota ?a ab")
    case True
    then show ?thesis using sc eq by simp
  next
    case False
    then obtain d' where "souts (appendLua fuel (scriptKeys (ch_id c) (ch_owner c)) ?a) d = {(RInt n, d')}"
      "logIs d' (ch_id c) (evict (ch_maxMsgs c) (ch_maxBytes c) (L @ [newEntry ?a n])) (n + 1)"
      "sameBut (logKeys (ch_id c) (ch_owner c)) d d'"
      "ch_owner c \<noteq> '''' \<longrightarrow> acctIs d' (ch_owner c) (ab + a_size ?a - (bytesOf L + a_size ?a -
         bytesOf (evict (ch_maxMsgs c) (ch_maxBytes c) (L @ [newEntry ?a n]))))"
      using sc by auto
    then show ?thesis using False eq by (auto simp: toInt64_def algebra_simps)
  qed
qed

text \<open>
  C2. Append is a ring buffer: it gives the message the channel's next sequence number and
  keeps the longest run of newest messages that is within the channel's caps, with the
  counters of the channel and of its owner in step, and touches nothing else; when the
  owner's byte quota would be exceeded it is refused and nothing changes. It returns, for
  any fuel beyond the length of the log.
\<close>
theorem append_ring_buffer:
  assumes "redis_ok R" "link_up R"
    and "configIs (r_db R s) c" "ch_retained c" "logIs (r_db R s) (ch_id c) L n"
    and "ch_owner c \<noteq> '''' \<longrightarrow> acctIs (r_db R s) (ch_owner c) ab"
    and "a = appendArgs c blob cap now" "roomy a L n ab" "Suc (length L) < fuel"
    and "run R (Append fuel now (ch_id c) blob cap) s = (res, s')"
  shows "if overQuota a ab then res = Inl ErrQuotaAcct \<and> r_db R s' = r_db R s
    else res = Inr n \<and> sameBut (logKeys (ch_id c) (ch_owner c)) (r_db R s) (r_db R s') \<and>
      (\<exists>k. logIs (r_db R s') (ch_id c) (drop k (L @ [newEntry a n])) (n + 1) \<and>
        fits (ch_maxMsgs c) (ch_maxBytes c) (drop k (L @ [newEntry a n])) \<and>
        (\<forall>j<k. \<not> fits (ch_maxMsgs c) (ch_maxBytes c) (drop j (L @ [newEntry a n]))) \<and>
        (ch_owner c \<noteq> '''' \<longrightarrow> acctIs (r_db R s') (ch_owner c)
          (ab - bytesOf L + bytesOf (drop k (L @ [newEntry a n])))))"
proof -
  note cl = clean_Append [OF assms(3,4,5) assms(6) [rule_format] assms(8) [unfolded assms(7)] assms(9),
      folded assms(7)]
  note out = run_clean [OF assms(1,2), of "Append fuel now (ch_id c) blob cap" s, unfolded assms(10) fst_conv snd_conv]
  show ?thesis
  proof (cases "overQuota a ab")
    case True
    then show ?thesis using cl out by simp
  next
    case False
    obtain k where "evict (ch_maxMsgs c) (ch_maxBytes c) (L @ [newEntry a n]) = drop k (L @ [newEntry a n])"
      "fits (ch_maxMsgs c) (ch_maxBytes c) (evict (ch_maxMsgs c) (ch_maxBytes c) (L @ [newEntry a n]))"
      "\<forall>j<k. \<not> fits (ch_maxMsgs c) (ch_maxBytes c) (drop j (L @ [newEntry a n]))"
      using evict_longest by blast
    with cl out False show ?thesis by auto
  qed
qed

text \<open>A concrete channel with one retained message and room for one.\<close>

definition exChannel :: channel where
  "exChannel = \<lparr>ch_id = ''c'', ch_owner = '''', ch_kauth = ''k'', ch_retained = True,
     ch_ttl = 0, ch_maxBytes = 0, ch_maxMsgs = 1\<rparr>"

definition exEntry :: entry where
  "exEntry = \<lparr>l_seq = 1, l_blob = ''abc'', l_exp = 0, l_size = 3\<rparr>"

definition exDb :: db where
  "exDb = put (chansSet) (RSet [''c''])
    (put (chKey ''c'') (RHash [(''owner'', ''''), (''k_auth'', ''k''), (''retained'', ''1''),
        (''ttl_sec'', itoa 0), (''max_bytes'', itoa 0), (''max_msgs'', itoa 1)])
    (put (chUsageKey ''c'') (RHash [(''bytes'', itoa 3), (''msgs'', itoa 1), (''next_seq'', itoa 2)])
    (put (chMsgsKey ''c'') (RStream [encEntry exEntry] (1, 1)) emptyDb)))"

lemma exDb_config: "configIs exDb exChannel"
  by (simp add: configIs_def exDb_def exChannel_def channelOf_def valueOf_def int64_def)

lemma exDb_log: "logIs exDb ''c'' [exEntry] 2"
  by (auto simp: logIs_def usageIs_def streamIs_def asStream_def exDb_def exEntry_def entriesOk_def
      exact_def intro!: exI [of _ "(1, 1)"])

theorem append_ring_buffer_witness:
  "fst (run exRedis (Append 3 100 ''c'' ''xy'' 0) exDb) = Inr 2"
proof -
  let ?a = "appendArgs exChannel ''xy'' 0 100"
  have c: "ch_id exChannel = ''c''" "ch_retained exChannel" "ch_owner exChannel = ''''"
    by (simp_all add: exChannel_def)
  have r: "roomy ?a [exEntry] 2 0"
    by (simp add: roomy_def appendArgs_def exChannel_def exEntry_def exact_def)
  obtain res s' where run: "run exRedis (Append 3 100 ''c'' ''xy'' 0) exDb = (res, s')"
    by (cases "run exRedis (Append 3 100 ''c'' ''xy'' 0) exDb")
  have "\<not> overQuota ?a 0" by (simp add: overQuota_def appendArgs_def exChannel_def)
  then show ?thesis
    using append_ring_buffer [OF exRedis_ok, of exDb exChannel "[exEntry]" 2 0 ?a "''xy''" 0 100 3 res s']
      exDb_config exDb_log r run c by (simp add: exRedis_def)
qed

subsection \<open>Catch-up\<close>

definition expired :: "int \<Rightarrow> entry \<Rightarrow> bool" where
  "expired now e \<longleftrightarrow> 0 < l_exp e \<and> l_exp e \<le> now"

definition msgOf :: "entry \<Rightarrow> storedMessage" where
  "msgOf e = \<lparr>m_seq = int (l_seq e), m_ciphertext = l_blob e\<rparr>"

lemma expOf_enc [simp]: "exact (l_exp e) \<Longrightarrow> expOf (snd (encEntry e)) = l_exp e"
  by (simp add: expOf_def encEntry_def valueOf_def)

lemma blobOf_enc [simp]: "valueOf (snd (encEntry e)) ''blob'' = l_blob e"
  by (simp add: encEntry_def valueOf_def)

lemma seqOfId_entryId [simp]: "int64 (int (l_seq e)) \<Longrightarrow> seqOfId (entryId e) = int (l_seq e)"
  using parseInt64_itoa [of "int (l_seq e)"]
  by (simp add: seqOfId_def entryId_def showSid_def takeWhile_showSid itoa_nat)

lemma entriesOk_member:
  "entriesOk L n \<Longrightarrow> exact n \<Longrightarrow> e \<in> set L \<Longrightarrow> exact (l_exp e) \<and> int64 (int (l_seq e))"
  by (auto simp: entriesOk_def exact_def int64_def abs_less_iff)

lemma liveMsgs_enc:
  "(\<And>e. e \<in> set L \<Longrightarrow> exact (l_exp e) \<and> int64 (int (l_seq e))) \<Longrightarrow>
   liveMsgs now (List.map (\<lambda>e. showEntry (encEntry e)) L) =
     List.map msgOf (filter (\<lambda>e. \<not> expired now e) L)"
  by (induction L) (auto simp: showEntry_enc expired_def msgOf_def)

lemma aboveStart_excl:
  assumes "0 \<le> q" "q < 2 ^ 63"
  shows "aboveStart (''('' @ itoa q @ ''-1'') = Some (\<lambda>j. (nat q, 1) < j)"
proof -
  have "parseSid (itoa q @ ''-1'') = Some (nat q, 1)"
    using parseSid_showSid [of "(nat q, 1)"] assms natDigits_1 by (simp add: showSid_def itoa_nat)
  then show ?thesis by (simp add: aboveStart_def hasPrefix_def)
qed

lemma clean_CatchUp:
  assumes lg: "logIs d i L n" and q: "0 \<le> q" "q < 2 ^ 63"
  shows "clean (CatchUp now i q limit) d =
    {(Inr (List.map msgOf (filter (\<lambda>e. \<not> expired now e)
        (take (nat limit) (filter (\<lambda>e. q < int (l_seq e)) L)))), d)}"
proof -
  from lg obtain lst where st: "asStream (kv d (chMsgsKey i)) = Some (List.map encEntry L, lst)"
    and ok: "entriesOk L n" "exact n" by (auto simp: logIs_def streamIs_def)
  have sel: "filter (\<lambda>e. (nat q, 1) < fst e) (List.map encEntry L) =
      List.map encEntry (filter (\<lambda>e. q < int (l_seq e)) L)"
    using q(1) by (auto simp: filter_map comp_def encEntry_def intro!: arg_cong [of _ _ "List.map _"] filter_cong)
  have "cmdDoc (XRange (chMsgsKey i) (''('' @ itoa q @ ''-1'') ''+'' (Some limit)) d =
      (REntries (List.map (\<lambda>e. showEntry (encEntry e))
         (take (nat limit) (filter (\<lambda>e. q < int (l_seq e)) L))), d)"
    unfolding cmdDoc.simps st using sel
    by (simp add: aboveStart_excl [OF q, simplified] belowEnd_def take_map)
  moreover have "liveMsgs now (List.map (\<lambda>e. showEntry (encEntry e))
        (take (nat limit) (filter (\<lambda>e. q < int (l_seq e)) L))) =
      List.map msgOf (filter (\<lambda>e. \<not> expired now e)
        (take (nat limit) (filter (\<lambda>e. q < int (l_seq e)) L)))"
    by (rule liveMsgs_enc) (auto dest!: in_set_takeD intro!: entriesOk_member [OF ok])
  ultimately show ?thesis by (simp add: CatchUp_def clean_send)
qed

text \<open>
  C31. Catch-up returns exactly the retained messages after the cursor that have not expired,
  in sequence order, taken from the first \<open>limit\<close> entries after the cursor, and changes
  nothing.
\<close>
theorem catch_up_exact:
  assumes "redis_ok R" "link_up R" "logIs (r_db R s) i L n" "0 \<le> q" "q < 2 ^ 63"
  shows "fst (run R (CatchUp now i q limit) s) =
      Inr (List.map msgOf (filter (\<lambda>e. \<not> expired now e)
        (take (nat limit) (filter (\<lambda>e. q < int (l_seq e)) L)))) \<and>
    r_db R (snd (run R (CatchUp now i q limit) s)) = r_db R s"
  by (rule run_cleanE [OF assms(1,2) clean_CatchUp [OF assms(3-5)]])

theorem catch_up_exact_witness:
  "fst (run exRedis (CatchUp 50 ''c'' 0 1000) exDb) =
     Inr [\<lparr>m_seq = 1, m_ciphertext = ''abc''\<rparr>]"
  using catch_up_exact [OF exRedis_ok, of exDb "''c''" "[exEntry]" 2 0 50 1000] exDb_log
  by (simp add: exRedis_def exEntry_def msgOf_def expired_def)

text \<open>
  Expired messages that the sweep has not deleted yet use up the limit: when the first
  \<open>limit\<close> messages after the cursor have expired, catch-up returns nothing, however many
  unexpired messages follow.
\<close>
theorem catch_up_starved:
  assumes "redis_ok R" "link_up R" "logIs (r_db R s) i (L @ M) n"
    and "\<forall>e\<in>set L. expired now e" "nat limit \<le> length L"
  shows "fst (run R (CatchUp now i 0 limit) s) = Inr []"
proof -
  have "int (l_seq e) > 0" if "e \<in> set (L @ M)" for e
    using assms(3) that by (auto simp: logIs_def entriesOk_def)
  then have "filter (\<lambda>e. 0 < int (l_seq e)) (L @ M) = L @ M" by (simp add: filter_id_conv)
  moreover have "filter (\<lambda>e. \<not> expired now e) (take (nat limit) L) = []"
    using assms(4) by (auto simp: filter_empty_conv dest: in_set_takeD)
  ultimately show ?thesis
    using run_cleanE [OF assms(1,2) clean_CatchUp [OF assms(3), of 0 now limit]] assms(5) by simp
qed

definition exEntries :: "entry list" where
  "exEntries = [\<lparr>l_seq = 1, l_blob = ''old'', l_exp = 10, l_size = 3\<rparr>,
     \<lparr>l_seq = 2, l_blob = ''new'', l_exp = 90, l_size = 3\<rparr>]"

definition exDb2 :: db where
  "exDb2 = put chansSet (RSet [''c''])
    (put (chUsageKey ''c'') (RHash [(''bytes'', itoa 6), (''msgs'', itoa 2), (''next_seq'', itoa 3)])
    (put (chMsgsKey ''c'') (RStream (List.map encEntry exEntries) (2, 1)) emptyDb))"

lemma exDb2_log: "logIs exDb2 ''c'' exEntries 3"
  by (auto simp: logIs_def usageIs_def streamIs_def asStream_def exDb2_def exEntries_def entriesOk_def
      exact_def intro!: exI [of _ "(2, 1)"])

theorem catch_up_starved_witness:
  "fst (run exRedis (CatchUp 50 ''c'' 0 1) exDb2) = Inr []"
  using catch_up_starved [OF exRedis_ok, of exDb2 "''c''" "[exEntries ! 0]" "[exEntries ! 1]" 3 50 1]
    exDb2_log by (simp add: exRedis_def exEntries_def expired_def)

subsection \<open>Resuming from a cursor\<close>

definition storedLog :: "string \<Rightarrow> db \<Rightarrow> storedMessage list" where
  "storedLog i d = (case asStream (kv d (chMsgsKey i)) of None \<Rightarrow> []
     | Some (es, lst) \<Rightarrow> List.map (\<lambda>(j, fs). \<lparr>m_seq = int (fst j), m_ciphertext = valueOf fs ''blob''\<rparr>) es)"

text \<open>A reader's situation: the Redis, the clock, the channel and the state.\<close>

type_synonym 'r reader = "'r redis \<times> int \<times> string \<times> 'r"

definition readable :: "'r reader \<Rightarrow> bool" where
  "readable x = (case x of (R, now, i, s) \<Rightarrow> redis_ok R \<and> link_up R \<and>
     (\<exists>L n. logIs (r_db R s) i L n \<and> (\<forall>e\<in>set L. \<not> expired now e)))"

definition readLog :: "'r reader \<Rightarrow> storedMessage list" where
  "readLog x = (case x of (R, now, i, s) \<Rightarrow> storedLog i (r_db R s))"

definition readPage :: "int \<Rightarrow> nat \<Rightarrow> 'r reader \<Rightarrow> storedMessage list \<times> 'r reader" where
  "readPage q k x = (case x of (R, now, i, s) \<Rightarrow>
     (case run R (CatchUp now i q (int k)) s of (res, s') \<Rightarrow>
        (case res of Inl e \<Rightarrow> [] | Inr ms \<Rightarrow> ms, (R, now, i, s'))))"

lemma storedLog_log: "logIs d i L n \<Longrightarrow> storedLog i d = List.map msgOf L"
  by (auto simp: logIs_def streamIs_def storedLog_def encEntry_def msgOf_def valueOf_def)

lemma readPage_eq:
  assumes "redis_ok R" "link_up R" "logIs (r_db R s) i L n" "\<forall>e\<in>set L. \<not> expired now e"
    and q: "0 \<le> q" "q < 2 ^ 63"
  shows "fst (readPage q k (R, now, i, s)) = take k (filter (\<lambda>m. q < m_seq m) (List.map msgOf L)) \<and>
    (\<exists>s'. snd (readPage q k (R, now, i, s)) = (R, now, i, s') \<and> r_db R s' = r_db R s)"
proof -
  have "filter (\<lambda>e. \<not> expired now e) (take k (filter (\<lambda>e. q < int (l_seq e)) L)) =
      take k (filter (\<lambda>e. q < int (l_seq e)) L)"
    using assms(4) by (auto simp: filter_id_conv dest!: in_set_takeD)
  moreover have "take k (filter (\<lambda>m. q < m_seq m) (List.map msgOf L)) =
      List.map msgOf (take k (filter (\<lambda>e. q < int (l_seq e)) L))"
    by (simp add: filter_map comp_def msgOf_def take_map)
  ultimately show ?thesis
    using run_cleanE [OF assms(1,2) clean_CatchUp [OF assms(3) q, of now "int k"]]
    by (auto simp: readPage_def split: prod.splits)
qed

interpretation ml: message_log readable readLog m_seq readPage
proof
  fix x :: "'r reader" and q :: int and k :: nat and m :: storedMessage
  assume "readable x"
  then obtain R now i s L n where x: "x = (R, now, i, s)"
    and R: "redis_ok R" "link_up R" and L: "logIs (r_db R s) i L n" "\<forall>e\<in>set L. \<not> expired now e"
    by (cases x) (auto simp: readable_def)
  have log: "readLog x = List.map msgOf L" by (simp add: x readLog_def storedLog_log [OF L(1)])
  have ok: "entriesOk L n" "exact n" using L(1) by (auto simp: logIs_def)
  then show "sorted_wrt (<) (List.map m_seq (readLog x))"
    by (simp add: log entriesOk_def msgOf_def comp_def sorted_wrt_map)
  show "0 \<le> m_seq m \<and> m_seq m < 2 ^ 63" if "m \<in> set (readLog x)"
    using that entriesOk_member [OF ok] by (auto simp: log msgOf_def int64_def)
  assume q: "0 \<le> q" "q < 2 ^ 63"
  note eq = readPage_eq [OF R L q, of k, folded x]
  show "fst (readPage q k x) = take k (filter (\<lambda>m. q < m_seq m) (readLog x))" using eq log by simp
  from eq obtain s' where s': "snd (readPage q k x) = (R, now, i, s')" "r_db R s' = r_db R s" by blast
  show "readable (snd (readPage q k x))" unfolding s' readable_def using s'(2) R L by (simp, blast)
  show "readLog (snd (readPage q k x)) = readLog x" using s' by (simp add: readLog_def x)
qed



end
