(* ===== verification/Store_Sweep.thy ===== *)
theory Store_Sweep
  imports Store_Messages "HOL-Library.Multiset"
begin

text \<open>
  The sweep of expired messages: what \<open>PruneExpired\<close> does to every channel and to the
  accounts that own them.
\<close>

definition due :: "int \<Rightarrow> entry \<Rightarrow> bool" where
  "due now e \<longleftrightarrow> l_exp e \<noteq> 0 \<and> l_exp e \<le> now"

definition ownerOf :: "db \<Rightarrow> string \<Rightarrow> string" where
  "ownerOf d i = strReply (fst (cmdDoc (HGet (chKey i) ''owner'') d))"

definition dueBytes :: "int \<Rightarrow> entry list \<Rightarrow> int" where
  "dueBytes now L = bytesOf (filter (due now) L)"

definition dueCount :: "int \<Rightarrow> entry list \<Rightarrow> int" where
  "dueCount now L = int (length (filter (due now) L))"

lemma snd_HGet [simp]: "snd (cmdDoc (HGet k f) d) = d"
  by (simp add: cmdDoc.simps split: option.splits)

lemma ownerOf_frame: "sameBut S d d' \<Longrightarrow> chKey i \<notin> S \<Longrightarrow> ownerOf d' i = ownerOf d i"
  by (simp add: ownerOf_def cmdDoc.simps sameBut_def split: option.splits)

lemma usage_msgs_distinct [simp]: "chUsageKey i \<noteq> chMsgsKey j" "chMsgsKey j \<noteq> chUsageKey i"
proof -
  show "chUsageKey i \<noteq> chMsgsKey j"
    using arg_cong [of "chUsageKey i" "chMsgsKey j" rev]
    by (auto simp: chUsageKey_def chMsgsKey_def)
  then show "chMsgsKey j \<noteq> chUsageKey i" by metis
qed

lemma logIs_frame:
  "sameBut S d d' \<Longrightarrow> chUsageKey i \<notin> S \<Longrightarrow> chMsgsKey i \<notin> S \<Longrightarrow> logIs d' i L n = logIs d i L n"
  by (simp add: logIs_def usageIs_def streamIs_def sameBut_def)

lemma logIs_drop_entry:
  assumes "logIs d i (K @ e # L) n"
  shows "entriesOk (K @ L) n" "exact (bytesOf (K @ L))" "exact (int (length (K @ L)))" "exact (l_size e)"
proof -
  from assms have ok: "entriesOk (K @ e # L) n" by (simp add: logIs_def)
  then show ok': "entriesOk (K @ L) n" by (auto simp: entriesOk_def sorted_wrt_append)
  have "0 \<le> l_size e" "0 \<le> bytesOf (K @ L)"
    using ok bytesOf_nonneg [OF ok'] by (auto simp: entriesOk_def)
  then show "exact (bytesOf (K @ L))" "exact (int (length (K @ L)))" "exact (l_size e)"
    using assms by (auto simp: logIs_def exact_def)
qed

lemma prune_entry:
  assumes lg: "logIs d i (K @ e # L) n" and due: "due now e" and ow: "ownerOf d i = ow"
    and ac: "ow \<noteq> '''' \<Longrightarrow> acctIs d ow a \<and> int64 (a - l_size e)"
  shows "\<exists>d'. clean (pruneEntries now i (showEntry (encEntry e) # es) p) d =
        clean (pruneEntries now i es (p + 1)) d' \<and>
      logIs d' i (K @ L) n \<and> (ow \<noteq> '''' \<longrightarrow> acctIs d' ow (a - l_size e)) \<and>
      sameBut (logKeys i ow) d d'"
proof -
  from lg obtain lst where u: "usageIs d i (bytesOf (K @ e # L)) (int (length (K @ e # L))) n"
    and st: "streamIs d i (K @ e # L) lst" "lst < (nat n, 1)" and ok: "entriesOk (K @ e # L) n"
    and n: "0 < n" "exact n" and ex: "exact (bytesOf (K @ e # L))" "exact (int (length (K @ e # L)))"
    unfolding logIs_def by blast
  note new = logIs_drop_entry [OF lg]
  have exp: "expOf (snd (encEntry e)) = l_exp e" "parseInt64 (valueOf (snd (encEntry e)) ''size'') = l_size e"
    using entriesOk_member [OF ok n(2), of e] new(4) by (simp_all add: encEntry_def valueOf_def expOf_def)
  have wr: "wrap64 (- l_size e) = - l_size e"
    using new(4) by (intro wrap64_id) (auto simp: exact_def int64_def abs_less_iff)
  define d1 where "d1 = effect (XDel (chMsgsKey i) (entryId e)) d"
  define d2 where "d2 = effect (HIncrBy (chUsageKey i) ''bytes'' (- l_size e)) d1"
  define d3 where "d3 = effect (HIncrBy (chUsageKey i) ''msgs'' (- 1)) d2"
  define d4 where "d4 = effect (HIncrBy (acctUsageKey ow) ''bytes'' (- l_size e)) d3"
  note xd = XDel_entry [OF st(1) ok n(2), folded d1_def]
  have u1: "usageIs d1 i (bytesOf (K @ e # L)) (int (length (K @ e # L))) n"
    using u usageIs_frame [OF xd(3)] by simp
  have u2: "usageIs d2 i (bytesOf (K @ L)) (int (length (K @ e # L))) n"
    using HIncrBy_usage(1) [OF u1, of "- l_size e"] ex new by (simp add: d2_def)
  have f2: "sameBut {chUsageKey i} d1 d2" unfolding d2_def by (rule HIncrBy_frame)
  have u3: "usageIs d3 i (bytesOf (K @ L)) (int (length (K @ L))) n"
    using HIncrBy_usage(2) [OF u2, of "- 1"] ex new by (simp add: d3_def)
  have f3: "sameBut {chUsageKey i} d2 d3" unfolding d3_def by (rule HIncrBy_frame)
  have f4: "sameBut {acctUsageKey ow} d3 d4" unfolding d4_def by (rule HIncrBy_frame)
  have s3: "streamIs d3 i (K @ L) lst"
    using xd(2) streamIs_frame [OF f2] streamIs_frame [OF f3] by simp
  have l3: "logIs d3 i (K @ L) n"
    unfolding logIs_def using u3 s3 st(2) new(1-3) n by (intro conjI exI [of _ lst])
  have l4: "logIs d4 i (K @ L) n" using l3 logIs_frame [OF f4] by simp
  have fr: "sameBut (logKeys i ow) d d3" "sameBut (logKeys i ow) d d4"
    using xd(3) f2 f3 f4 by (auto simp: sameBut_def logKeys_def)
  have a4: "acctIs d4 ow (a - l_size e)" if "ow \<noteq> ''''"
  proof -
    have "acctIs d3 ow a"
      using ac that acctIs_frame [OF xd(3)] acctIs_frame [OF f2] acctIs_frame [OF f3] by simp
    from HIncrBy_acct [OF this, of "- l_size e"] show ?thesis using ac that by (simp add: d4_def)
  qed
  have o3: "strReply (fst (cmdDoc (HGet (chKey i) ''owner'') d3)) = ow"
    using ownerOf_frame [OF fr(1), of i] ow by (simp add: ownerOf_def logKeys_def)
  have "clean (pruneEntries now i (showEntry (encEntry e) # es) p) d =
      clean (pruneEntries now i es (p + 1)) (if ow \<noteq> '''' then d4 else d3)"
    using due xd(1) o3
    by (auto simp: showEntry_enc exp wr due_def clean_send Let_def intReply_def simp flip: d1_def d2_def d3_def d4_def)
  then show ?thesis
    using l3 l4 a4 fr by (intro exI [of _ "if ow \<noteq> '''' then d4 else d3"]) auto
qed

lemma prune_skip:
  assumes "logIs d i (K @ e # L) n" "\<not> due now e"
  shows "pruneEntries now i (showEntry (encEntry e) # es) p = pruneEntries now i es p"
proof -
  have "exact (l_exp e)" using assms(1) by (auto simp: logIs_def entriesOk_def)
  then show ?thesis using assms(2) by (auto simp: showEntry_enc due_def)
qed

lemma due_simps [simp]:
  "dueBytes now [] = 0" "dueCount now [] = 0"
  "dueBytes now (e # L) = (if due now e then l_size e else 0) + dueBytes now L"
  "dueCount now (e # L) = (if due now e then 1 else 0) + dueCount now L"
  by (simp_all add: dueBytes_def dueCount_def)

lemma dueBytes_nonneg: "entriesOk L n \<Longrightarrow> 0 \<le> dueBytes now L"
  by (auto simp: entriesOk_def dueBytes_def bytesOf_def intro!: sum_list_nonneg)

lemma prune_entries:
  assumes "logIs d i (K @ L) n" "ownerOf d i = ow"
    and "ow \<noteq> '''' \<Longrightarrow> acctIs d ow a \<and> int64 a \<and> int64 (a - dueBytes now L)"
  shows "\<exists>d'. clean (pruneEntries now i (List.map (\<lambda>e. showEntry (encEntry e)) L) p) d =
        {(p + dueCount now L, d')} \<and>
      logIs d' i (K @ filter (\<lambda>e. \<not> due now e) L) n \<and>
      (ow \<noteq> '''' \<longrightarrow> acctIs d' ow (a - dueBytes now L)) \<and> sameBut (logKeys i ow) d d'"
  using assms
proof (induction L arbitrary: K d a p)
  case Nil
  then show ?case by auto
next
  case (Cons e L)
  show ?case
  proof (cases "due now e")
    case False
    have "logIs d i ((K @ [e]) @ L) n" using Cons.prems(1) by simp
    from Cons.IH [OF this Cons.prems(2), of a p] Cons.prems(3) False
    show ?thesis using prune_skip [OF Cons.prems(1) False] by auto
  next
    case True
    have "entriesOk (e # L) n"
      using Cons.prems(1) by (auto simp: logIs_def entriesOk_def sorted_wrt_append)
    then have nonneg: "0 \<le> l_size e" "0 \<le> dueBytes now L"
      using dueBytes_nonneg [OF entriesOk_tl] by (auto simp: entriesOk_def)
    have a: "acctIs d ow a \<and> int64 (a - l_size e)" "int64 (a - l_size e - dueBytes now L)" if "ow \<noteq> ''''"
      using Cons.prems(3) [OF that] nonneg True by (auto simp: int64_def)
    from prune_entry [OF Cons.prems(1) True Cons.prems(2) a(1),
        of "List.map (\<lambda>e. showEntry (encEntry e)) L" p]
    obtain d1 where d1: "clean (pruneEntries now i (List.map (\<lambda>e. showEntry (encEntry e)) (e # L)) p) d =
          clean (pruneEntries now i (List.map (\<lambda>e. showEntry (encEntry e)) L) (p + 1)) d1"
        "logIs d1 i (K @ L) n" "ow \<noteq> '''' \<longrightarrow> acctIs d1 ow (a - l_size e)" "sameBut (logKeys i ow) d d1"
      by auto
    have "ownerOf d1 i = ow" using ownerOf_frame [OF d1(4), of i] Cons.prems(2) by (simp add: logKeys_def)
    from Cons.IH [OF d1(2) this, of "a - l_size e" "p + 1"] d1(3) a
    obtain d2 where "clean (pruneEntries now i (List.map (\<lambda>e. showEntry (encEntry e)) L) (p + 1)) d1 =
          {(p + 1 + dueCount now L, d2)}" "logIs d2 i (K @ filter (\<lambda>e. \<not> due now e) L) n"
        "ow \<noteq> '''' \<longrightarrow> acctIs d2 ow (a - l_size e - dueBytes now L)" "sameBut (logKeys i ow) d1 d2"
      by auto
    then show ?thesis
      using d1(1) sameBut_trans [OF d1(4)] True by (auto simp: algebra_simps)
  qed
qed

subsection \<open>All channels\<close>

text \<open>Channel ids none of which names a key of another (\<open>x:usage\<close> next to \<open>x\<close>, say).\<close>

definition plainIds :: "string set \<Rightarrow> bool" where
  "plainIds ids \<longleftrightarrow> (\<forall>i\<in>ids. \<forall>j\<in>ids. chKey i \<noteq> chMsgsKey j \<and> chKey i \<noteq> chUsageKey j)"

definition sweepKeys :: "(string \<Rightarrow> string) \<Rightarrow> string list \<Rightarrow> string set" where
  "sweepKeys own ids = (\<Union>i\<in>set ids. logKeys i (own i))"

definition sweepOk :: "db \<Rightarrow> string list \<Rightarrow> (string \<Rightarrow> entry list) \<Rightarrow> (string \<Rightarrow> int) \<Rightarrow> (string \<Rightarrow> string) \<Rightarrow> bool" where
  "sweepOk d ids Lf nf own \<longleftrightarrow> distinct ids \<and> plainIds (set ids) \<and>
     (\<forall>i\<in>set ids. logIs d i (Lf i) (nf i) \<and> ownerOf d i = own i)"

definition owedBy :: "int \<Rightarrow> (string \<Rightarrow> entry list) \<Rightarrow> (string \<Rightarrow> string) \<Rightarrow> string \<Rightarrow> string list \<Rightarrow> int" where
  "owedBy now Lf own ow ids = (\<Sum>i\<leftarrow>ids. if own i = ow then dueBytes now (Lf i) else 0)"

lemma acctKey_in_sweep: "acctUsageKey ow \<in> sweepKeys own ids \<longleftrightarrow> ow \<in> own ` set ids"
  by (auto simp: sweepKeys_def logKeys_def)

lemma log_not_in_sweep: "i \<notin> set ids \<Longrightarrow> chUsageKey i \<notin> sweepKeys own ids \<and> chMsgsKey i \<notin> sweepKeys own ids"
  by (auto simp: sweepKeys_def logKeys_def)

lemma XRange_all:
  assumes "logIs d i L n"
  shows "cmdDoc (XRange (chMsgsKey i) ''-'' ''+'' None) d =
    (REntries (List.map (\<lambda>e. showEntry (encEntry e)) L), d)"
  using assms by (auto simp: logIs_def streamIs_def cmdDoc.simps aboveStart_def belowEnd_def)

lemma owedBy_nonneg:
  "(\<And>i. i \<in> set ids \<Longrightarrow> 0 \<le> dueBytes now (Lf i)) \<Longrightarrow> 0 \<le> owedBy now Lf own ow ids"
  by (induction ids) (auto simp: owedBy_def)

lemma prune_loop:
  assumes "sweepOk d ids Lf nf own"
    and "\<And>i. i \<in> set ids \<Longrightarrow> own i \<noteq> '''' \<Longrightarrow> acctIs d (own i) (A (own i)) \<and> int64 (A (own i)) \<and>
      int64 (A (own i) - owedBy now Lf own (own i) ids)"
  shows "\<exists>d'. clean (pruneLoop now ids p) d = {(p + (\<Sum>i\<leftarrow>ids. dueCount now (Lf i)), d')} \<and>
      (\<forall>i\<in>set ids. logIs d' i (filter (\<lambda>e. \<not> due now e) (Lf i)) (nf i) \<and>
        (own i \<noteq> '''' \<longrightarrow> acctIs d' (own i) (A (own i) - owedBy now Lf own (own i) ids))) \<and>
      sameBut (sweepKeys own ids) d d'"
  using assms
proof (induction ids arbitrary: d A p)
  case Nil
  then show ?case by (auto simp: sweepKeys_def)
next
  case (Cons i ids)
  let ?x = "dueBytes now (Lf i)"
  have ok: "logIs d i (Lf i) (nf i)" "ownerOf d i = own i" "i \<notin> set ids"
    using Cons.prems(1) by (auto simp: sweepOk_def)
  have nonneg: "0 \<le> dueBytes now (Lf j)" if "j \<in> set (i # ids)" for j
    using Cons.prems(1) that by (auto simp: sweepOk_def logIs_def intro: dueBytes_nonneg)
  have rest: "0 \<le> owedBy now Lf own ow ids" for ow by (rule owedBy_nonneg) (use nonneg in auto)
  have owed: "owedBy now Lf own ow (i # ids) = (if own i = ow then ?x else 0) + owedBy now Lf own ow ids" for ow
    by (simp add: owedBy_def)
  have ac: "acctIs d (own i) (A (own i)) \<and> int64 (A (own i)) \<and> int64 (A (own i) - ?x)" if "own i \<noteq> ''''"
    using Cons.prems(2) [of i] that nonneg [of i] rest [of "own i"] owed by (auto simp: int64_def)
  have lgi: "logIs d i ([] @ Lf i) (nf i)" using ok(1) by simp
  from prune_entries [OF lgi ok(2) ac, of p]
  obtain d1 where d1: "clean (pruneEntries now i (List.map (\<lambda>e. showEntry (encEntry e)) (Lf i)) p) d =
        {(p + dueCount now (Lf i), d1)}"
      "logIs d1 i (filter (\<lambda>e. \<not> due now e) (Lf i)) (nf i)"
      "own i \<noteq> '''' \<longrightarrow> acctIs d1 (own i) (A (own i) - ?x)" "sameBut (logKeys i (own i)) d d1"
    by auto
  have keys: "chUsageKey j \<notin> logKeys i (own i)" "chMsgsKey j \<notin> logKeys i (own i)"
      "chKey j \<notin> logKeys i (own i)" if "j \<in> set ids" for j
    using ok(3) that Cons.prems(1) by (auto simp: logKeys_def sweepOk_def plainIds_def)
  have sw: "sweepOk d1 ids Lf nf own"
    using Cons.prems(1) logIs_frame [OF d1(4)] ownerOf_frame [OF d1(4)] keys
    by (auto simp: sweepOk_def plainIds_def)
  define B where "B = (if own i \<noteq> '''' then A(own i := A (own i) - ?x) else A)"
  have acB: "acctIs d1 (own j) (B (own j)) \<and> int64 (B (own j)) \<and>
      int64 (B (own j) - owedBy now Lf own (own j) ids)" if j: "j \<in> set ids" "own j \<noteq> ''''" for j
  proof (cases "own j = own i")
    case True
    then show ?thesis using d1(3) ac Cons.prems(2) [of i] owed j(2) by (auto simp: B_def algebra_simps)
  next
    case False
    have "acctIs d1 (own j) (A (own j))"
      using Cons.prems(2) [of j] j acctIs_frame [OF d1(4), of "own j"] False by (auto simp: logKeys_def)
    then show ?thesis using Cons.prems(2) [of j] j owed False by (auto simp: B_def)
  qed
  obtain d2 where d2:
      "clean (pruneLoop now ids (p + dueCount now (Lf i))) d1 =
        {(p + dueCount now (Lf i) + (\<Sum>i\<leftarrow>ids. dueCount now (Lf i)), d2)}"
      "\<And>j. j \<in> set ids \<Longrightarrow> logIs d2 j (filter (\<lambda>e. \<not> due now e) (Lf j)) (nf j) \<and>
        (own j \<noteq> '''' \<longrightarrow> acctIs d2 (own j) (B (own j) - owedBy now Lf own (own j) ids))"
      "sameBut (sweepKeys own ids) d1 d2"
  proof (rule exE [OF Cons.IH [of d1 B "p + dueCount now (Lf i)", OF sw]], goal_cases)
    case (1 j)
    show ?case using 1(2,3) by (rule acB)
  next
    case (2 d2)
    from 2(2) show thesis by (elim conjE) (rule 2(1), assumption, drule bspec, assumption+)
  qed
  have li: "logIs d2 i (filter (\<lambda>e. \<not> due now e) (Lf i)) (nf i)"
    using d1(2) logIs_frame [OF d2(3)] log_not_in_sweep [OF ok(3)] by simp
  have ai: "acctIs d2 (own i) (A (own i) - owedBy now Lf own (own i) (i # ids))" if "own i \<noteq> ''''"
  proof (cases "own i \<in> own ` set ids")
    case True
    then obtain j where j: "j \<in> set ids" "own j = own i" by auto
    then show ?thesis using d2(2) [OF j(1)] that owed by (auto simp: B_def algebra_simps)
  next
    case False
    have zero: "owedBy now Lf own (own i) ids = 0"
      using False by (induction ids) (auto simp: owedBy_def)
    have "acctIs d2 (own i) (A (own i) - ?x)"
      using d1(3) that acctIs_frame [OF d2(3)] False acctKey_in_sweep by simp
    then show ?thesis using zero owed by simp
  qed
  have aj: "own j \<noteq> '''' \<longrightarrow> acctIs d2 (own j) (A (own j) - owedBy now Lf own (own j) (i # ids))"
    if "j \<in> set ids" for j
    using d2(2) [OF that] owed
    by (cases "own j = own i") (auto simp: B_def algebra_simps split: if_splits)
  have fr: "sameBut (sweepKeys own (i # ids)) d d2"
    using d1(4) d2(3) by (auto simp: sameBut_def sweepKeys_def)
  have "clean (pruneLoop now (i # ids) p) d =
      {(p + (\<Sum>i\<leftarrow>(i # ids). dueCount now (Lf i)), d2)}"
    using d1(1) d2(1) by (simp add: clean_send clean_andThen XRange_all [OF ok(1)] algebra_simps)
  then show ?case using li ai aj d2(2) fr by auto
qed

text \<open>
  C20. The sweep deletes exactly the messages past their expiry, in every channel, in whatever
  order Redis lists the channels; each channel's counters stay those of its log, each
  owner's byte count drops by exactly the bytes its channels lost, and the result is the
  number of messages deleted.
\<close>
theorem prune_exact:
  assumes "redis_ok R" "link_up R" and "asSet (kv (r_db R s) chansSet) = Some ids"
    and "sweepOk (r_db R s) ids Lf nf own"
    and "\<forall>i\<in>set ids. own i \<noteq> '''' \<longrightarrow> acctIs (r_db R s) (own i) (A (own i)) \<and> int64 (A (own i)) \<and>
      int64 (A (own i) - owedBy now Lf own (own i) ids)"
    and "run R (PruneExpired now) s = (res, s')"
  shows "res = Inr (\<Sum>i\<leftarrow>ids. dueCount now (Lf i)) \<and>
    (\<forall>i\<in>set ids. logIs (r_db R s') i (filter (\<lambda>e. \<not> due now e) (Lf i)) (nf i) \<and>
      (own i \<noteq> '''' \<longrightarrow> acctIs (r_db R s') (own i) (A (own i) - owedBy now Lf own (own i) ids)))"
proof -
  let ?d = "r_db R s"
  have dist: "distinct ids" using assms(4) by (simp add: sweepOk_def)
  have "(res, r_db R s') \<in> clean (PruneExpired now) ?d"
    using run_clean [OF assms(1,2), of "PruneExpired now" s] assms(6) by simp
  then obtain xs where xs: "set xs = set ids" "distinct xs"
    and m: "(res, r_db R s') \<in> clean (andThen (pruneLoop now xs 0) (\<lambda>n. Return (Inr n))) ?d"
    using assms(3) by (auto simp: PruneExpired_def send_def souts.simps(2) docs_def)
  have perm: "mset xs = mset ids" using xs dist by (simp add: set_eq_iff_mset_eq_distinct)
  have sum: "(\<Sum>i\<leftarrow>xs. f i) = (\<Sum>i\<leftarrow>ids. f i)" for f :: "string \<Rightarrow> int"
    using perm by (metis mset_map sum_mset_sum_list)
  have ok: "sweepOk ?d xs Lf nf own" using assms(4) xs by (simp add: sweepOk_def)
  have ow: "owedBy now Lf own w xs = owedBy now Lf own w ids" for w by (simp add: owedBy_def sum)
  have "\<exists>d'. clean (pruneLoop now xs 0) ?d = {(0 + (\<Sum>i\<leftarrow>xs. dueCount now (Lf i)), d')} \<and>
      (\<forall>i\<in>set xs. logIs d' i (filter (\<lambda>e. \<not> due now e) (Lf i)) (nf i) \<and>
        (own i \<noteq> '''' \<longrightarrow> acctIs d' (own i) (A (own i) - owedBy now Lf own (own i) xs))) \<and>
      sameBut (sweepKeys own xs) ?d d'"
    by (rule prune_loop [OF ok]) (use assms(5) xs(1) ow in auto)
  then show ?thesis using m xs(1) by (auto simp: clean_andThen sum ow)
qed

definition exLogs :: "string \<Rightarrow> entry list" where
  "exLogs i = (if i = ''c'' then exEntries else [])"

theorem prune_exact_witness:
  "fst (run exRedis (PruneExpired 50) exDb2) = Inr 1"
proof -
  obtain res s' where r: "run exRedis (PruneExpired 50) exDb2 = (res, s')"
    by (cases "run exRedis (PruneExpired 50) exDb2")
  have own: "ownerOf exDb2 ''c'' = ''''"
    by (simp add: ownerOf_def cmdDoc.simps exDb2_def emptyDb_def asHash_def optReply_def strReply_def)
  have "sweepOk exDb2 [''c''] exLogs (\<lambda>_. 3) (\<lambda>_. '''')"
    using exDb2_log own by (simp add: sweepOk_def plainIds_def exLogs_def)
  with prune_exact [OF exRedis_ok, of exDb2 "[''c'']" exLogs "\<lambda>_. 3" "\<lambda>_. ''''" "\<lambda>_. 0" 50 res s'] r
  show ?thesis
    by (simp add: exRedis_def exDb2_def asSet_def exLogs_def exEntries_def due_def)
qed

end
