(* ===== verification/Store_Channels.thy ===== *)
theory Store_Channels
  imports Store_Messages
begin

text \<open>
  Accounts, channels and grant tickets in the store: what creation does on every branch, that
  a ticket creates one channel with the policy the administrator chose, and that a spent
  ticket stays spent under any interleaving of store operations over a lossy link.
\<close>

subsection \<open>Creating a channel\<close>

definition chanCount :: "db \<Rightarrow> string \<Rightarrow> int \<Rightarrow> bool" where
  "chanCount d ow n \<longleftrightarrow> (\<exists>m. asHash (kv d (acctUsageKey ow)) = Some m \<and>
     intField (map_of m ''channels'') = Some n)"

definition capOf :: "int \<Rightarrow> int" where
  "capOf c = (if c \<le> 0 then 2 ^ 30 else c)"

text \<open>No key of the channel is in use yet, and the set of channels is one.\<close>

definition vacant :: "db \<Rightarrow> string \<Rightarrow> bool" where
  "vacant d i \<longleftrightarrow> kv d (chUsageKey i) = None \<and> kv d (chMsgsKey i) = None \<and>
     asSet (kv d chansSet) \<noteq> None"

definition policyOk :: "channel \<Rightarrow> bool" where
  "policyOk c \<longleftrightarrow> int64 (ch_ttl c) \<and> int64 (ch_maxBytes c) \<and> int64 (ch_maxMsgs c)"

definition channelsIn :: "db \<Rightarrow> string set" where
  "channelsIn d = (case asSet (kv d chansSet) of None \<Rightarrow> {} | Some ms \<Rightarrow> set ms)"

definition fieldsOf :: "channel \<Rightarrow> string \<Rightarrow> fields" where
  "fieldsOf c t = configFields (ch_owner c) (ch_kauth c) (boolStr (ch_retained c)) (itoa (ch_ttl c))
     (itoa (ch_maxBytes c)) (itoa (ch_maxMsgs c)) t"

lemma boolStr_eq [simp]: "boolStr b = ''1'' \<longleftrightarrow> b"
  by (simp add: boolStr_def)

lemma channelOf_fields: "policyOk c \<Longrightarrow> channelOf (ch_id c) (fieldsOf c t) = c"
  by (simp add: channelOf_def fieldsOf_def configFields_def valueOf_def policyOk_def)

lemma setFields_config:
  "setFields (configFields a b c d e f g) [] = configFields a b c d e f g"
  by (simp add: setFields_def configFields_def)

lemma itoa_01: "itoa 0 = ''0''" "itoa 1 = ''1''"
  by (simp_all add: itoa_def natDigits.simps [of "Suc 0"] natDigits.simps [of 0] char_of_def bit_simps)

lemma setFields_usage: "setFields freshUsage [] = freshUsage"
  by (simp add: setFields_def freshUsage_def)

text \<open>The keyspace after the three writes both creation scripts share.\<close>

definition created :: "db \<Rightarrow> channel \<Rightarrow> string \<Rightarrow> db" where
  "created d c t = effect (SAdd chansSet (ch_id c))
     (put (chUsageKey (ch_id c)) (RHash freshUsage) (put (chKey (ch_id c)) (RHash (fieldsOf c t)) d))"

lemma HSet_fresh:
  "kv d k = None \<Longrightarrow> setFields fs [] = fs \<Longrightarrow>
     cmdDoc (HSet k fs) d = (RInt (int (length fs)), put k (RHash fs) d)"
  by (simp add: cmdDoc.simps asHash_def)

lemma SAdd_ok: "asSet (kv d k) \<noteq> None \<Longrightarrow> \<not> isErr (fst (cmdDoc (SAdd k x) d))"
  by (auto simp: cmdDoc.simps split: if_splits)

lemma created_facts:
  assumes "vacant d (ch_id c)" "policyOk c"
  shows "configIs (created d c t) c" "logIs (created d c t) (ch_id c) [] 1"
    and "channelsIn (created d c t) = insert (ch_id c) (channelsIn d)"
    and "sameBut {chKey (ch_id c), chUsageKey (ch_id c), chansSet} d (created d c t)"
proof -
  obtain ms where ms: "asSet (kv d chansSet) = Some ms" using assms(1) by (auto simp: vacant_def)
  have eq: "created d c t =
      (let d1 = put (chUsageKey (ch_id c)) (RHash freshUsage) (put (chKey (ch_id c)) (RHash (fieldsOf c t)) d)
       in if ch_id c \<in> set ms then d1 else put chansSet (RSet (ms @ [ch_id c])) d1)"
    using ms by (simp add: created_def cmdDoc.simps Let_def)
  show "configIs (created d c t) c"
    using channelOf_fields [OF assms(2)] by (auto simp: configIs_def eq Let_def fieldsOf_def configFields_def)
  show "logIs (created d c t) (ch_id c) [] 1"
    using assms(1) itoa_01 by (auto simp: logIs_def usageIs_def streamIs_def asStream_def eq Let_def
        freshUsage_def vacant_def entriesOk_def exact_def)
  show "channelsIn (created d c t) = insert (ch_id c) (channelsIn d)"
    using ms by (auto simp: channelsIn_def eq Let_def asSet_def)
  show "sameBut {chKey (ch_id c), chUsageKey (ch_id c), chansSet} d (created d c t)"
    by (auto simp: sameBut_def eq Let_def)
qed

lemma HGet_count:
  assumes "chanCount d ow n"
  shows "cmdDoc (HGet (acctUsageKey ow) ''channels'') d = (RNil, d) \<and> n = 0 \<or>
    cmdDoc (HGet (acctUsageKey ow) ''channels'') d = (RStr (itoa n), d)"
proof -
  from assms obtain m where "asHash (kv d (acctUsageKey ow)) = Some m"
    "intField (map_of m ''channels'') = Some n" by (auto simp: chanCount_def)
  with intField_cases [OF this(2)] show ?thesis by (auto simp: cmdDoc.simps optReply_def)
qed

lemma HIncrBy_count:
  assumes "chanCount d ow n" "int64 (n + x)"
  shows "fst (cmdDoc (HIncrBy (acctUsageKey ow) ''channels'' x) d) = RInt (n + x) \<and>
    chanCount (effect (HIncrBy (acctUsageKey ow) ''channels'' x) d) ow (n + x)"
  using assms by (auto simp: chanCount_def asHash_def cmdDoc.simps update_conv')

lemma Exists_doc: "cmdDoc (Exists k) d = (RInt (if kv d k = None then 0 else 1), d)"
  by (simp add: cmdDoc.simps)

lemma create_exists:
  assumes "kv d (chKey (ch_id c)) \<noteq> None"
  shows "souts (createChannelLua (chKey (ch_id c), k2, k3, k4) c t cp) d = {(RStr ''EXISTS'', d)}"
  using assms by (auto simp: createChannelLua_def Let_def souts_det Exists_doc)

lemma souts_writeChannel:
  assumes "kv d (chKey (ch_id c)) = None" "vacant d (ch_id c)"
  shows "souts (writeChannel (chKey (ch_id c)) (chUsageKey (ch_id c)) chansSet (fieldsOf c t) (ch_id c) k) d =
    souts k (created d c t)"
proof -
  let ?d1 = "put (chKey (ch_id c)) (RHash (fieldsOf c t)) d"
  have 1: "cmdDoc (HSet (chKey (ch_id c)) (fieldsOf c t)) d =
      (RInt (int (length (fieldsOf c t))), ?d1)"
    by (rule HSet_fresh [OF assms(1)]) (simp add: fieldsOf_def setFields_config)
  have 2: "cmdDoc (HSet (chUsageKey (ch_id c)) freshUsage) ?d1 =
      (RInt (int (length freshUsage)), put (chUsageKey (ch_id c)) (RHash freshUsage) ?d1)"
    by (rule HSet_fresh [OF _ setFields_usage]) (use assms(2) in \<open>simp add: vacant_def\<close>)
  have 3: "\<not> isErr (fst (cmdDoc (SAdd chansSet (ch_id c)) (put (chUsageKey (ch_id c)) (RHash freshUsage) ?d1)))"
    by (rule SAdd_ok) (use assms(2) in \<open>simp add: vacant_def\<close>)
  show ?thesis using 1 2 3 by (simp add: writeChannel_def souts_det created_def)
qed

lemma create_script:
  fixes t cp :: int
  assumes fresh: "kv d (chKey (ch_id c)) = None" "vacant d (ch_id c)" and pol: "policyOk c"
    and cnt: "ch_owner c \<noteq> '''' \<Longrightarrow> chanCount d (ch_owner c) n \<and> int64 (n + 1)"
  defines "sc \<equiv> createChannelLua (chKey (ch_id c), chUsageKey (ch_id c), acctUsageKey (ch_owner c), chansSet) c t cp"
  shows "if ch_owner c \<noteq> '''' \<and> n \<ge> cp then souts sc d = {(RStr ''TOOMANY'', d)}
    else \<exists>d'. souts sc d = {(RStr ''OK'', d')} \<and> configIs d' c \<and> logIs d' (ch_id c) [] 1 \<and>
      channelsIn d' = insert (ch_id c) (channelsIn d) \<and>
      (ch_owner c \<noteq> '''' \<longrightarrow> chanCount d' (ch_owner c) (n + 1)) \<and>
      sameBut {chKey (ch_id c), chUsageKey (ch_id c), chansSet, acctUsageKey (ch_owner c)} d d'"
proof -
  let ?d1 = "created d c (itoa t)"
  let ?d2 = "effect (HIncrBy (acctUsageKey (ch_owner c)) ''channels'' 1) ?d1"
  note f = created_facts [OF fresh(2) pol, of "itoa t"]
  note step = souts_writeChannel [OF fresh, of "itoa t", unfolded fieldsOf_def]
  have frI: "sameBut {acctUsageKey (ch_owner c)} ?d1 ?d2" by (rule HIncrBy_frame)
  have own: "fst (cmdDoc (HIncrBy (acctUsageKey (ch_owner c)) ''channels'' 1) ?d1) = RInt (n + 1) \<and>
      chanCount ?d2 (ch_owner c) (n + 1)" if "ch_owner c \<noteq> ''''"
    using HIncrBy_count [of ?d1 "ch_owner c" n 1] cnt [OF that] f(4)
    by (simp add: chanCount_def sameBut_def)
  show ?thesis
  proof (cases "ch_owner c = ''''")
    case True
    then have "souts sc d = {(RStr ''OK'', ?d1)}"
      using fresh step [unfolded True]
      by (simp add: sc_def createChannelLua_def souts_det Exists_doc Let_def)
    then show ?thesis using f True by (auto simp: sameBut_def)
  next
    case False
    have sc: "souts sc d = (if n \<ge> cp then {(RStr ''TOOMANY'', d)} else {(RStr ''OK'', ?d2)})"
      using HGet_count [OF conjunct1 [OF cnt [OF False]]] own [OF False] fresh False
      by (auto simp: sc_def createChannelLua_def souts_det Exists_doc Let_def step)
    have "configIs ?d2 c" "logIs ?d2 (ch_id c) [] 1" "channelsIn ?d2 = channelsIn ?d1"
      using f frI by (auto simp: configIs_def logIs_def usageIs_def streamIs_def channelsIn_def sameBut_def)
    then show ?thesis using sc own [OF False] f frI False by (auto simp: sameBut_def)
  qed
qed

lemma clean_Request: "clean (Request sc k) d = (\<Union>(v, d')\<in>souts sc d. clean (k v) d')"
  by simp

text \<open>
  C30. Creating a channel, on every branch: an id in use is refused, an owner at its channel
  cap is refused, and both change nothing; otherwise the channel has the given
  configuration and an empty log, is listed, and counts once against its owner.
\<close>
theorem create_channel_exact:
  assumes "redis_ok R" "link_up R" "d = r_db R s"
    and "kv d (chKey (ch_id c)) = None \<longrightarrow> vacant d (ch_id c)" "policyOk c"
    and "ch_owner c \<noteq> '''' \<longrightarrow> chanCount d (ch_owner c) n \<and> int64 (n + 1)"
    and "run R (CreateChannel now c chanCap) s = (res, s')"
  shows "if kv d (chKey (ch_id c)) \<noteq> None then res = Inl ErrExists \<and> r_db R s' = d
    else if ch_owner c \<noteq> '''' \<and> capOf chanCap \<le> n then res = Inl ErrTooManyChan \<and> r_db R s' = d
    else res = Inr () \<and> configIs (r_db R s') c \<and> logIs (r_db R s') (ch_id c) [] 1 \<and>
      channelsIn (r_db R s') = insert (ch_id c) (channelsIn d) \<and>
      (ch_owner c \<noteq> '''' \<longrightarrow> chanCount (r_db R s') (ch_owner c) (n + 1)) \<and>
      sameBut {chKey (ch_id c), chUsageKey (ch_id c), chansSet, acctUsageKey (ch_owner c)} d (r_db R s')"
proof -
  have out: "(res, r_db R s') \<in> clean (CreateChannel now c chanCap) d"
    using run_clean [OF assms(1,2), of "CreateChannel now c chanCap" s] assms(3,7) by simp
  show ?thesis
  proof (cases "kv d (chKey (ch_id c)) = None")
    case False
    then show ?thesis using out create_exists [OF False] by (simp add: CreateChannel_def Let_def)
  next
    case True
    define sc where "sc = createChannelLua
      (chKey (ch_id c), chUsageKey (ch_id c), acctUsageKey (ch_owner c), chansSet) c now (capOf chanCap)"
    note cs = create_script [OF True assms(4) [rule_format, OF True] assms(5) assms(6) [rule_format],
        where t = now and cp = "capOf chanCap", folded sc_def]
    from out obtain v where v: "(v, r_db R s') \<in> souts sc d"
      "res = (if isErr v \<or> v = RNil then Inl (RedisErr v) else if v = RStr ''EXISTS'' then Inl ErrExists
        else if v = RStr ''TOOMANY'' then Inl ErrTooManyChan else Inr ())"
      unfolding CreateChannel_def Let_def capOf_def [symmetric] sc_def [symmetric] by auto
    show ?thesis
    proof (cases "ch_owner c \<noteq> [] \<and> capOf chanCap \<le> n")
      case full: True
      then show ?thesis using True cs v by simp
    next
      case room: False
      with cs obtain d' where d': "souts sc d = {(RStr ''OK'', d')}" "configIs d' c" "logIs d' (ch_id c) [] 1"
        "channelsIn d' = insert (ch_id c) (channelsIn d)"
        "ch_owner c \<noteq> [] \<longrightarrow> chanCount d' (ch_owner c) (n + 1)"
        "sameBut {chKey (ch_id c), chUsageKey (ch_id c), chansSet, acctUsageKey (ch_owner c)} d d'"
        by auto
      then have "r_db R s' = d'" "res = Inr ()" using v by auto
      then show ?thesis using True room d' by simp
    qed
  qed
qed

theorem create_channel_exact_witness:
  "fst (run exRedis (CreateChannel 7 exChannel 5) emptyDb) = Inr ()"
proof -
  obtain res s' where r: "run exRedis (CreateChannel 7 exChannel 5) emptyDb = (res, s')"
    by (cases "run exRedis (CreateChannel 7 exChannel 5) emptyDb")
  have "vacant emptyDb (ch_id exChannel)" "policyOk exChannel" "ch_owner exChannel = ''''"
    by (simp_all add: vacant_def emptyDb_def asSet_def policyOk_def exChannel_def int64_def)
  with create_channel_exact [OF exRedis_ok, of emptyDb emptyDb exChannel 0 7 5 res s'] r
  show ?thesis by (simp add: exRedis_def emptyDb_def)
qed

subsection \<open>Grant tickets\<close>

text \<open>
  The namespace check of the Lua script and its Go mirror agree: a ticket covers exactly
  its own id, or what starts with the prefix of a \<open>prefix/*\<close> pattern.
\<close>
theorem match_mirrors_lua: "luaMatch m i = channelMatches m i"
proof -
  have "drop (length m - 2) m = ''/*'' \<longleftrightarrow> hasSuffix m ''/*''"
  proof
    assume "drop (length m - 2) m = ''/*''"
    then show "hasSuffix m ''/*''"
      unfolding hasSuffix_def suffix_def by (metis append_take_drop_id)
  next
    assume "hasSuffix m ''/*''"
    then obtain p where "m = p @ ''/*''" by (auto simp: hasSuffix_def suffix_def)
    then show "drop (length m - 2) m = ''/*''" by simp
  qed
  moreover have "take (length p) i = p \<longleftrightarrow> hasPrefix i p" for p
    by (auto simp: hasPrefix_def take_is_prefix prefix_def) (metis append_take_drop_id)
  ultimately show ?thesis by (simp add: luaMatch_def channelMatches_def Let_def)
qed

definition grantOk :: "grant \<Rightarrow> bool" where
  "grantOk g \<longleftrightarrow> int64 (g_ttl g) \<and> int64 (g_maxBytes g) \<and> int64 (g_maxMsgs g)"

definition ticketIs :: "db \<Rightarrow> string \<Rightarrow> grant \<Rightarrow> bool" where
  "ticketIs d t g \<longleftrightarrow> (\<exists>m. kv d (ticketKey t) = Some (RHash m) \<and>
     map_of m ''match'' = Some (g_match g) \<and> map_of m ''retained'' = Some (boolStr (g_retained g)) \<and>
     map_of m ''ttl_sec'' = Some (itoa (g_ttl g)) \<and> map_of m ''max_bytes'' = Some (itoa (g_maxBytes g)) \<and>
     map_of m ''max_msgs'' = Some (itoa (g_maxMsgs g)))"

definition grantedChannel :: "grant \<Rightarrow> string \<Rightarrow> string \<Rightarrow> string \<Rightarrow> channel" where
  "grantedChannel g i kAuth owner =
     \<lparr>ch_id = i, ch_owner = owner, ch_kauth = kAuth, ch_retained = g_retained g, ch_ttl = g_ttl g,
      ch_maxBytes = g_maxBytes g, ch_maxMsgs = g_maxMsgs g\<rparr>"

lemma HGet_ticket:
  assumes "ticketIs d t g"
  shows "cmdDoc (HGet (ticketKey t) ''match'') d = (RStr (g_match g), d)"
    "cmdDoc (HGet (ticketKey t) ''retained'') d = (RStr (boolStr (g_retained g)), d)"
    "cmdDoc (HGet (ticketKey t) ''ttl_sec'') d = (RStr (itoa (g_ttl g)), d)"
    "cmdDoc (HGet (ticketKey t) ''max_bytes'') d = (RStr (itoa (g_maxBytes g)), d)"
    "cmdDoc (HGet (ticketKey t) ''max_msgs'') d = (RStr (itoa (g_maxMsgs g)), d)"
  using assms by (auto simp: ticketIs_def cmdDoc.simps asHash_def optReply_def)

lemma withStr_RStr [simp]: "withStr (RStr s) k = k s"
  by (simp add: withStr_def)

lemma redeem_script:
  fixes t i kAuth owner :: string
  assumes g: "ticketIs d t g" "grantOk g"
    and v: "kv d (chKey i) = None \<Longrightarrow> vacant d i"
  defines "sc \<equiv> createWithTicketLua (ticketKey t, chKey i, chUsageKey i, chansSet) i kAuth owner"
    and "c \<equiv> grantedChannel g i kAuth owner"
  shows "if \<not> luaMatch (g_match g) i then souts sc d = {(RStr ''MISMATCH'', d)}
    else if kv d (chKey i) \<noteq> None then souts sc d = {(RStr ''EXISTS'', d)}
    else souts sc d = {(RStr ''OK'', remove (ticketKey t) (created d c ''0''))}"
proof -
  have t: "kv d (ticketKey t) \<noteq> None" using g(1) by (auto simp: ticketIs_def)
  have c: "ch_id c = i" "policyOk c"
    using g(2) by (simp_all add: c_def grantedChannel_def policyOk_def grantOk_def)
  have fs: "configFields owner kAuth (boolStr (g_retained g)) (itoa (g_ttl g)) (itoa (g_maxBytes g))
      (itoa (g_maxMsgs g)) ''0'' = fieldsOf c ''0''"
    by (simp add: fieldsOf_def c_def grantedChannel_def)
  have del: "cmdDoc (Del (ticketKey t)) (created d c ''0'') =
      (RInt 1, remove (ticketKey t) (created d c ''0''))" if "vacant d i"
    using created_facts(4) [of d c "''0''"] that c t by (simp add: cmdDoc.simps sameBut_def)
  show ?thesis
    using t HGet_ticket [OF g(1)] v souts_writeChannel [of d c "''0''", unfolded c(1)] del
    by (auto simp: sc_def createWithTicketLua_def souts_det Exists_doc fs)
qed

text \<open>
  C14. Redeeming a ticket, on every branch: a missing ticket and a channel id outside its
  namespace are refused alike, an existing channel is refused and the ticket kept, and
  otherwise the ticket is gone and the channel exists with the policy of the grant: nothing
  of the request but the key and the owner goes into it.
\<close>
theorem redeem_exact:
  assumes "redis_ok R" "link_up R" "d = r_db R s" "t \<noteq> ''''" "i \<noteq> ''''"
    and "kv d (ticketKey t) = None \<or> ticketIs d t g \<and> grantOk g"
    and "kv d (chKey i) = None \<longrightarrow> vacant d i"
    and "run R (CreateChannelWithTicket t i kAuth owner) s = (res, s')"
  shows "if kv d (ticketKey t) = None \<or> \<not> luaMatch (g_match g) i then res = Inl ErrBadTicket \<and> r_db R s' = d
    else if kv d (chKey i) \<noteq> None then res = Inl ErrExists \<and> r_db R s' = d
    else res = Inr () \<and> kv (r_db R s') (ticketKey t) = None \<and>
      configIs (r_db R s') (grantedChannel g i kAuth owner) \<and> logIs (r_db R s') i [] 1 \<and>
      channelsIn (r_db R s') = insert i (channelsIn d)"
proof -
  let ?c = "grantedChannel g i kAuth owner"
  have out: "(res, r_db R s') \<in> clean (CreateChannelWithTicket t i kAuth owner) d"
    using run_clean [OF assms(1,2), of "CreateChannelWithTicket t i kAuth owner" s] assms(3,8) by simp
  show ?thesis
  proof (cases "kv d (ticketKey t) = None")
    case True
    then show ?thesis using out assms(4,5)
      by (simp add: CreateChannelWithTicket_def createWithTicketLua_def souts_det Exists_doc)
  next
    case False
    then have g: "ticketIs d t g" "grantOk g" using assms(6) by auto
    have c: "ch_id ?c = i" "policyOk ?c"
      using g(2) by (simp_all add: grantedChannel_def policyOk_def grantOk_def)
    note f = created_facts [of d ?c "''0''", unfolded c(1), OF _ c(2)]
    have keep: "configIs (remove (ticketKey t) x) ?c = configIs x ?c"
        "logIs (remove (ticketKey t) x) i [] 1 = logIs x i [] 1"
        "channelsIn (remove (ticketKey t) x) = channelsIn x" for x
      using c by (auto simp: configIs_def logIs_def usageIs_def streamIs_def channelsIn_def)
    show ?thesis
      using redeem_script [OF g assms(7) [rule_format], of kAuth owner] out assms(4,5,7) False f
      by (auto simp: CreateChannelWithTicket_def keep split: if_splits)
  qed
qed

definition exGrant :: grant where
  "exGrant = \<lparr>g_match = ''team/*'', g_retained = True, g_ttl = 0, g_maxBytes = 0, g_maxMsgs = 9\<rparr>"

definition exTicketDb :: db where
  "exTicketDb = put (ticketKey ''T'') (RHash [(''match'', ''team/*''), (''retained'', ''1''),
     (''ttl_sec'', itoa 0), (''max_bytes'', itoa 0), (''max_msgs'', itoa 9)]) emptyDb"

theorem redeem_exact_witness:
  "fst (run exRedis (CreateChannelWithTicket ''T'' ''team/a'' ''k'' '''') exTicketDb) = Inr ()"
proof -
  obtain res s' where r: "run exRedis (CreateChannelWithTicket ''T'' ''team/a'' ''k'' '''') exTicketDb = (res, s')"
    by (cases "run exRedis (CreateChannelWithTicket ''T'' ''team/a'' ''k'' '''') exTicketDb")
  have t: "ticketIs exTicketDb ''T'' exGrant" "grantOk exGrant"
    by (simp_all add: ticketIs_def exTicketDb_def exGrant_def grantOk_def int64_def boolStr_def)
  have v: "vacant exTicketDb ''team/a''" "kv exTicketDb (chKey ''team/a'') = None"
    by (simp_all add: vacant_def exTicketDb_def emptyDb_def asSet_def)
  have m: "luaMatch (g_match exGrant) ''team/a''" by (simp add: luaMatch_def exGrant_def)
  have "kv exTicketDb (ticketKey ''T'') \<noteq> None" by (simp add: exTicketDb_def)
  with redeem_exact [OF exRedis_ok, of exTicketDb exTicketDb "''T''" "''team/a''" exGrant "''k''" "''''" res s']
    r t v m show ?thesis by (simp add: exRedis_def)
qed

end
