(* ===== verification/Store_System.thy ===== *)
theory Store_System
  imports Store_Channels
begin

text \<open>
  The store under concurrency: any number of store calls in progress, their requests
  interleaved in any order, over a link that may lose and repeat requests, with keys
  expiring in between.
\<close>

subsection \<open>Which keys a program can bring into being\<close>

definition createsOf :: "rcmd \<Rightarrow> string set" where
  "createsOf c = (case c of HSet k fs \<Rightarrow> {k} | HSetNX k f v \<Rightarrow> {k} | HIncrBy k f n \<Rightarrow> {k}
     | SAdd k x \<Rightarrow> {k} | XAdd k i fs \<Rightarrow> {k} | _ \<Rightarrow> {})"

lemma createsOf_simps [simp]:
  "createsOf (HGet k f) = {}" "createsOf (HSet k fs) = {k}" "createsOf (HSetNX k f v) = {k}"
  "createsOf (HGetAll k) = {}" "createsOf (HMGet k ks) = {}" "createsOf (HIncrBy k f n) = {k}"
  "createsOf (Exists k) = {}" "createsOf (SMembers k) = {}" "createsOf (SAdd k x) = {k}"
  "createsOf (XAdd k i fs) = {k}" "createsOf (XRange k a b m) = {}" "createsOf (XDel k i) = {}"
  "createsOf (Del k) = {}" "createsOf (Expire k n) = {}" "createsOf (Scan z y w) = {}"
  "createsOf Ping = {}"
  by (simp_all add: createsOf_def)

lemma docs_creates:
  assumes "(v, d') \<in> docs c d" "kv d k = None" "k \<notin> createsOf c" shows "kv d' k = None"
  using assms
  by (cases c) (auto simp: docs_def createsOf_def cmdDoc.simps Let_def asStream_def
      split: option.splits if_splits prod.splits rval.splits)

primrec creates :: "script \<Rightarrow> string set" where
  "creates (Done v) = {}"
| "creates (Call c k) = createsOf c \<union> (\<Union>v. creates (k v))"

lemma souts_creates:
  "(v, d') \<in> souts sc d \<Longrightarrow> kv d k = None \<Longrightarrow> k \<notin> creates sc \<Longrightarrow> kv d' k = None"
proof (induction sc arbitrary: d)
  case (Done v)
  then show ?case by simp
next
  case (Call c f)
  from Call.prems(1) obtain w d1 where w: "(w, d1) \<in> docs c d"
    "if isErr w then (v, d') = (w, d1) else (v, d') \<in> souts (f w) d1"
    by (auto simp: souts.simps(2) split: if_splits)
  have "kv d1 k = None" using docs_creates [OF w(1)] Call.prems by simp
  then show ?case using w(2) Call.IH [OF rangeI, of w d1] Call.prems(3) by (auto split: if_splits)
qed

lemma keeps_absent: "k \<notin> creates sc \<Longrightarrow> keeps (\<lambda>d. kv d k = None) sc"
  by (auto simp: keeps_def dest: souts_creates)

definition pcreates :: "'a prog \<Rightarrow> string set" where
  "pcreates p = (\<Union>sc\<in>scriptsOf p. creates sc)"

lemma pcreates_simps [simp]:
  "pcreates (Return v) = {}"
  "pcreates (Request sc k) = creates sc \<union> (\<Union>v. pcreates (k v))"
  "pcreates (send c f) = createsOf c \<union> (\<Union>v. pcreates (f v))"
  by (auto simp: pcreates_def send_def)

lemma pcreates_andThen: "pcreates (andThen p f) \<subseteq> pcreates p \<union> (\<Union>v. pcreates (f v))"
  by (induction p) auto

subsection \<open>The store's calls\<close>

datatype storeCall =
    SCreateAccount int string string
  | SAccountKeyHash string
  | SCreateChannel int channel int
  | SGetChannel string
  | SHasChannel string
  | SSetLimits string int int int
  | SAllKAuth
  | SUsage string
  | SIssue "bytes option" grant int
  | SRedeem string string string string
  | SAppend nat int string bytes int
  | SCatchUp int string int int
  | SPrune int
  | SStats nat
  | SList

definition ignoring :: "'a prog \<Rightarrow> unit prog" where
  "ignoring p = andThen p (\<lambda>_. Return ())"

fun perform :: "storeCall \<Rightarrow> unit prog" where
  "perform (SCreateAccount now i h) = ignoring (CreateAccount now i h)"
| "perform (SAccountKeyHash i) = ignoring (AccountKeyHash i)"
| "perform (SCreateChannel now c cp) = ignoring (CreateChannel now c cp)"
| "perform (SGetChannel i) = ignoring (GetChannel i)"
| "perform (SHasChannel i) = ignoring (storeHasChannel i)"
| "perform (SSetLimits i t b m) = ignoring (SetChannelLimits i t b m)"
| "perform SAllKAuth = ignoring AllChannelKAuth"
| "perform (SUsage i) = ignoring (ChannelUsage i)"
| "perform (SIssue raw g e) = ignoring (IssueGrant raw g e)"
| "perform (SRedeem t i k ow) = ignoring (CreateChannelWithTicket t i k ow)"
| "perform (SAppend fuel now i blob cp) = ignoring (Append fuel now i blob cp)"
| "perform (SCatchUp now i q n) = ignoring (CatchUp now i q n)"
| "perform (SPrune now) = ignoring (PruneExpired now)"
| "perform (SStats fuel) = ignoring (Stats fuel)"
| "perform SList = ignoring ListChannels"

definition issues :: "string \<Rightarrow> storeCall \<Rightarrow> bool" where
  "issues t c = (case c of SIssue (Some raw) g e \<Rightarrow> b64urlencode raw = t | _ \<Rightarrow> False)"

text \<open>Keys outside the ticket namespace.\<close>

definition noTicket :: "string set \<Rightarrow> bool" where
  "noTicket S \<longleftrightarrow> (\<forall>t. ticketKey t \<notin> S)"

lemma noTicket_simps [simp]:
  "noTicket {}" "noTicket (S \<union> T) \<longleftrightarrow> noTicket S \<and> noTicket T"
  "noTicket (insert k S) \<longleftrightarrow> (\<forall>t. k \<noteq> ticketKey t) \<and> noTicket S"
  "noTicket (\<Union>x\<in>A. F x) \<longleftrightarrow> (\<forall>x\<in>A. noTicket (F x))"
  by (auto simp: noTicket_def)

lemma noTicket_mono: "S \<subseteq> T \<Longrightarrow> noTicket T \<Longrightarrow> noTicket S"
  by (auto simp: noTicket_def)

lemma key_not_ticket [simp]:
  "acctKey i \<noteq> ticketKey t" "acctUsageKey i \<noteq> ticketKey t" "chKey i \<noteq> ticketKey t"
  "chUsageKey i \<noteq> ticketKey t" "chMsgsKey i \<noteq> ticketKey t" "chansSet \<noteq> ticketKey t"
  by (simp_all add: acctKey_def acctUsageKey_def chKey_def chUsageKey_def chMsgsKey_def chansSet_def
      ticketKey_def)

lemma noTicket_andThen:
  "noTicket (pcreates p) \<Longrightarrow> (\<And>v. noTicket (pcreates (f v))) \<Longrightarrow> noTicket (pcreates (andThen p f))"
  by (rule noTicket_mono [OF pcreates_andThen]) simp

lemma noTicket_ignoring: "noTicket (pcreates p) \<Longrightarrow> noTicket (pcreates (ignoring p))"
  unfolding ignoring_def by (rule noTicket_andThen) simp_all

lemma creates_num [simp]:
  "creates (withNum s k) = (case parseDec s of None \<Rightarrow> {} | Some n \<Rightarrow> creates (k n))"
  "creates (withStr r f) = (case r of RStr s \<Rightarrow> creates (f s) | _ \<Rightarrow> {})"
  by (auto simp: withNum_def withStr_def split: option.splits reply.splits)

lemma noTicket_numOr: "(\<And>n. noTicket (creates (k n))) \<Longrightarrow> noTicket (creates (numOr x r k))"
  by (auto simp: numOr_def split: reply.splits option.splits)

lemma noTicket_withStr: "(\<And>s. noTicket (creates (k s))) \<Longrightarrow> noTicket (creates (withStr r k))"
  by (auto simp: withStr_def split: reply.splits)

lemma noTicket_evict: "noTicket (creates (evictLoop n (scriptKeys i ow) ho mm mb sq))"
  by (induction n) (auto intro!: noTicket_numOr split: reply.splits list.splits option.splits)

lemma noTicket_append: "noTicket (creates (appendLua fuel (scriptKeys i ow) a))"
  by (auto simp: appendLua_def storeLua_def Let_def intro!: noTicket_numOr noTicket_evict)

lemma noTicket_write: "noTicket (creates rest) \<Longrightarrow>
    noTicket (creates (writeChannel (chKey i) (chUsageKey i) chansSet fs i rest))"
  by (simp add: writeChannel_def)

lemma noTicket_loops:
  "noTicket (pcreates (kauthLoop ids out))" "noTicket (pcreates (pruneEntries now i es p))"
  "noTicket (pcreates (pruneLoop now ids n))" "noTicket (pcreates (scanLoop fuel cur seen))"
  "noTicket (pcreates (statsLoop ids st))" "noTicket (pcreates (listLoop ids cis))"
proof -
  show "noTicket (pcreates (kauthLoop ids out))"
    by (induction ids arbitrary: out) (auto split: reply.splits)
  show pe: "noTicket (pcreates (pruneEntries now i es p))" for i es p
    by (induction now i es p rule: pruneEntries.induct) (auto simp: Let_def)
  show "noTicket (pcreates (pruneLoop now ids n))"
    by (induction ids arbitrary: n) (auto intro!: noTicket_andThen pe split: reply.splits)
  show "noTicket (pcreates (scanLoop fuel cur seen))"
    by (induction fuel arbitrary: cur seen) (auto simp: Let_def split: reply.splits)
  show "noTicket (pcreates (statsLoop ids st))"
    by (induction ids arbitrary: st)
      (auto simp: GetChannel_def ChannelUsage_def Let_def intro!: noTicket_andThen split: sum.splits)
  show "noTicket (pcreates (listLoop ids cis))"
    by (induction ids arbitrary: cis)
      (auto simp: GetChannel_def ChannelUsage_def Let_def intro!: noTicket_andThen split: sum.splits)
qed

lemma noTicket_GetChannel: "noTicket (pcreates (GetChannel i))"
  by (simp add: GetChannel_def)

lemma perform_creates:
  assumes "\<not> issues t c" shows "ticketKey t \<notin> pcreates (perform c)"
proof (cases c)
  case (SIssue raw g e)
  have "pcreates (IssueGrant raw g e) \<subseteq>
      (case raw of None \<Rightarrow> {} | Some x \<Rightarrow> {ticketKey (b64urlencode x)})"
    by (auto simp: IssueGrant_def Let_def split: option.splits if_splits)
  then have "ticketKey t \<notin> pcreates (IssueGrant raw g e)"
    using assms SIssue by (auto simp: issues_def split: option.splits)
  then show ?thesis using pcreates_andThen [of "IssueGrant raw g e" "\<lambda>_. Return ()"] SIssue
    by (auto simp: ignoring_def)
next
  case (SAppend fuel now i blob cp)
  have "noTicket (pcreates (Append fuel now i blob cp))"
    unfolding Append_def by (rule noTicket_andThen [OF noTicket_GetChannel])
      (auto intro: noTicket_append split: sum.splits)
  then show ?thesis using noTicket_ignoring SAppend by (fastforce simp: noTicket_def)
next
  case (SPrune now)
  have "noTicket (pcreates (PruneExpired now))"
    unfolding PruneExpired_def
    by (auto intro!: noTicket_andThen noTicket_loops split: reply.splits)
  then show ?thesis using noTicket_ignoring SPrune by (fastforce simp: noTicket_def)
next
  case (SStats fuel)
  have "noTicket (pcreates (Stats fuel))"
    unfolding Stats_def
    by (auto intro!: noTicket_andThen noTicket_loops split: reply.splits)
  then show ?thesis using noTicket_ignoring SStats by (fastforce simp: noTicket_def)
next
  case SList
  have "noTicket (pcreates ListChannels)"
    unfolding ListChannels_def
    by (auto intro!: noTicket_andThen noTicket_loops split: reply.splits)
  then show ?thesis using noTicket_ignoring SList by (fastforce simp: noTicket_def)
next
  case SAllKAuth
  have "noTicket (pcreates AllChannelKAuth)"
    unfolding AllChannelKAuth_def
    by (auto intro!: noTicket_andThen noTicket_loops split: reply.splits)
  then show ?thesis using noTicket_ignoring SAllKAuth by (fastforce simp: noTicket_def)
next
  case (SCreateChannel now x cp)
  have "noTicket (pcreates (CreateChannel now x cp))"
    unfolding CreateChannel_def createChannelLua_def Let_def
    by (auto intro!: noTicket_write noTicket_numOr)
  then show ?thesis using noTicket_ignoring SCreateChannel by (fastforce simp: noTicket_def)
next
  case (SRedeem tk i k ow)
  have "noTicket (pcreates (CreateChannelWithTicket tk i k ow))"
    unfolding CreateChannelWithTicket_def createWithTicketLua_def
    by (auto intro!: noTicket_write split: reply.splits)
  then show ?thesis using noTicket_ignoring SRedeem by (fastforce simp: noTicket_def)
next
  case (SSetLimits i a b m)
  have "noTicket (pcreates (SetChannelLimits i a b m))"
    unfolding SetChannelLimits_def storeHasChannel_def Let_def
    by (auto intro!: noTicket_andThen)
  then show ?thesis using noTicket_ignoring SSetLimits by (fastforce simp: noTicket_def)
next
  case (SCreateAccount now i h)
  have "noTicket (pcreates (CreateAccount now i h))"
    by (auto simp: CreateAccount_def split: reply.splits)
  then show ?thesis using noTicket_ignoring SCreateAccount by (fastforce simp: noTicket_def)
qed (simp_all add: ignoring_def send_def AccountKeyHash_def storeHasChannel_def ChannelUsage_def
      CatchUp_def GetChannel_def)

subsection \<open>The system\<close>

inductive system :: "'r redis \<Rightarrow> storeCall list \<Rightarrow> 'r \<Rightarrow> unit prog list \<Rightarrow> 'r \<Rightarrow> bool"
  for R :: "'r redis" and calls :: "storeCall list" and s0 :: 'r where
  sys_start: "system R calls s0 (List.map perform calls) s0"
| sys_request: "system R calls s0 ps s \<Longrightarrow> n < length ps \<Longrightarrow> ps ! n = Request sc k \<Longrightarrow>
     request R sc s = (v, s') \<Longrightarrow> system R calls s0 (ps[n := k v]) s'"
| sys_expire: "system R calls s0 ps s \<Longrightarrow> expiry (r_db R s) key \<noteq> None \<Longrightarrow>
     r_db R s' = remove key (r_db R s) \<Longrightarrow> system R calls s0 ps s'"

lemma system_absent:
  assumes R: "redis_ok R" and "system R calls s0 ps s"
    and "\<And>c. c \<in> set calls \<Longrightarrow> k \<notin> pcreates (perform c)" and "kv (r_db R s0) k = None"
  shows "kv (r_db R s) k = None \<and> (\<forall>p\<in>set ps. k \<notin> pcreates p)"
  using assms(2-4)
proof (induction rule: system.induct)
  case sys_start
  then show ?case by auto
next
  case (sys_request ps s n sc f v s')
  then have IH: "kv (r_db R s) k = None" "\<forall>p\<in>set ps. k \<notin> pcreates p" by auto
  have m: "Request sc f \<in> set ps" using sys_request.hyps(2,3) by (metis nth_mem)
  have "(v, r_db R s') \<in> routs sc (r_db R s)"
    using request_routs [OF R, of sc s] sys_request.hyps(4) by simp
  moreover have "k \<notin> creates sc" using IH(2) m by auto
  ultimately have "kv (r_db R s') k = None"
    using keeps_routs [OF keeps_absent, of k sc "r_db R s"] IH(1) by blast
  moreover have "\<forall>p\<in>set (ps[n := f v]). k \<notin> pcreates p"
    using IH(2) m by (auto dest!: set_update_subset_insert [THEN subsetD])
  ultimately show ?case by blast
next
  case (sys_expire ps s key s')
  then show ?case by auto
qed

lemma redeem_absent:
  assumes "(v, d') \<in> outs (CreateChannelWithTicket t i kAuth ow) d" "kv d (ticketKey t) = None"
  shows "v \<noteq> Inr ()"
proof (cases "t = [] \<or> i = []")
  case True
  then show ?thesis using assms by (auto simp: CreateChannelWithTicket_def)
next
  case False
  define sc where "sc = createWithTicketLua (ticketKey t, chKey i, chUsageKey i, chansSet) i kAuth ow"
  have sc: "souts sc x = {(RStr ''BADTICKET'', x)}" if "kv x (ticketKey t) = None" for x
    using that by (simp add: sc_def createWithTicketLua_def souts_det Exists_doc)
  from False assms(1) obtain r where r: "(r, d') \<in> routs sc d"
    "v = (if isErr r \<or> r = RNil then Inl (RedisErr r) else if r = RStr ''OK'' then Inr ()
       else if r = RStr ''EXISTS'' then Inl ErrExists else Inl ErrBadTicket)"
    by (auto simp: CreateChannelWithTicket_def sc_def)
  from r(1) obtain d1 where d1: "(d, d1) \<in> (sruns sc)\<^sup>*" "(r, d') \<in> souts sc d1 \<or> r = linkErr"
    by (auto simp: routs_def)
  from d1(1) have "kv d1 (ticketKey t) = None"
    by (induction rule: rtrancl_induct) (use assms(2) sc in \<open>auto simp: sruns_def\<close>)
  then have "r = RStr ''BADTICKET'' \<or> r = linkErr" using d1(2) sc by auto
  then show ?thesis using r(2) by (auto simp: linkErr_def)
qed

text \<open>
  C15. A spent or expired ticket stays dead: in every state any number of concurrent store
  calls can reach, with lost and repeated requests and keys expiring at any time, a ticket
  that did not exist at the start and is not issued by one of the calls does not exist, and
  redeeming it fails.
\<close>
theorem dead_ticket_stays_dead:
  assumes "redis_ok R" "system R calls s0 ps s"
    and "kv (r_db R s0) (ticketKey t) = None" "\<forall>c\<in>set calls. \<not> issues t c"
  shows "kv (r_db R s) (ticketKey t) = None \<and>
    fst (run R (CreateChannelWithTicket t i kAuth owner) s) \<noteq> Inr ()"
proof -
  have dead: "kv (r_db R s) (ticketKey t) = None"
    using system_absent [OF assms(1,2) _ assms(3)] perform_creates assms(4) by blast
  then show ?thesis
    using redeem_absent [OF run_outs [OF assms(1), of "CreateChannelWithTicket t i kAuth owner" s]]
    by auto
qed

theorem dead_ticket_stays_dead_witness:
  "fst (run exRedis (CreateChannelWithTicket ''T'' ''a'' ''k'' '''')
     (snd (request exRedis (Call (HGetAll (chKey ''a'')) Done) emptyDb))) \<noteq> Inr ()"
proof -
  let ?calls = "[SGetChannel ''a'']"
  obtain v s' where r: "request exRedis (Call (HGetAll (chKey ''a'')) Done) emptyDb = (v, s')"
    by (cases "request exRedis (Call (HGetAll (chKey ''a'')) Done) emptyDb")
  have p: "List.map perform ?calls ! 0 = Request (Call (HGetAll (chKey ''a'')) Done)
      (\<lambda>r. andThen (Return (case r of RPairs m \<Rightarrow> if m = [] then Inl ErrNotFound
         else Inr (channelOf ''a'' m) | _ \<Rightarrow> Inl (RedisErr r))) (\<lambda>_. Return ()))"
    by (simp add: ignoring_def GetChannel_def send_def)
  from sys_request [OF sys_start _ p r]
  obtain ps where "system exRedis ?calls emptyDb ps s'" by auto
  from dead_ticket_stays_dead [OF exRedis_ok(1) this, of "''T''" "''a''" "''k''" "''''"] r show ?thesis
    by (simp add: exRedis_def emptyDb_def issues_def)
qed

end
