(* ===== verification/Store_Termination.thy ===== *)
theory Store_Termination
  imports Store_Log
begin

text \<open>
  Termination of the eviction loop, whatever the keyspace holds: each turn deletes an entry of
  the stream, so a fuel beyond its length is never used up.
\<close>

definition boundedStream :: "nat \<Rightarrow> string \<Rightarrow> db \<Rightarrow> bool" where
  "boundedStream n k d \<longleftrightarrow> (\<forall>es lst. kv d k = Some (RStream es lst) \<longrightarrow>
     length es \<le> n \<and> (\<forall>e\<in>set es. fst (fst e) < 2 ^ 64 \<and> snd (fst e) < 2 ^ 64))"

lemma bounded_HIncrBy: "boundedStream n k d \<Longrightarrow> boundedStream n k (snd (cmdDoc (HIncrBy k1 f x) d))"
  by (auto simp: boundedStream_def cmdDoc.simps split: option.splits)

lemma bounded_HGet: "snd (cmdDoc (HGet k1 f) d) = d"
  by (auto simp: cmdDoc.simps split: option.splits)

lemma XRange_first:
  assumes "cmdDoc (XRange k ''-'' ''+'' (Some 1)) d = (REntries ((oid, fs) # r), d')"
  obtains i es lst where "kv d k = Some (RStream ((i, fs) # es) lst)" "oid = showSid i" "d' = d"
proof -
  obtain es lst where s: "asStream (kv d k) = Some (es, lst)"
    using assms by (cases "asStream (kv d k)") (auto simp: cmdDoc.simps wrongType_def)
  then have "REntries ((oid, fs) # r) = REntries (List.map showEntry (take 1 es))" "d' = d"
    using assms by (auto simp: cmdDoc.simps aboveStart_def belowEnd_def)
  then obtain i es' where "es = (i, fs) # es'" "oid = showSid i"
    by (cases es) (auto simp: showEntry_def)
  moreover have "kv d k = Some (RStream es lst)"
    using s calculation(1) by (auto simp: asStream_def split: option.splits rval.splits)
  ultimately show thesis using that \<open>d' = d\<close> by blast
qed

lemma bounded_XDel:
  assumes "boundedStream (Suc n) k d" "kv d k = Some (RStream ((i, fs) # es) lst)"
  shows "boundedStream n k (snd (cmdDoc (XDel k (showSid i)) d))"
proof -
  have "fst i < 2 ^ 64" "snd i < 2 ^ 64" "length (filter (\<lambda>e. fst e \<noteq> i) es) \<le> n"
    "\<forall>e\<in>set es. fst (fst e) < 2 ^ 64 \<and> snd (fst e) < 2 ^ 64"
    using assms order.trans [OF length_filter_le [of "\<lambda>e. fst e \<noteq> i" es]] by (auto simp: boundedStream_def)
  then show ?thesis
    using assms(2) by (auto simp: cmdDoc.simps asStream_def boundedStream_def)
qed

text \<open>A script does not hang from any keyspace within the bound.\<close>

definition halts :: "nat \<Rightarrow> string \<Rightarrow> script \<Rightarrow> bool" where
  "halts n k sc \<longleftrightarrow> (\<forall>d. boundedStream n k d \<longrightarrow> (\<forall>d'. (RHang, d') \<notin> souts sc d))"

lemma halts_Done: "v \<noteq> RHang \<Longrightarrow> halts n k (Done v)"
  by (simp add: halts_def)

lemma cmdDoc_not_hang: "fst (cmdDoc c d) \<noteq> RHang"
  by (cases c) (auto simp: cmdDoc.simps wrongType_def optReply_def Let_def split: option.splits)

lemma halts_Call:
  assumes "det c" "\<And>d. boundedStream n k d \<Longrightarrow> boundedStream m k (snd (cmdDoc c d))" "\<And>v. halts m k (f v)"
  shows "halts n k (Call c f)"
  using assms cmdDoc_not_hang [of c] by (auto simp: halts_def souts_det) (metis fst_conv)

lemma halts_numOr: "(\<And>x. halts n k (f x)) \<Longrightarrow> halts n k (numOr x r f)"
  by (auto simp: numOr_def withNum_def scriptErr_def halts_Done split: reply.splits option.splits)

lemma halts_HGet: "(\<And>v. halts n k (f v)) \<Longrightarrow> halts n k (Call (HGet k1 h) f)"
  by (rule halts_Call [where m = n]) (simp_all add: bounded_HGet)

lemma halts_HIncrBy: "(\<And>v. halts n k (f v)) \<Longrightarrow> halts n k (Call (HIncrBy k1 h x) f)"
  by (rule halts_Call [where m = n]) (simp_all add: bounded_HIncrBy)

lemma halts_evict:
  assumes "n < fuel" shows "halts n k2 (evictLoop fuel (k1, k2, k3) ho mm mb s)"
  using assms
proof (induction fuel arbitrary: n)
  case (Suc fuel)
  let ?rest = "\<lambda>fs. case luaSize fs of None \<Rightarrow> Done scriptErr
      | Some osize \<Rightarrow> Call (HIncrBy k1 ''bytes'' (- osize)) (\<lambda>_. Call (HIncrBy k1 ''msgs'' (- 1)) (\<lambda>_.
          if ho then Call (HIncrBy k3 ''bytes'' (- osize)) (\<lambda>_. evictLoop fuel (k1, k2, k3) ho mm mb s)
          else evictLoop fuel (k1, k2, k3) ho mm mb s))"
  let ?pop = "\<lambda>oldest. case oldest of REntries ((oid, fs) # _) \<Rightarrow> Call (XDel k2 oid) (\<lambda>_. ?rest fs)
      | _ \<Rightarrow> Done (RInt s)"
  have pop: "halts n k2 (Call (XRange k2 ''-'' ''+'' (Some 1)) ?pop)"
    unfolding halts_def
  proof (intro allI impI)
    fix d d' assume b: "boundedStream n k2 d"
    obtain v dx where x: "cmdDoc (XRange k2 ''-'' ''+'' (Some 1)) d = (v, dx)"
      by (cases "cmdDoc (XRange k2 ''-'' ''+'' (Some 1)) d")
    have v: "v \<noteq> RHang" using cmdDoc_not_hang [of "XRange k2 ''-'' ''+'' (Some 1)" d] x by simp
    show "(RHang, d') \<notin> souts (Call (XRange k2 ''-'' ''+'' (Some 1)) ?pop) d"
    proof (cases "\<exists>oid fs r. v = REntries ((oid, fs) # r)")
      case False
      then have "?pop v = Done (RInt s)" by (auto split: reply.splits list.splits)
      then show ?thesis using v by (simp add: souts_det x)
    next
      case True
      then obtain oid fs r where e: "v = REntries ((oid, fs) # r)" by blast
      obtain i es lst where st: "kv d k2 = Some (RStream ((i, fs) # es) lst)" "oid = showSid i" "dx = d"
        using XRange_first x [unfolded e] by metis
      obtain m where n: "n = Suc m" using b st(1) by (cases n) (auto simp: boundedStream_def)
      have "halts m k2 (?rest fs)"
        using Suc.IH [of m] Suc.prems n
        by (auto simp: scriptErr_def intro!: halts_Done halts_HIncrBy split: option.split)
      moreover have "boundedStream m k2 (snd (cmdDoc (XDel k2 oid) d))"
        using bounded_XDel [OF _ st(1)] b n st(2) by simp
      ultimately have "(RHang, d') \<notin> souts (Call (XDel k2 oid) (\<lambda>_. ?rest fs)) d"
        using cmdDoc_not_hang [of "XDel k2 oid" d] by (auto simp: souts_det halts_def) (metis fst_conv)
      then show ?thesis by (simp add: souts_det x e st(3))
    qed
  qed
  show ?case
    by (auto intro!: halts_HGet halts_numOr halts_Done pop)
qed simp


lemma bounded_XAdd:
  assumes "boundedStream n k d" shows "boundedStream (Suc n) k (snd (cmdDoc (XAdd k i fs) d))"
proof -
  have sid: "parseSid i = Some j \<Longrightarrow> fst j < 2 ^ 64 \<and> snd j < 2 ^ 64" for j
    by (auto simp: parseSid_def decNat_def Let_def split: option.splits if_splits)
  have "boundedStream (Suc n) k d" using assms by (auto simp: boundedStream_def)
  then show ?thesis using assms sid
    by (auto simp: cmdDoc.simps asStream_def boundedStream_def split: option.splits rval.splits prod.splits)
qed

lemma halts_append:
  assumes "Suc n < fuel" shows "halts n k2 (appendLua fuel (k1, k2, k3) a)"
proof -
  have ev: "halts (Suc n) k2 (evictLoop fuel (k1, k2, k3) ho mm mb s)" for ho mm mb s
    by (rule halts_evict [OF assms])
  have "halts n k2 (storeLua fuel (k1, k2, k3) a)"
    unfolding storeLua_def prod.case Let_def
    by (intro halts_HGet halts_numOr) (rule halts_Call [where m = "Suc n"];
      simp add: bounded_XAdd halts_HIncrBy ev)
  then show ?thesis
    by (auto simp: appendLua_def intro!: halts_HGet halts_numOr halts_Done)
qed

text \<open>
  C33. Eviction ends: from any keyspace whatever, consistent or not, in which the stream the
  script works on has at most \<open>n\<close> entries, the append script runs to a reply with any fuel
  above \<open>n + 1\<close>; it deletes one entry per turn and stops when none is left.
\<close>
theorem eviction_terminates:
  assumes "\<forall>es lst. kv d (chMsgsKey i) = Some (RStream es lst) \<longrightarrow>
      length es \<le> n \<and> (\<forall>e\<in>set es. fst (fst e) < 2 ^ 64 \<and> snd (fst e) < 2 ^ 64)"
    and "Suc n < fuel"
    and "(v, d') \<in> souts (appendLua fuel (chUsageKey i, chMsgsKey i, acctUsageKey ow) a) d"
  shows "v \<noteq> RHang"
  using halts_append [OF assms(2)] assms(1,3) by (fastforce simp: halts_def boundedStream_def)

theorem eviction_terminates_witness:
  "fst (runScript exRedis (appendLua 2 (chUsageKey ''c'', chMsgsKey ''c'', acctUsageKey ''o'')
     \<lparr>a_blob = ''xy'', a_size = 2, a_ttl = 0, a_maxBytes = 1, a_maxMsgs = 1, a_acctCap = 0, a_now = 5, a_hasOwner = False\<rparr>) emptyDb) \<noteq> RHang"
proof -
  have "kv (r_db exRedis emptyDb) k = None" for k by (simp add: exRedis_def emptyDb_def)
  then show ?thesis
    by (intro eviction_terminates [OF _ _ runScript_souts [OF exRedis_ok(1)], of _ "''c''" 0]) simp_all
qed

end
