(* ===== verification/Http.thy ===== *)
theory Http
  imports Envelope
begin

text \<open>
  What the handlers see of HTTP: requests with the headers the code reads, responses, the
  client address, and how a JSON request body binds to the request structs.
\<close>

subsection \<open>Requests and responses\<close>

text \<open>A header that is absent reads as the empty string. \<open>q_chunks\<close> is what successive reads
  of the body return, and \<open>q_last\<close> what the read returns that also reports the end of the
  body (or a failure, which the code treats alike).\<close>

record request =
  q_method :: string
  q_path :: string
  q_authorization :: string
  q_account :: string
  q_origin :: string
  q_xff :: string
  q_remoteAddr :: string
  q_after :: string
  q_body :: bytes
  q_chunks :: "bytes list"
  q_last :: bytes

datatype jout = OStr string | OInt int | OBool bool | OList "(string \<times> jout) list list"

datatype body = BText string | BJson "(string \<times> jout) list" | BNone

record response =
  p_status :: nat
  p_body :: body

definition httpError :: "string \<Rightarrow> nat \<Rightarrow> response" where
  "httpError msg status = \<lparr>p_status = status, p_body = BText msg\<rparr>"

definition notFound :: response where
  "notFound = httpError ''404 page not found'' 404"

definition okJson :: "(string \<times> jout) list \<Rightarrow> response" where
  "okJson fs = \<lparr>p_status = 200, p_body = BJson fs\<rparr>"

lemma status_simps [simp]:
  "p_status (httpError m n) = n" "p_status notFound = 404" "p_status (okJson fs) = 200"
  by (simp_all add: httpError_def notFound_def okJson_def)

subsection \<open>The client's address\<close>

text \<open>\<open>net.SplitHostPort\<close>: the host, \<open>None\<close> on an error.\<close>

definition lastColon :: "string \<Rightarrow> nat option" where
  "lastColon s = (if CHR '':'' \<in> set s
     then Some (length s - Suc (length (takeWhile (\<lambda>c. c \<noteq> CHR '':'') (rev s)))) else None)"

definition splitHostPort :: "string \<Rightarrow> string option" where
  "splitHostPort s =
     (case lastColon s of
        None \<Rightarrow> None
      | Some i \<Rightarrow>
          (if take 1 s = ''['' then
             (let e = length (takeWhile (\<lambda>c. c \<noteq> CHR '']'') s) in
              if e \<ge> length s \<or> e + 1 \<noteq> i then None
              else if CHR ''['' \<in> set (drop 1 s) \<or> CHR '']'' \<in> set (drop (e + 1) s) then None
              else Some (take (e - 1) (drop 1 s)))
           else
             (let host = take i s in
              if CHR '':'' \<in> set host \<or> CHR ''['' \<in> set s \<or> CHR '']'' \<in> set s then None
              else Some host)))"

definition clientIP :: "request \<Rightarrow> string" where
  "clientIP r =
     (if q_xff r \<noteq> '''' then trimSpace (takeWhile (\<lambda>c. c \<noteq> CHR '','') (q_xff r))
      else (case splitHostPort (q_remoteAddr r) of
          None \<Rightarrow> q_remoteAddr r
        | Some host \<Rightarrow> host))"

subsection \<open>JSON request bodies\<close>

text \<open>
  \<open>json.NewDecoder(http.MaxBytesReader(w, r.Body, 4096)).Decode(&req)\<close>: the first JSON value
  of at most 4096 bytes of body, whose members bind to the struct's fields; other members
  are ignored, a member of the wrong type is an error. \<open>jr\<close> is the lexical layer, as for
  envelopes.
\<close>

definition maxBody :: nat where "maxBody = 4096"

definition bindBool :: "((bool \<Rightarrow> bool) \<Rightarrow> 'r \<Rightarrow> 'r) \<Rightarrow> jval \<Rightarrow> 'r \<Rightarrow> 'r option" where
  "bindBool upd v r = (case v of JBool b \<Rightarrow> Some (upd (\<lambda>_. b) r) | JNull \<Rightarrow> Some r | _ \<Rightarrow> None)"

text \<open>An \<open>int64\<close> field takes a number literal that is an integer in range.\<close>

definition intLiteral :: "string \<Rightarrow> int option" where
  "intLiteral s = (case parseDec s of None \<Rightarrow> None | Some n \<Rightarrow> if int64 n then Some n else None)"

definition bindInt :: "((int \<Rightarrow> int) \<Rightarrow> 'r \<Rightarrow> 'r) \<Rightarrow> jval \<Rightarrow> 'r \<Rightarrow> 'r option" where
  "bindInt upd v r = (case v of
       JNum s \<Rightarrow> (case intLiteral s of None \<Rightarrow> None | Some n \<Rightarrow> Some (upd (\<lambda>_. n) r))
     | JNull \<Rightarrow> Some r
     | _ \<Rightarrow> None)"

fun bindObject :: "string list \<Rightarrow> (string \<Rightarrow> jval \<Rightarrow> 'r \<Rightarrow> 'r option) \<Rightarrow>
    (string \<times> bytes \<times> jval) list \<Rightarrow> 'r \<Rightarrow> 'r option" where
  "bindObject names set1 [] r = Some r"
| "bindObject names set1 ((k, raw, v) # ms) r =
     (case fieldOf names k of
        None \<Rightarrow> bindObject names set1 ms r
      | Some f \<Rightarrow> (case set1 f v r of None \<Rightarrow> None | Some r' \<Rightarrow> bindObject names set1 ms r'))"

definition bindDoc :: "string list \<Rightarrow> (string \<Rightarrow> jval \<Rightarrow> 'r \<Rightarrow> 'r option) \<Rightarrow> 'r \<Rightarrow> jdoc \<Rightarrow> 'r option" where
  "bindDoc names set1 zero d = (case d of
     JDNull \<Rightarrow> Some zero
   | JDObject ms \<Rightarrow> bindObject names set1 ms zero
   | JDOther \<Rightarrow> None)"

definition decodeBody :: "json_reader \<Rightarrow> string list \<Rightarrow> (string \<Rightarrow> jval \<Rightarrow> 'r \<Rightarrow> 'r option) \<Rightarrow> 'r
    \<Rightarrow> bytes \<Rightarrow> 'r option" where
  "decodeBody jr names set1 zero b =
     (case jr (take maxBody b) of None \<Rightarrow> None | Some d \<Rightarrow> bindDoc names set1 zero d)"

record createChannelReq =
  r_channel :: string
  r_authKey :: string
  r_retain :: bool
  r_ttlSec :: int
  r_ticket :: string

definition setCreate :: "string \<Rightarrow> jval \<Rightarrow> createChannelReq \<Rightarrow> createChannelReq option" where
  "setCreate f v r =
     (if f = ''channel'' then bindString r_channel_update v r
      else if f = ''auth_key'' then bindString r_authKey_update v r
      else if f = ''retain'' then bindBool r_retain_update v r
      else if f = ''ttl_sec'' then bindInt r_ttlSec_update v r
      else bindString r_ticket_update v r)"

definition decodeCreate :: "json_reader \<Rightarrow> bytes \<Rightarrow> createChannelReq option" where
  "decodeCreate jr b = decodeBody jr [''channel'', ''auth_key'', ''retain'', ''ttl_sec'', ''ticket''] setCreate
     \<lparr>r_channel = '''', r_authKey = '''', r_retain = False, r_ttlSec = 0, r_ticket = ''''\<rparr> b"

record adminLimitReq =
  l_channel :: string
  l_ttlSec :: int
  l_maxBytes :: int
  l_maxMsgs :: int

definition setLimit :: "string \<Rightarrow> jval \<Rightarrow> adminLimitReq \<Rightarrow> adminLimitReq option" where
  "setLimit f v r =
     (if f = ''channel'' then bindString l_channel_update v r
      else if f = ''ttl_sec'' then bindInt l_ttlSec_update v r
      else if f = ''max_bytes'' then bindInt l_maxBytes_update v r
      else bindInt l_maxMsgs_update v r)"

definition decodeLimit :: "json_reader \<Rightarrow> bytes \<Rightarrow> adminLimitReq option" where
  "decodeLimit jr b = decodeBody jr [''channel'', ''ttl_sec'', ''max_bytes'', ''max_msgs''] setLimit
     \<lparr>l_channel = '''', l_ttlSec = 0, l_maxBytes = 0, l_maxMsgs = 0\<rparr> b"

record adminGrantReq =
  gr_match :: string
  gr_ttlSec :: int
  gr_maxBytes :: int
  gr_maxMsgs :: int
  gr_expirySec :: int

definition setGrant :: "string \<Rightarrow> jval \<Rightarrow> adminGrantReq \<Rightarrow> adminGrantReq option" where
  "setGrant f v r =
     (if f = ''channel_match'' then bindString gr_match_update v r
      else if f = ''ttl_sec'' then bindInt gr_ttlSec_update v r
      else if f = ''max_bytes'' then bindInt gr_maxBytes_update v r
      else if f = ''max_msgs'' then bindInt gr_maxMsgs_update v r
      else bindInt gr_expirySec_update v r)"

definition decodeGrant :: "json_reader \<Rightarrow> bytes \<Rightarrow> adminGrantReq option" where
  "decodeGrant jr b =
     decodeBody jr [''channel_match'', ''ttl_sec'', ''max_bytes'', ''max_msgs'', ''expiry_sec''] setGrant
       \<lparr>gr_match = '''', gr_ttlSec = 0, gr_maxBytes = 0, gr_maxMsgs = 0, gr_expirySec = 0\<rparr> b"

record wsHandshake =
  hs_channel :: string
  hs_afterSeq :: int

definition setHandshake :: "string \<Rightarrow> jval \<Rightarrow> wsHandshake \<Rightarrow> wsHandshake option" where
  "setHandshake f v r =
     (if f = ''channel'' then bindString hs_channel_update v r else bindInt hs_afterSeq_update v r)"

definition decodeHandshake :: "json_reader \<Rightarrow> bytes \<Rightarrow> wsHandshake option" where
  "decodeHandshake ju b = (case ju b of None \<Rightarrow> None
     | Some d \<Rightarrow> bindDoc [''channel'', ''after_seq''] setHandshake \<lparr>hs_channel = '''', hs_afterSeq = 0\<rparr> d)"

definition decodeAuth :: "json_reader \<Rightarrow> bytes \<Rightarrow> string option" where
  "decodeAuth ju b = (case ju b of None \<Rightarrow> None
     | Some d \<Rightarrow> bindDoc [''response''] (\<lambda>f v r. bindString (\<lambda>u. u) v r) '''' d)"

end
