(* ===== verification/Auth.thy ===== *)
theory Auth
  imports Client_Crypto
begin

text \<open>
  Broker-side admission for private channels (\<open>src/internal/auth/auth.go\<close>): the registry of
  channel ids and their admission keys, and the challenge-response check. A mutation tells
  the \<open>onChange\<close> callback, when one is set; the result of each mutating operation says
  whether it fired. The registry's mutex makes each operation one atomic step.
\<close>

subsection \<open>The admission interface\<close>

text \<open>
  What the transport relies on: \<open>gated\<close> channels are exactly the registered ones, a
  registration is never overwritten, and a failed registration changes nothing.
\<close>

locale admission =
  fixes gated :: "'s \<Rightarrow> string \<Rightarrow> bool"
    and key :: "'s \<Rightarrow> string \<Rightarrow> 'k option"
    and enroll :: "string \<Rightarrow> 'k \<Rightarrow> 's \<Rightarrow> bool \<times> 's"
  assumes gated_key: "gated s ch \<longleftrightarrow> key s ch \<noteq> None"
    and enroll_ok: "fst (enroll ch k s) \<Longrightarrow>
      key s ch = None \<and> key (snd (enroll ch k s)) = (key s)(ch \<mapsto> k)"
    and enroll_failed: "\<not> fst (enroll ch k s) \<Longrightarrow> snd (enroll ch k s) = s"
begin

lemma enroll_mono: "key s c = Some k' \<Longrightarrow> key (snd (enroll ch k s)) c = Some k'"
  using enroll_ok [of ch k s] enroll_failed [of ch k s]
  by (cases "fst (enroll ch k s)") auto

lemma gated_mono: "gated s c \<Longrightarrow> gated (snd (enroll ch k s)) c"
  using enroll_mono by (fastforce simp: gated_key)

lemma gated_fold: "gated s c \<Longrightarrow> gated (fold (\<lambda>(ch, k) s. snd (enroll ch k s)) es s) c"
  by (induction es arbitrary: s) (auto simp: gated_mono)

lemma key_fold: "key s c = Some k' \<Longrightarrow>
    key (fold (\<lambda>(ch, k) s. snd (enroll ch k s)) es s) c = Some k'"
  by (induction es arbitrary: s) (auto simp: enroll_mono)

end

subsection \<open>State and operations\<close>

definition ChallengeSize :: nat where "ChallengeSize = 32"

datatype auth_error = ErrUnauthorized | ErrChannelExists | EmptyChannelId | NoRandom

record registry =
  channels :: "string \<rightharpoonup> bytes"
  onChange :: bool \<comment> \<open>a callback is set\<close>

definition NewRegistry :: registry where
  "NewRegistry = \<lparr>channels = Map.empty, onChange = False\<rparr>"

definition OnChange :: "bool \<Rightarrow> registry \<Rightarrow> registry" where
  "OnChange fn r = r\<lparr>onChange := fn\<rparr>"

definition Register :: "string \<Rightarrow> bytes \<Rightarrow> registry \<Rightarrow> (auth_error + bool) \<times> registry" where
  "Register channel authKey r =
     (if channel = '''' then (Inl EmptyChannelId, r)
      else if channels r channel \<noteq> None then (Inl ErrChannelExists, r)
      else (Inr (onChange r), r\<lparr>channels := (channels r)(channel \<mapsto> authKey)\<rparr>))"

definition Remove :: "string \<Rightarrow> registry \<Rightarrow> bool \<times> registry" where
  "Remove channel r =
     (let existed = channels r channel \<noteq> None
      in (existed \<and> onChange r, r\<lparr>channels := (channels r)(channel := None)\<rparr>))"

definition NewChallenge :: "bytes option \<Rightarrow> auth_error + bytes" where
  "NewChallenge rand = (case rand of None \<Rightarrow> Inl NoRandom | Some c \<Rightarrow> Inr c)"

definition VerifyResponse :: "prims \<Rightarrow> string \<Rightarrow> bytes \<Rightarrow> bytes \<Rightarrow> registry \<Rightarrow> auth_error + unit" where
  "VerifyResponse P channel challenge response r =
     (let ok = channels r channel \<noteq> None;
          expected = (case channels r channel of
              Some authKey \<Rightarrow> ResponseFromAuthKey P authKey challenge
            | None \<Rightarrow> ResponseFromAuthKey P (replicate keySize (char_of (0::nat))) challenge);
          match = ConstantTimeCompare expected response = 1
      in if \<not> ok \<or> \<not> match then Inl ErrUnauthorized else Inr ())"

definition HasChannel :: "string \<Rightarrow> registry \<Rightarrow> bool" where
  "HasChannel channel r \<longleftrightarrow> channels r channel \<noteq> None"

definition encodeKey :: "bytes \<Rightarrow> string" where
  "encodeKey k = RegistrationKeyFromBytes k"

definition Snapshot :: "registry \<Rightarrow> (string \<rightharpoonup> string)" where
  "Snapshot r = (\<lambda>ch. map_option encodeKey (channels r ch))"

definition Load :: "(string \<rightharpoonup> string) \<Rightarrow> registry \<Rightarrow> registry" where
  "Load snap r = r\<lparr>channels := (\<lambda>ch. case snap ch of
       None \<Rightarrow> None
     | Some enc \<Rightarrow> (case DecodeAuthKey enc of Inl _ \<Rightarrow> None | Inr k \<Rightarrow> Some k))\<rparr>"

subsection \<open>Lemmas\<close>

definition registryInv :: "registry \<Rightarrow> bool" where
  "registryInv r \<longleftrightarrow> (\<forall>ch k. channels r ch = Some k \<longrightarrow> length k = keySize)"

definition enrollKey :: "string \<Rightarrow> bytes \<Rightarrow> registry \<Rightarrow> bool \<times> registry" where
  "enrollKey ch k r = (case Register ch k r of (Inl _, r') \<Rightarrow> (False, r') | (Inr _, r') \<Rightarrow> (True, r'))"

lemma snd_enrollKey [simp]: "snd (enrollKey ch k r) = snd (Register ch k r)"
  by (auto simp: enrollKey_def split: prod.splits sum.splits)

interpretation gate: admission "\<lambda>r ch. HasChannel ch r" channels enrollKey
  by unfold_locales (auto simp: HasChannel_def enrollKey_def Register_def split: if_splits)

lemma Register_inv [inv_intros]:
  "registryInv r \<Longrightarrow> length k = keySize \<Longrightarrow> registryInv (snd (Register ch k r))"
  by (auto simp: registryInv_def Register_def)

lemma Load_inv [inv_intros]: "registryInv (Load snap r)"
  by (auto simp: registryInv_def Load_def split: option.splits sum.splits dest: DecodeAuthKey_length)

lemma NewRegistry_inv [inv_intros]: "registryInv NewRegistry"
  by (simp add: registryInv_def NewRegistry_def)

lemma Load_channels:
  "channels (Load snap r) ch = Option.bind (snap ch) decodeKeyOpt"
  by (auto simp: Load_def decodeKeyOpt_def split: option.splits sum.splits)

lemma VerifyResponse_iff:
  "VerifyResponse P ch c resp r = Inr u \<longleftrightarrow>
     (\<exists>k. channels r ch = Some k \<and> resp = ResponseFromAuthKey P k c)"
  by (auto simp: VerifyResponse_def Let_def split: option.splits)

lemma VerifyResponse_Inl: "VerifyResponse P ch c resp r = Inl e \<Longrightarrow> e = ErrUnauthorized"
  by (auto simp: VerifyResponse_def Let_def split: if_splits)

subsection \<open>Properties\<close>


text \<open>
  A holder of the secret is always admitted: once a channel has been registered with the
  registration key of a secret, and whatever is registered afterwards, the response the
  client computes from the secret to any challenge is accepted.
\<close>
theorem secret_holder_admitted:
  assumes "RegistrationKey P secret = Inr enc" and "DecodeAuthKey enc = Inr k"
    and "Register ch k r0 = (Inr n, r)"
  shows "\<exists>resp. ChallengeResponse P secret challenge = Inr resp \<and>
    VerifyResponse P ch challenge resp (fold (\<lambda>(c, k') s. snd (enrollKey c k' s)) later r) = Inr ()"
proof -
  obtain ka where ka: "AuthKey P secret = Inr ka" and enc: "enc = b32encode ka"
    using assms(1) by (auto simp: RegistrationKey_def split: sum.splits)
  have "k = ka" using assms(2) AuthKey_length [OF ka] by (simp add: enc)
  moreover have "channels r ch = Some k"
    using assms(3) by (auto simp: Register_def split: if_splits)
  ultimately have "channels (fold (\<lambda>(c, k') s. snd (enrollKey c k' s)) later r) ch = Some ka"
    by (intro gate.key_fold) simp
  then show ?thesis
    using ka by (auto simp: ChallengeResponse_def VerifyResponse_iff)
qed

theorem secret_holder_admitted_witness:
  "\<exists>k n r resp. Register ''c'' k NewRegistry = (Inr n, r) \<and>
     ChallengeResponse xorPrims exSecret ''nonce'' = Inr resp \<and>
     VerifyResponse xorPrims ''c'' ''nonce'' resp r = Inr ()"
proof -
  obtain s where s: "decodeSecret exSecret = Inr s" using exSecret_ok by blast
  let ?k = "derive xorPrims s authTag"
  have rk: "RegistrationKey xorPrims exSecret = Inr (b32encode ?k)"
    by (simp add: RegistrationKey_def AuthKey_def s)
  have dk: "DecodeAuthKey (b32encode ?k) = Inr ?k" by simp
  have reg: "Register ''c'' ?k NewRegistry = (Inr False, snd (Register ''c'' ?k NewRegistry))"
    by (simp add: Register_def NewRegistry_def)
  from secret_holder_admitted [OF rk dk reg, of "''nonce''" "[]"] reg show ?thesis by auto
qed

text \<open>
  Persistence: for a registry whose keys are 32 bytes (which every operation keeps),
  loading a snapshot of it restores exactly its channels, in any registry; and loading
  skips exactly the entries that do not decode to a 32-byte key.
\<close>
theorem snapshot_load_roundtrip:
  assumes "registryInv r"
  shows "channels (Load (Snapshot r) r') = channels r \<and>
    (\<forall>snap ch. HasChannel ch (Load snap r') \<longleftrightarrow>
       (\<exists>enc k. snap ch = Some enc \<and> DecodeAuthKey enc = Inr k))"
proof
  have "(\<lambda>ch. Option.bind (map_option RegistrationKeyFromBytes (channels r ch)) decodeKeyOpt)
      = channels r"
    using assms by (intro authkey.map_roundtrip) (simp add: registryInv_def)
  then show "channels (Load (Snapshot r) r') = channels r"
    by (intro ext) (simp add: Load_channels Snapshot_def encodeKey_def [abs_def] fun_eq_iff)
  show "\<forall>snap ch. HasChannel ch (Load snap r') \<longleftrightarrow>
      (\<exists>enc k. snap ch = Some enc \<and> DecodeAuthKey enc = Inr k)"
    by (auto simp: HasChannel_def Load_def split: option.splits sum.splits)
qed

theorem snapshot_load_roundtrip_witness:
  "channels (Load (Snapshot (snd (Register ''c'' (replicate 32 (CHR ''k'')) NewRegistry))) NewRegistry) ''c''
     = Some (replicate 32 (CHR ''k''))"
proof -
  have "registryInv (snd (Register ''c'' (replicate 32 (CHR ''k'')) NewRegistry))"
    by (intro inv_intros) (simp add: keySize_def)
  from snapshot_load_roundtrip [OF this, of NewRegistry] show ?thesis
    by (simp add: Register_def NewRegistry_def)
qed

end
