(* ===== verification/Rate_Limits.thy ===== *)
theory Rate_Limits
  imports Prelude Complex_Main
begin

text \<open>
  Abuse controls (\<open>src/internal/limits/limits.go\<close>): token buckets per key and the
  concurrent-connection counter. Times are nanoseconds since Go's zero time and durations
  are 64-bit nanosecond counts. A \<open>float64\<close> is its exact value, and every operation on
  them rounds by the parameter \<open>fl\<close>; \<open>float_ok\<close> states the IEEE facts the proofs use.
\<close>

subsection \<open>Floating point and time\<close>

type_synonym rounding = "rat \<Rightarrow> rat"

definition float_ok :: "rat \<Rightarrow> rat \<Rightarrow> rounding \<Rightarrow> bool" where
  "float_ok u eta fl \<longleftrightarrow> 0 \<le> u \<and> 0 \<le> eta \<and>
     (\<forall>x y. x \<le> y \<longrightarrow> fl x \<le> fl y) \<and>
     (\<forall>x. fl (fl x) = fl x) \<and>
     (\<forall>n. \<bar>n\<bar> \<le> 2 ^ 53 \<longrightarrow> fl (of_int n) = of_int n) \<and>
     (\<forall>x\<ge>0. fl x \<le> (1 + u) * x + eta)"

definition timeSub :: "int \<Rightarrow> int \<Rightarrow> int" where
  "timeSub t u = max (- (2 ^ 63)) (min (2 ^ 63 - 1) (t - u))"

text \<open>\<open>Duration.Seconds\<close>: whole seconds plus the rest over \<open>1e9\<close>, Go's truncating division.\<close>

definition seconds :: "rounding \<Rightarrow> int \<Rightarrow> rat" where
  "seconds fl d =
     (let sec = sgn d * (\<bar>d\<bar> div 1000000000); nsec = sgn d * (\<bar>d\<bar> mod 1000000000)
      in fl (fl (of_int sec) + fl (fl (of_int nsec) / 1000000000)))"

definition second :: int where "second = 1000000000"

record defaults =
  MaxMessageBytes :: int
  RetainedMsgsPerChan :: int
  RetentionTTL :: int \<comment> \<open>nanoseconds\<close>
  RetentionTTLMax :: int \<comment> \<open>nanoseconds\<close>
  BytesPerChannel :: int
  BytesPerAccount :: int
  ChannelsPerAccount :: int
  CreatePerIPPerHour :: int
  ConnectionsPerIP :: int
  PublishPerChanPerMin :: int
  PublishPerAcctPerMin :: int

definition DefaultLimits :: defaults where
  "DefaultLimits = \<lparr>
     MaxMessageBytes = 256 * 1024,
     RetainedMsgsPerChan = 1000,
     RetentionTTL = 24 * (3600 * second),
     RetentionTTLMax = 7 * 24 * (3600 * second),
     BytesPerChannel = 32 * 1024 * 1024,
     BytesPerAccount = 256 * 1024 * 1024,
     ChannelsPerAccount = 100,
     CreatePerIPPerHour = 120,
     ConnectionsPerIP = 40,
     PublishPerChanPerMin = 60,
     PublishPerAcctPerMin = 600\<rparr>"

subsection \<open>Token buckets\<close>

record tokenBucket =
  capacity :: rat
  tokens :: rat
  refillRate :: rat
  last_t :: int

definition allow :: "rounding \<Rightarrow> int \<Rightarrow> tokenBucket \<Rightarrow> bool \<times> tokenBucket" where
  "allow fl t b =
     (let b = (if last_t b = 0 then b\<lparr>last_t := t\<rparr> else b);
          elapsed = seconds fl (timeSub t (last_t b));
          b = (if elapsed > 0 then
                 (let tk = fl (tokens b + fl (elapsed * refillRate b));
                      tk = (if tk > capacity b then capacity b else tk)
                  in b\<lparr>tokens := tk, last_t := t\<rparr>)
               else b)
      in if tokens b \<ge> 1 then (True, b\<lparr>tokens := fl (tokens b - 1)\<rparr>) else (False, b))"

record rateLimiter =
  buckets :: "string \<rightharpoonup> tokenBucket"
  rl_capacity :: rat
  rl_refillRate :: rat

definition NewRateLimiter :: "rounding \<Rightarrow> int \<Rightarrow> rat \<Rightarrow> rateLimiter" where
  "NewRateLimiter fl burst perSecond =
     \<lparr>buckets = Map.empty, rl_capacity = fl (of_int burst), rl_refillRate = perSecond\<rparr>"

definition NewPerMinute :: "rounding \<Rightarrow> int \<Rightarrow> int \<Rightarrow> rateLimiter" where
  "NewPerMinute fl perMinute burst = NewRateLimiter fl burst (fl (fl (of_int perMinute) / 60))"

definition NewPerHour :: "rounding \<Rightarrow> int \<Rightarrow> int \<Rightarrow> rateLimiter" where
  "NewPerHour fl perHour burst = NewRateLimiter fl burst (fl (fl (of_int perHour) / 3600))"

definition freshBucket :: "int \<Rightarrow> rateLimiter \<Rightarrow> tokenBucket" where
  "freshBucket t r = \<lparr>capacity = rl_capacity r, tokens = rl_capacity r,
     refillRate = rl_refillRate r, last_t = t\<rparr>"

definition Allow :: "rounding \<Rightarrow> int \<Rightarrow> string \<Rightarrow> rateLimiter \<Rightarrow> bool \<times> rateLimiter" where
  "Allow fl t key r =
     (let b = (case buckets r key of Some b \<Rightarrow> b | None \<Rightarrow> freshBucket t r);
          (ok, b') = allow fl t b
      in (ok, r\<lparr>buckets := (buckets r)(key \<mapsto> b')\<rparr>))"

text \<open>\<open>gc\<close> tops a bucket up and forgets it when it is full again.\<close>

definition gcBucket :: "rounding \<Rightarrow> int \<Rightarrow> tokenBucket \<Rightarrow> tokenBucket option" where
  "gcBucket fl t b =
     (let elapsed = seconds fl (timeSub t (last_t b)) in
      if elapsed > 0 then
        (let b = b\<lparr>tokens := fl (tokens b + fl (elapsed * refillRate b))\<rparr>
         in if tokens b \<ge> capacity b then None else Some b)
      else Some b)"

definition gc :: "rounding \<Rightarrow> int \<Rightarrow> rateLimiter \<Rightarrow> rateLimiter" where
  "gc fl t r = r\<lparr>buckets := (\<lambda>k. Option.bind (buckets r k) (gcBucket fl t))\<rparr>"

subsection \<open>Concurrent connections\<close>

record connCounter =
  max_c :: int
  count :: "string \<rightharpoonup> int"

definition NewConnCounter :: "int \<Rightarrow> connCounter" where
  "NewConnCounter m = \<lparr>max_c = m, count = Map.empty\<rparr>"

definition countOf :: "connCounter \<Rightarrow> string \<Rightarrow> int" where
  "countOf c key = (case count c key of None \<Rightarrow> 0 | Some n \<Rightarrow> n)"

definition Acquire :: "string \<Rightarrow> connCounter \<Rightarrow> bool \<times> connCounter" where
  "Acquire key c =
     (if countOf c key \<ge> max_c c then (False, c)
      else (True, c\<lparr>count := (count c)(key \<mapsto> countOf c key + 1)\<rparr>))"

definition Release :: "string \<Rightarrow> connCounter \<Rightarrow> connCounter" where
  "Release key c =
     (if countOf c key > 0 then
        (let n = countOf c key - 1 in
         if n = 0 then c\<lparr>count := (count c)(key := None)\<rparr>
         else c\<lparr>count := (count c)(key \<mapsto> n)\<rparr>)
      else c)"

subsection \<open>The limiter interface\<close>

text \<open>
  What the handlers rely on: an event for one key is decided by that key's own state and
  leaves every other key's state alone. Then the verdicts for a key do not depend on what
  other keys do in between.
\<close>

primrec verdicts :: "('t \<Rightarrow> 'k \<Rightarrow> 's \<Rightarrow> bool \<times> 's) \<Rightarrow> ('t \<times> 'k) list \<Rightarrow> 's \<Rightarrow> ('k \<times> bool) list" where
  "verdicts decide [] s = []"
| "verdicts decide (e # es) s =
     (snd e, fst (decide (fst e) (snd e) s)) # verdicts decide es (snd (decide (fst e) (snd e) s))"

locale keyed_limiter =
  fixes decide :: "'t \<Rightarrow> 'k \<Rightarrow> 's \<Rightarrow> bool \<times> 's"
    and view :: "'s \<Rightarrow> 'k \<Rightarrow> 'v"
  assumes decide_other: "k' \<noteq> k \<Longrightarrow> view (snd (decide t k s)) k' = view s k'"
    and decide_own: "view s k = view s' k \<Longrightarrow>
      fst (decide t k s) = fst (decide t k s') \<and>
      view (snd (decide t k s)) k = view (snd (decide t k s')) k"
begin

lemma verdicts_isolated:
  "view s k = view s' k \<Longrightarrow>
     filter (\<lambda>v. fst v = k) (verdicts decide es s) = verdicts decide (filter (\<lambda>e. snd e = k) es) s'"
proof (induction es arbitrary: s s')
  case Nil
  then show ?case by simp
next
  case (Cons e es)
  show ?case
  proof (cases "snd e = k")
    case True
    with decide_own Cons.prems have
      "fst (decide (fst e) k s) = fst (decide (fst e) k s')"
      "view (snd (decide (fst e) k s)) k = view (snd (decide (fst e) k s')) k" by blast+
    with True Cons.IH show ?thesis by auto
  next
    case False
    then have "view (snd (decide (fst e) (snd e) s)) k = view s' k"
      using decide_other [of k "snd e"] Cons.prems by simp
    with False Cons.IH show ?thesis by simp
  qed
qed

end

definition limiterView :: "rateLimiter \<Rightarrow> string \<Rightarrow> tokenBucket option \<times> rat \<times> rat" where
  "limiterView r k = (buckets r k, rl_capacity r, rl_refillRate r)"

interpretation rl: keyed_limiter "Allow fl" limiterView for fl
  by unfold_locales
    (auto simp: limiterView_def Allow_def freshBucket_def Let_def split: prod.splits option.splits)

subsection \<open>Bucket lemmas\<close>

lemma float_okD:
  assumes "float_ok u eta fl"
  shows "x \<le> y \<Longrightarrow> fl x \<le> fl y" "fl (fl x) = fl x" "\<bar>n\<bar> \<le> 2 ^ 53 \<Longrightarrow> fl (of_int n) = of_int n"
    "0 \<le> x \<Longrightarrow> fl x \<le> (1 + u) * x + eta" "fl 0 = 0" "0 \<le> u" "0 \<le> eta"
    "0 \<le> x \<Longrightarrow> 0 \<le> fl x" "x \<le> 0 \<Longrightarrow> fl x \<le> 0"
proof -
  show "x \<le> y \<Longrightarrow> fl x \<le> fl y" for x y using assms by (simp add: float_ok_def)
  note mono = this
  show z: "fl 0 = 0" using assms by (simp add: float_ok_def) (metis abs_zero of_int_0 zero_le_numeral zero_le_power)
  show "fl (fl x) = fl x" "\<bar>n\<bar> \<le> 2 ^ 53 \<Longrightarrow> fl (of_int n) = of_int n"
    "0 \<le> x \<Longrightarrow> fl x \<le> (1 + u) * x + eta" "0 \<le> u" "0 \<le> eta"
    using assms by (simp_all add: float_ok_def)
  show "0 \<le> x \<Longrightarrow> 0 \<le> fl x" "x \<le> 0 \<Longrightarrow> fl x \<le> 0" using mono z by metis+
qed

definition bucketOk :: "rounding \<Rightarrow> tokenBucket \<Rightarrow> bool" where
  "bucketOk fl b \<longleftrightarrow> 0 \<le> tokens b \<and> tokens b \<le> capacity b \<and> fl (capacity b) = capacity b \<and>
     0 \<le> refillRate b"

lemma allow_frame [simp]:
  "capacity (snd (allow fl t b)) = capacity b" "refillRate (snd (allow fl t b)) = refillRate b"
  by (simp_all add: allow_def Let_def)

text \<open>The bucket after the refill, before a token is taken.\<close>

definition refilled :: "rounding \<Rightarrow> int \<Rightarrow> tokenBucket \<Rightarrow> tokenBucket" where
  "refilled fl t b =
     (let b = (if last_t b = 0 then b\<lparr>last_t := t\<rparr> else b);
          elapsed = seconds fl (timeSub t (last_t b))
      in if elapsed > 0 then
           b\<lparr>tokens := min (capacity b) (fl (tokens b + fl (elapsed * refillRate b))), last_t := t\<rparr>
         else b)"

lemma clamp_min: "(if x > c then c else x) = min c (x :: rat)"
  by (simp add: min_def)

lemma allow_refilled:
  "allow fl t b = (let b' = refilled fl t b in
     if tokens b' \<ge> 1 then (True, b'\<lparr>tokens := fl (tokens b' - 1)\<rparr>) else (False, b'))"
  by (simp only: allow_def refilled_def Let_def clamp_min)

lemma refilled_frame [simp]:
  "capacity (refilled fl t b) = capacity b" "refillRate (refilled fl t b) = refillRate b"
  by (simp_all add: refilled_def Let_def)

lemma refilled_ok:
  assumes fl: "float_ok u eta fl" and b: "bucketOk fl b"
  shows "bucketOk fl (refilled fl t b)"
proof -
  note F = float_okD [OF fl]
  have "0 \<le> fl (tokens b + fl (el * refillRate b))" if "el > 0" for el
    using b that by (intro F(8)) (simp add: bucketOk_def F(8))
  then have "bucketOk fl (b'\<lparr>tokens := min (capacity b) (fl (tokens b + fl (el * refillRate b))),
      last_t := t\<rparr>)" if "el > 0" "b' = b \<or> b' = b\<lparr>last_t := t\<rparr>" for b' el
    using that b by (auto simp: bucketOk_def)
  moreover have "bucketOk fl (b\<lparr>last_t := t\<rparr>)" using b by (simp add: bucketOk_def)
  ultimately show ?thesis using b by (simp add: refilled_def Let_def)
qed

lemma allow_ok:
  assumes fl: "float_ok u eta fl" and b: "bucketOk fl b"
  shows "bucketOk fl (snd (allow fl t b))"
proof -
  note F = float_okD [OF fl]
  let ?b = "refilled fl t b"
  have r: "bucketOk fl ?b" using refilled_ok [OF fl b] .
  have "fl (tokens ?b - 1) \<le> capacity ?b"
    using r F(1) [of "tokens ?b - 1" "capacity ?b"] by (simp add: bucketOk_def)
  moreover have "0 \<le> fl (tokens ?b - 1)" if "1 \<le> tokens ?b" using that by (intro F(8)) simp
  ultimately show ?thesis
    using r by (auto simp: allow_refilled Let_def bucketOk_def)
qed

definition limiterInv :: "rounding \<Rightarrow> rateLimiter \<Rightarrow> bool" where
  "limiterInv fl r \<longleftrightarrow> 0 \<le> rl_capacity r \<and> fl (rl_capacity r) = rl_capacity r \<and> 0 \<le> rl_refillRate r \<and>
     (\<forall>k b. buckets r k = Some b \<longrightarrow> bucketOk fl b \<and> capacity b = rl_capacity r \<and>
        refillRate b = rl_refillRate r)"

definition bucketAt :: "int \<Rightarrow> string \<Rightarrow> rateLimiter \<Rightarrow> tokenBucket" where
  "bucketAt t k r = (case buckets r k of Some b \<Rightarrow> b | None \<Rightarrow> freshBucket t r)"

lemma Allow_bucketAt:
  "Allow fl t k r = (fst (allow fl t (bucketAt t k r)),
     r\<lparr>buckets := (buckets r)(k \<mapsto> snd (allow fl t (bucketAt t k r)))\<rparr>)"
  by (simp add: Allow_def bucketAt_def Let_def split: prod.split)

lemma bucketAt_ok:
  assumes "limiterInv fl r"
  shows "bucketOk fl (bucketAt t k r) \<and> capacity (bucketAt t k r) = rl_capacity r \<and>
    refillRate (bucketAt t k r) = rl_refillRate r"
proof (cases "buckets r k")
  case None
  with assms show ?thesis by (simp add: limiterInv_def bucketAt_def freshBucket_def bucketOk_def)
next
  case (Some b)
  with assms show ?thesis by (simp add: limiterInv_def bucketAt_def)
qed

lemma Allow_inv [inv_intros]:
  assumes "float_ok u eta fl" "limiterInv fl r" shows "limiterInv fl (snd (Allow fl t k r))"
  using assms bucketAt_ok [OF assms(2), of t k] allow_ok [OF assms(1), of "bucketAt t k r" t]
  by (auto simp: Allow_bucketAt limiterInv_def)

lemma NewRateLimiter_inv [inv_intros]:
  assumes "float_ok u eta fl" "0 \<le> burst" "0 \<le> rate"
  shows "limiterInv fl (NewRateLimiter fl burst rate)"
  using float_okD [OF assms(1)] assms(2,3) by (simp add: limiterInv_def NewRateLimiter_def)

subsection \<open>The burst\<close>

lemma refilled_same_instant:
  assumes "float_ok u eta fl" "last_t b = t \<or> last_t b = 0"
  shows "refilled fl t b = b\<lparr>last_t := t\<rparr>"
proof -
  have "seconds fl (timeSub t t) = 0"
    using float_okD(5) [OF assms(1)] by (simp add: timeSub_def seconds_def Let_def)
  with assms(2) show ?thesis by (auto simp: refilled_def Let_def)
qed

lemma allow_burst:
  assumes fl: "float_ok u eta fl" and n: "tokens b = of_nat n" "int n \<le> 2 ^ 53" and "last_t b = t"
  shows "allow fl t b = (0 < n, b\<lparr>tokens := of_nat (n - 1)\<rparr>)"
proof (cases n)
  case 0
  have "b\<lparr>tokens := 0\<rparr> = b" "b\<lparr>last_t := t\<rparr> = b" using assms(4) n(1) 0 by auto
  then show ?thesis
    using 0 n(1) refilled_same_instant [OF fl, of b t] assms(4) by (simp add: allow_refilled Let_def)
next
  case (Suc m)
  have "fl (of_int (int m)) = of_int (int m)"
    using n(2) Suc by (intro float_okD(3) [OF fl]) simp
  moreover have "b\<lparr>last_t := t\<rparr> = b" using assms(4) by auto
  ultimately show ?thesis
    using Suc n(1) refilled_same_instant [OF fl, of b t] assms(4)
    by (simp add: allow_refilled Let_def)
qed

definition allowAll :: "rounding \<Rightarrow> int \<Rightarrow> nat \<Rightarrow> string \<Rightarrow> rateLimiter \<Rightarrow> bool list" where
  "allowAll fl t m k r = List.map snd (verdicts (Allow fl) (replicate m (t, k)) r)"

lemma allowAll_Suc: "allowAll fl t (Suc m) k r =
    fst (Allow fl t k r) # allowAll fl t m k (snd (Allow fl t k r))"
  by (simp add: allowAll_def)

lemma allowAll_bucket:
  assumes fl: "float_ok u eta fl" and "tokens (bucketAt t k r) = of_nat n" "int n \<le> 2 ^ 53"
    and "last_t (bucketAt t k r) = t"
  shows "allowAll fl t m k r = replicate (min n m) True @ replicate (m - n) False"
  using assms(2-)
proof (induction m arbitrary: n r)
  case 0
  then show ?case by (simp add: allowAll_def)
next
  case (Suc m)
  let ?r = "snd (Allow fl t k r)"
  note a = allow_burst [OF fl Suc.prems(1,2,3)]
  have b: "bucketAt t k ?r = (bucketAt t k r)\<lparr>tokens := of_nat (n - 1)\<rparr>"
    using a by (simp add: Allow_bucketAt bucketAt_def)
  have "allowAll fl t m k ?r = replicate (min (n - 1) m) True @ replicate (m - (n - 1)) False"
    using Suc.prems by (intro Suc.IH) (simp_all add: b)
  moreover have "fst (Allow fl t k r) = (0 < n)" using a by (simp add: Allow_bucketAt)
  ultimately show ?case by (cases n) (simp_all add: allowAll_Suc)
qed

text \<open>
  The advertised burst is exact, whatever the float rounding: a key seen for the first
  time gets exactly \<open>burst\<close> events at one instant, and every further one at that instant is
  refused.
\<close>
theorem burst_exact:
  assumes "float_ok u eta fl" and "0 \<le> burst" and "burst \<le> 2 ^ 53"
  shows "allowAll fl t m k (NewRateLimiter fl burst perSecond)
    = replicate (min (nat burst) m) True @ replicate (m - nat burst) False"
proof (rule allowAll_bucket [OF assms(1)])
  have "fl (of_int burst) = of_int burst"
    using assms by (intro float_okD(3) [OF assms(1)]) simp
  then show "tokens (bucketAt t k (NewRateLimiter fl burst perSecond)) = of_nat (nat burst)"
    using assms(2) by (simp add: bucketAt_def NewRateLimiter_def freshBucket_def of_nat_nat)
qed (use assms in \<open>simp_all add: bucketAt_def NewRateLimiter_def freshBucket_def\<close>)

lemma float_ok_exact: "float_ok 0 0 (\<lambda>x. x)"
  by (simp add: float_ok_def)

theorem burst_exact_witness:
  "allowAll (\<lambda>x. x) 7 4 ''k'' (NewRateLimiter (\<lambda>x. x) 3 (1 / 2)) = [True, True, True, False]"
  using burst_exact [OF float_ok_exact, of 3 7 4 "''k''" "1 / 2"] by (simp add: numeral_eq_Suc)

subsection \<open>The long-run rate\<close>

definition slack :: "rat \<Rightarrow> rat \<Rightarrow> rat \<Rightarrow> rat \<Rightarrow> rat" where
  "slack u eta cap rate = 2 * u * cap + (3 + u) * eta + (1 + u) ^ 2 * ((2 + u) * eta * rate)"

lemma seconds_nonpos:
  assumes fl: "float_ok u eta fl" and "d \<le> 0" shows "seconds fl d \<le> 0"
proof -
  note F = float_okD [OF fl]
  have "sgn d * (\<bar>d\<bar> div 1000000000) \<le> 0" "sgn d * (\<bar>d\<bar> mod 1000000000) \<le> 0"
    using assms(2) by (auto simp: sgn_if mult_le_0_iff)
  then have "fl (of_int (sgn d * (\<bar>d\<bar> div 1000000000))) \<le> 0"
    "fl (of_int (sgn d * (\<bar>d\<bar> mod 1000000000))) \<le> 0"
    by (intro F(9), simp del: of_int_mult)+
  then show ?thesis
    by (simp add: seconds_def Let_def F(9) add_nonpos_nonpos divide_nonpos_pos del: of_int_mult)
qed

lemma seconds_bound:
  assumes fl: "float_ok u eta fl" and "0 \<le> d" "d \<le> 2 ^ 63"
  shows "seconds fl d \<le> (1 + u) ^ 2 * (of_int d / 1000000000) + (2 + u) * eta"
proof -
  note F = float_okD [OF fl]
  let ?s = "d div 1000000000" and ?n = "d mod 1000000000"
  have n: "0 \<le> ?n" "?n < 1000000000" by simp_all
  have s: "0 \<le> ?s" using assms(2) by (simp add: pos_imp_zdiv_nonneg_iff)
  have "?s \<le> 2 ^ 63 div 1000000000" using assms(3) by (rule zdiv_mono1) simp
  with s have s53: "\<bar>?s\<bar> \<le> 2 ^ 53" by simp
  have n53: "\<bar>?n\<bar> \<le> 2 ^ 53" using n by simp
  have eq: "of_int d = (of_int ?s :: rat) * 1000000000 + of_int ?n"
    by (metis div_mult_mod_eq of_int_add of_int_mult of_int_numeral)
  define q where "q = of_int ?n / (1000000000 :: rat)"
  have q: "0 \<le> q" using n by (simp add: q_def)
  have split: "of_int d / 1000000000 = of_int ?s + q" by (simp add: eq q_def add_divide_distrib)
  have "fl q \<le> (1 + u) * q + eta" using q by (rule F(4))
  moreover have "0 \<le> u * of_int ?s" using F(6) s by simp
  ultimately have sum: "of_int ?s + fl q \<le> (1 + u) * (of_int d / 1000000000) + eta"
    unfolding split by (simp add: algebra_simps)
  have "0 \<le> of_int ?s + fl q" using s F(8) [OF q] by simp
  then have "fl (of_int ?s + fl q) \<le> (1 + u) * (of_int ?s + fl q) + eta" by (rule F(4))
  also have "\<dots> \<le> (1 + u) * ((1 + u) * (of_int d / 1000000000) + eta) + eta"
    using sum F(6) by (intro add_right_mono mult_left_mono) simp_all
  also have "\<dots> = (1 + u) ^ 2 * (of_int d / 1000000000) + (2 + u) * eta"
    by (simp add: algebra_simps power2_eq_square)
  finally have "fl (of_int ?s + fl q) \<le> (1 + u) ^ 2 * (of_int d / 1000000000) + (2 + u) * eta" .
  moreover have "seconds fl d = fl (of_int ?s + fl q)"
  proof (cases "d = 0")
    case True
    then show ?thesis by (simp add: seconds_def Let_def F(5) q_def)
  next
    case False
    with assms(2) have "sgn d = 1" "\<bar>d\<bar> = d" by simp_all
    then show ?thesis by (simp add: seconds_def Let_def F(3) [OF s53] F(3) [OF n53] q_def)
  qed
  ultimately show ?thesis by simp
qed

definition effLast :: "int \<Rightarrow> tokenBucket \<Rightarrow> int" where
  "effLast t b = (if last_t b = 0 then t else last_t b)"

lemma refilled_tokens:
  "tokens (refilled fl t b) = (if seconds fl (timeSub t (effLast t b)) > 0
     then min (capacity b) (fl (tokens b + fl (seconds fl (timeSub t (effLast t b)) * refillRate b)))
     else tokens b)"
  by (cases "last_t b = 0") (simp_all add: refilled_def effLast_def Let_def)

lemma refilled_bound:
  assumes fl: "float_ok u eta fl" and b: "bucketOk fl b"
  shows "tokens (refilled fl t b) \<le> tokens b + (1 + u) ^ 4 * (refillRate b *
      (of_int (last_t (refilled fl t b) - effLast t b) / 1000000000))
      + (u * capacity b + (2 + u) * eta + (1 + u) ^ 2 * ((2 + u) * eta * refillRate b))"
    and "last_t (refilled fl t b) = (if seconds fl (timeSub t (effLast t b)) > 0 then t else effLast t b)"
proof -
  note F = float_okD [OF fl]
  let ?l = "effLast t b" and ?r = "refillRate b" and ?c = "capacity b"
  let ?el = "seconds fl (timeSub t ?l)"
  have nn: "0 \<le> ?r" "0 \<le> ?c" "0 \<le> tokens b" "tokens b \<le> ?c" using b by (auto simp: bucketOk_def)
  show last: "last_t (refilled fl t b) = (if ?el > 0 then t else ?l)"
    by (simp add: refilled_def Let_def effLast_def)
  have slack0: "0 \<le> u * ?c + (2 + u) * eta + (1 + u) ^ 2 * ((2 + u) * eta * ?r)"
    using nn F(6,7) by simp
  show "tokens (refilled fl t b) \<le> tokens b + (1 + u) ^ 4 * (?r *
      (of_int (last_t (refilled fl t b) - ?l) / 1000000000))
      + (u * ?c + (2 + u) * eta + (1 + u) ^ 2 * ((2 + u) * eta * ?r))"
  proof (cases "?el > 0")
    case False
    then have "tokens (refilled fl t b) = tokens b" by (simp add: refilled_tokens)
    with False slack0 show ?thesis by (simp add: last)
  next
    case True
    then have d: "0 < timeSub t ?l" using seconds_nonpos [OF fl] by (meson not_le)
    then have d': "timeSub t ?l \<le> t - ?l" "timeSub t ?l \<le> 2 ^ 63" by (auto simp: timeSub_def)
    let ?D = "of_int (t - ?l) / (1000000000 :: rat)"
    have "?el \<le> (1 + u) ^ 2 * (of_int (timeSub t ?l) / 1000000000) + (2 + u) * eta"
      using d d'(2) by (intro seconds_bound [OF fl]) simp_all
    also have "\<dots> \<le> (1 + u) ^ 2 * ?D + (2 + u) * eta"
      using d'(1) by (intro add_right_mono mult_left_mono divide_right_mono) simp_all
    finally have el: "?el \<le> (1 + u) ^ 2 * ?D + (2 + u) * eta" .
    let ?inc = "fl (?el * ?r)"
    have inc0: "0 \<le> ?inc" using True nn by (intro F(8)) simp
    have "?inc \<le> (1 + u) * (?el * ?r) + eta" using True nn by (intro F(4)) simp
    also have "\<dots> \<le> (1 + u) * (((1 + u) ^ 2 * ?D + (2 + u) * eta) * ?r) + eta"
      using el nn F(6) by (intro add_right_mono mult_left_mono mult_right_mono) simp_all
    finally have inc: "?inc \<le> (1 + u) * (((1 + u) ^ 2 * ?D + (2 + u) * eta) * ?r) + eta" .
    have "tokens (refilled fl t b) \<le> fl (tokens b + ?inc)"
      using True by (simp add: refilled_tokens)
    also have "\<dots> \<le> (1 + u) * (tokens b + ?inc) + eta" using nn inc0 by (intro F(4)) simp
    also have "\<dots> = tokens b + u * tokens b + (1 + u) * ?inc + eta" by (simp add: algebra_simps)
    also have "\<dots> \<le> tokens b + u * ?c
        + (1 + u) * ((1 + u) * (((1 + u) ^ 2 * ?D + (2 + u) * eta) * ?r) + eta) + eta"
      using nn F(6) inc by (intro add_mono mult_left_mono order_refl) simp_all
    also have "\<dots> = tokens b + (1 + u) ^ 4 * (?r * ?D)
        + (u * ?c + (2 + u) * eta + (1 + u) ^ 2 * ((2 + u) * eta * ?r))"
      by (simp add: algebra_simps power2_eq_square power4_eq_xxxx)
    finally show ?thesis using True by (simp add: last)
  qed
qed

lemma allow_bound:
  assumes fl: "float_ok u eta fl" and b: "bucketOk fl b"
  shows "tokens (snd (allow fl t b)) + (if fst (allow fl t b) then 1 else 0) \<le>
     tokens b + (1 + u) ^ 4 * (refillRate b *
       (of_int (last_t (snd (allow fl t b)) - effLast t b) / 1000000000))
     + slack u eta (capacity b) (refillRate b)"
proof -
  note F = float_okD [OF fl]
  let ?b = "refilled fl t b"
  have ok: "bucketOk fl ?b" by (rule refilled_ok [OF fl b])
  have "tokens (snd (allow fl t b)) + (if fst (allow fl t b) then 1 else 0)
      \<le> tokens ?b + u * capacity b + eta"
  proof (cases "tokens ?b \<ge> 1")
    case True
    then have "fl (tokens ?b - 1) \<le> (1 + u) * (tokens ?b - 1) + eta" by (intro F(4)) simp
    also have "\<dots> = tokens ?b - 1 + u * (tokens ?b - 1) + eta" by (simp add: algebra_simps)
    also have "\<dots> \<le> tokens ?b - 1 + u * capacity b + eta"
      using ok F(6) by (intro add_mono mult_left_mono order_refl) (auto simp: bucketOk_def)
    finally show ?thesis using True by (simp add: allow_refilled Let_def)
  next
    case False
    have "0 \<le> u * capacity b + eta" using F(6,7) b by (simp add: bucketOk_def)
    with False show ?thesis by (simp add: allow_refilled Let_def)
  qed
  moreover have "last_t (snd (allow fl t b)) = last_t ?b" by (simp add: allow_refilled Let_def)
  ultimately show ?thesis
    using refilled_bound(1) [OF fl b, of t] by (simp add: slack_def algebra_simps)
qed

text \<open>How many of the events of a run are granted to a key.\<close>

definition granted :: "rounding \<Rightarrow> (int \<times> string) list \<Rightarrow> string \<Rightarrow> rateLimiter \<Rightarrow> nat" where
  "granted fl es k r = length (filter (\<lambda>v. v = (k, True)) (verdicts (Allow fl) es r))"

lemma granted_own:
  "granted fl es k r = granted fl (filter (\<lambda>e. snd e = k) es) k r"
proof -
  have own: "filter (\<lambda>v. v = (k, True)) vs = filter (\<lambda>v. v = (k, True)) (filter (\<lambda>v. fst v = k) vs)" for vs
    by (induction vs) auto
  have iso: "filter (\<lambda>v. fst v = k) (verdicts (Allow fl) es r)
      = verdicts (Allow fl) (filter (\<lambda>e. snd e = k) es) r"
    by (rule rl.verdicts_isolated) (rule refl)
  show ?thesis
    by (simp only: granted_def own [of "verdicts (Allow fl) es r"] iso)
qed

lemma granted_Cons:
  "granted fl ((t, k) # es) k r = (if fst (Allow fl t k r) then 1 else 0)
     + granted fl es k (snd (Allow fl t k r))"
  by (simp add: granted_def)

lemma granted_bound:
  assumes fl: "float_ok u eta fl"
  shows "limiterInv fl r \<Longrightarrow> buckets r k = Some b \<Longrightarrow> 0 < last_t b \<Longrightarrow> last_t b \<le> tmax \<Longrightarrow>
    \<forall>e\<in>set es. snd e = k \<and> 0 < fst e \<and> fst e \<le> tmax \<Longrightarrow>
    of_nat (granted fl es k r) \<le> tokens b
      + (1 + u) ^ 4 * (rl_refillRate r * (of_int (tmax - last_t b) / 1000000000))
      + of_nat (length es) * slack u eta (rl_capacity r) (rl_refillRate r)"
proof (induction es arbitrary: r b)
  case Nil
  have "0 \<le> tokens b" "0 \<le> rl_refillRate r"
    using Nil.prems by (auto simp: limiterInv_def bucketOk_def)
  moreover have "0 \<le> 1 + u" using float_okD(6) [OF fl] by simp
  ultimately show ?case
    using Nil.prems by (simp add: granted_def)
next
  case (Cons e es)
  obtain t where e: "e = (t, k)" "0 < t" "t \<le> tmax" using Cons.prems(5) by (cases e) auto
  let ?b = "snd (allow fl t b)" and ?r = "snd (Allow fl t k r)"
  have at: "bucketAt t k r = b" using Cons.prems(2) by (simp add: bucketAt_def)
  have b: "bucketOk fl b" "capacity b = rl_capacity r" "refillRate b = rl_refillRate r"
    using Cons.prems(1,2) by (auto simp: limiterInv_def)
  have r': "buckets ?r k = Some ?b" "rl_capacity ?r = rl_capacity r"
    "rl_refillRate ?r = rl_refillRate r" "fst (Allow fl t k r) = fst (allow fl t b)"
    by (simp_all add: Allow_bucketAt at)
  have last: "last_t ?b = t \<or> last_t ?b = last_t b"
    using refilled_bound(2) [OF fl b(1), of t] Cons.prems(3)
    by (auto simp: allow_refilled Let_def effLast_def split: if_splits)
  have "of_nat (granted fl es k ?r) \<le> tokens ?b
      + (1 + u) ^ 4 * (rl_refillRate r * (of_int (tmax - last_t ?b) / 1000000000))
      + of_nat (length es) * slack u eta (rl_capacity r) (rl_refillRate r)"
    using Cons.IH [OF Allow_inv [OF fl Cons.prems(1)] r'(1)] Cons.prems last e
    by (auto simp: r')
  moreover have "tokens ?b + (if fst (allow fl t b) then 1 else 0) \<le> tokens b
      + (1 + u) ^ 4 * (rl_refillRate r * (of_int (last_t ?b - last_t b) / 1000000000))
      + slack u eta (rl_capacity r) (rl_refillRate r)"
    using allow_bound [OF fl b(1), of t] Cons.prems(3) b by (simp add: effLast_def)
  ultimately show ?case
    by (cases "fst (allow fl t b)")
      (simp_all add: e granted_Cons r' algebra_simps add_divide_distrib diff_divide_distrib)
qed

text \<open>
  C37. The long-run rate, for any interleaving of events of all keys and any clock readings
  between \<open>t0\<close> and \<open>tmax\<close>: a key is granted at most its burst, plus the refill rate times
  the elapsed seconds, up to the relative rounding error \<open>(1 + u) ^ 4\<close> of the float
  operations and a rounding slack per event.
\<close>
theorem rate_bounded:
  assumes fl: "float_ok u eta fl" and "0 \<le> burst" and "burst \<le> 2 ^ 53" and "0 \<le> rate"
    and "\<forall>e\<in>set es. t0 \<le> fst e \<and> fst e \<le> tmax" and "0 < t0" and "t0 \<le> tmax"
  shows "of_nat (granted fl es k (NewRateLimiter fl burst rate)) \<le>
    of_int burst + (1 + u) ^ 4 * (rate * (of_int (tmax - t0) / 1000000000))
    + of_nat (length (filter (\<lambda>e. snd e = k) es)) * slack u eta (of_int burst) rate"
proof -
  let ?r = "NewRateLimiter fl burst rate" and ?es = "filter (\<lambda>e. snd e = k) es"
  have cap: "fl (of_int burst) = of_int burst" using assms by (intro float_okD(3) [OF fl]) simp
  have inv: "limiterInv fl ?r" using assms by (intro NewRateLimiter_inv [OF fl])
  have u0: "0 \<le> (1 + u) ^ 4" using float_okD(6) [OF fl] by simp
  show ?thesis
  proof (cases ?es)
    case Nil
    have "granted fl es k ?r = 0" by (subst granted_own) (simp add: Nil granted_def)
    then show ?thesis using assms u0 Nil by simp
  next
    case (Cons e rest)
    then obtain t where e: "e = (t, k)" by (metis (mono_tags) Cons_eq_filterD prod.collapse)
    have mem: "set ?es \<subseteq> set es" by auto
    let ?b = "freshBucket t ?r" and ?r' = "?r\<lparr>buckets := [k \<mapsto> freshBucket t ?r]\<rparr>"
    have at: "bucketAt t k ?r = ?b" "bucketAt t k ?r' = ?b"
      by (simp_all add: bucketAt_def NewRateLimiter_def)
    have "Allow fl t k ?r' = Allow fl t k ?r"
      unfolding Allow_bucketAt at by (simp add: NewRateLimiter_def)
    then have g: "granted fl es k ?r = granted fl ?es k ?r'"
      by (subst granted_own) (simp add: Cons e granted_Cons)
    have inv': "limiterInv fl ?r'"
      using inv bucketAt_ok [OF inv, of t k] at(1)
      by (simp add: limiterInv_def freshBucket_def NewRateLimiter_def)
    have t: "t0 \<le> t" "t \<le> tmax" using assms(5) mem Cons e by force+
    have "of_nat (granted fl ?es k ?r') \<le> tokens ?b
        + (1 + u) ^ 4 * (rl_refillRate ?r' * (of_int (tmax - last_t ?b) / 1000000000))
        + of_nat (length ?es) * slack u eta (rl_capacity ?r') (rl_refillRate ?r')"
      by (rule granted_bound [OF fl inv'])
        (use t assms in \<open>auto simp: freshBucket_def NewRateLimiter_def\<close>)
    also have "\<dots> = of_int burst + (1 + u) ^ 4 * (rate * (of_int (tmax - t) / 1000000000))
        + of_nat (length ?es) * slack u eta (of_int burst) rate"
      by (simp add: freshBucket_def NewRateLimiter_def cap)
    also have "\<dots> \<le> of_int burst + (1 + u) ^ 4 * (rate * (of_int (tmax - t0) / 1000000000))
        + of_nat (length ?es) * slack u eta (of_int burst) rate"
      using t assms(4) u0 by (intro add_mono mult_left_mono divide_right_mono order_refl) simp_all
    finally show ?thesis by (simp add: g)
  qed
qed

theorem rate_bounded_witness:
  "of_nat (granted (\<lambda>x. x) [(1, ''k''), (2, ''x''), (1000000001, ''k''), (1000000001, ''k'')] ''k''
     (NewRateLimiter (\<lambda>x. x) 1 1)) \<le> (2 :: rat)"
  using rate_bounded [OF float_ok_exact, of 1 1
      "[(1, ''k''), (2, ''x''), (1000000001, ''k''), (1000000001, ''k'')]" 1 1000000001 "''k''"]
  by (simp add: slack_def)

text \<open>
  Keys are isolated: the verdicts a key gets in a run are those it would get if no
  other key had any event, from any limiter that agrees on its bucket and the policy.
\<close>
theorem limiter_isolated:
  assumes "limiterView r k = limiterView r' k"
  shows "filter (\<lambda>v. fst v = k) (verdicts (Allow fl) es r)
    = verdicts (Allow fl) (filter (\<lambda>e. snd e = k) es) r'"
  using assms by (rule rl.verdicts_isolated)

theorem limiter_isolated_witness:
  "filter (\<lambda>v. fst v = ''a'') (verdicts (Allow (\<lambda>x. x)) [(1, ''b''), (1, ''a''), (1, ''b'')]
      (NewRateLimiter (\<lambda>x. x) 1 1))
    = verdicts (Allow (\<lambda>x. x)) [(1, ''a'')] (NewRateLimiter (\<lambda>x. x) 1 1)"
  using limiter_isolated [OF refl, of "''a''" "\<lambda>x. x"
      "[(1, ''b''), (1, ''a''), (1, ''b'')]" "NewRateLimiter (\<lambda>x. x) 1 1"] by simp

text \<open>
  \<open>gc\<close> is not neutral: it credits the idle time without moving the bucket's clock, so
  the next event credits it again. A drained bucket of capacity 20 at one token per second
  holds 10 tokens after 10 seconds; after a \<open>gc\<close> at that moment it grants 20 events.
\<close>
theorem gc_credits_twice:
  "\<exists>r. limiterInv (\<lambda>x. x) r \<and>
     allowAll (\<lambda>x. x) 10000000001 20 ''k'' r = replicate 10 True @ replicate 10 False \<and>
     allowAll (\<lambda>x. x) 10000000001 20 ''k'' (gc (\<lambda>x. x) 10000000001 r) = replicate 20 True"
proof -
  let ?b = "\<lparr>capacity = 20, tokens = 0, refillRate = 1, last_t = 1\<rparr> :: tokenBucket"
  let ?r = "\<lparr>buckets = [''k'' \<mapsto> ?b], rl_capacity = 20, rl_refillRate = 1\<rparr>"
  have s: "seconds (\<lambda>x. x) (timeSub 10000000001 1) = 10" "seconds (\<lambda>x. x) (timeSub t t) = 0" for t
    by (simp_all add: seconds_def timeSub_def Let_def)
  have gc: "gc (\<lambda>x. x) 10000000001 ?r = ?r\<lparr>buckets := [''k'' \<mapsto> ?b\<lparr>tokens := 10\<rparr>]\<rparr>"
    by (auto simp: gc_def gcBucket_def s Let_def fun_eq_iff)
  have full: "allowAll (\<lambda>x. x) 10000000001 20 ''k'' (gc (\<lambda>x. x) 10000000001 ?r) = replicate 20 True"
    by (simp add: allowAll_def gc Allow_def allow_def s Let_def numeral_eq_Suc)
  have half: "allowAll (\<lambda>x. x) 10000000001 20 ''k'' ?r = replicate 10 True @ replicate 10 False"
    by (simp add: allowAll_def Allow_def allow_def s Let_def numeral_eq_Suc)
  have "limiterInv (\<lambda>x. x) ?r" by (simp add: limiterInv_def bucketOk_def)
  with full half show ?thesis by blast
qed

subsection \<open>Connections\<close>

text \<open>
  Executions of the counter under its callers: a connection is held from a successful
  \<open>Acquire\<close> to its \<open>Release\<close>, which only a holder calls (\<open>defer\<close> in the handler).
\<close>

inductive connRun :: "int \<Rightarrow> connCounter \<Rightarrow> (string \<Rightarrow> nat) \<Rightarrow> bool" where
  cr_new: "connRun m (NewConnCounter m) (\<lambda>_. 0)"
| cr_acquire: "connRun m c held \<Longrightarrow> Acquire k c = (True, c') \<Longrightarrow>
     connRun m c' (held(k := Suc (held k)))"
| cr_refused: "connRun m c held \<Longrightarrow> Acquire k c = (False, c') \<Longrightarrow> connRun m c' held"
| cr_release: "connRun m c held \<Longrightarrow> 0 < held k \<Longrightarrow>
     connRun m (Release k c) (held(k := held k - 1))"

lemma countOf_Acquire:
  "Acquire k c = (True, c') \<Longrightarrow> countOf c' x = (if x = k then countOf c k + 1 else countOf c x)"
  "Acquire k c = (True, c') \<Longrightarrow> max_c c' = max_c c \<and> countOf c k < max_c c"
  by (auto simp: Acquire_def countOf_def split: if_splits)

lemma countOf_Release:
  "countOf (Release k c) x = (if x = k \<and> countOf c k > 0 then countOf c k - 1 else countOf c x)"
  "max_c (Release k c) = max_c c"
  by (auto simp: Release_def countOf_def Let_def)

lemma count_Release:
  "countOf c k > 0 \<Longrightarrow> count (Release k c) x = None \<longleftrightarrow>
    (if x = k then countOf c k = 1 else count c x = None)"
  by (auto simp: Release_def Let_def)

text \<open>
  C38. The connection cap: in every execution the counter holds exactly the connections that
  are open, never more than the cap of any key, keeps no entry for a key without
  connections, and refuses a new one exactly when the key is at its cap.
\<close>
theorem connections_capped:
  assumes "connRun m c held"
  shows "(\<forall>k. countOf c k = int (held k) \<and> (held k = 0 \<or> int (held k) \<le> m) \<and>
      (count c k = None \<longleftrightarrow> held k = 0)) \<and>
    (\<forall>k. fst (Acquire k c) \<longleftrightarrow> int (held k) < m)"
proof -
  have "max_c c = m \<and> (\<forall>k. countOf c k = int (held k) \<and> (held k = 0 \<or> int (held k) \<le> m) \<and>
      (count c k = None \<longleftrightarrow> held k = 0))"
    using assms
  proof (induction rule: connRun.induct)
    case (cr_new m)
    then show ?case by (simp add: NewConnCounter_def countOf_def)
  next
    case (cr_acquire m c held k c')
    then show ?case
      using countOf_Acquire [OF cr_acquire.hyps(2)] by (auto simp: Acquire_def split: if_splits)
  next
    case (cr_refused m c held k c')
    then show ?case by (auto simp: Acquire_def split: if_splits)
  next
    case (cr_release m c held k)
    have k: "countOf c k = int (held k)" "0 < held k" "int (held k) \<le> m"
      using cr_release.IH [THEN conjunct2, rule_format, of k] cr_release.hyps(2) by simp_all
    have "countOf (Release k c) x = int ((held(k := held k - 1)) x) \<and>
        ((held(k := held k - 1)) x = 0 \<or> int ((held(k := held k - 1)) x) \<le> m) \<and>
        (count (Release k c) x = None \<longleftrightarrow> (held(k := held k - 1)) x = 0)" for x
      using cr_release.IH k by (auto simp: countOf_Release count_Release)
    then show ?case using cr_release.IH by (simp add: countOf_Release)
  qed
  then show ?thesis by (auto simp: Acquire_def)
qed

theorem connections_capped_witness:
  "\<not> fst (Acquire ''ip'' (snd (Acquire ''ip'' (NewConnCounter 1))))"
proof -
  have "connRun 1 (snd (Acquire ''ip'' (NewConnCounter 1))) ((\<lambda>_. 0)(''ip'' := Suc 0))"
    by (rule cr_acquire [OF cr_new, where k = "''ip''"]) (simp add: Acquire_def NewConnCounter_def countOf_def)
  from connections_capped [OF this] show ?thesis by simp
qed

end
