(* ===== verification/Transport.thy ===== *)
theory Transport
  imports Http Auth Account Admin Rate_Limits Store Broker
begin

text \<open>
  The HTTP handlers (\<open>internal/transport\<close>) as functions of the server's state: each returns
  the response and the new state, with the guards in the order of the code. What a handler
  takes from outside is in the record \<open>env\<close>: the Redis, the cryptographic primitives, the
  clock, random bytes, the order in which Go visits a subscriber map, and the lexical layer
  of \<open>encoding/json\<close>.
\<close>

subsection \<open>Server and environment\<close>

record 'r server =
  s_broker :: broker
  s_reg :: registry
  s_store :: "'r option"
  s_admin :: admin
  s_lim :: defaults
  s_allowed :: "string list"
  s_createLim :: rateLimiter
  s_pubChan :: rateLimiter
  s_conns :: connCounter

record 'r env =
  v_redis :: "'r redis"
  v_prims :: prims
  v_fl :: rounding
  v_now :: int \<comment> \<open>nanoseconds since the zero time\<close>
  v_unix :: int
  v_rand1 :: "bytes option"
  v_rand2 :: "bytes option"
  v_fuel :: nat
  v_order :: "nat list \<Rightarrow> nat list" \<comment> \<open>how Go orders the entries of a map\<close>
  v_json :: json_reader \<comment> \<open>the first value of a stream\<close>
  v_unmarshal :: json_reader \<comment> \<open>a whole document\<close>
  v_marshal :: "envelope \<Rightarrow> bytes option"
  v_quote :: "bytes \<Rightarrow> bytes"
  v_stampId :: string
  v_stampTs :: string

record config =
  cfg_lim :: defaults
  cfg_allowed :: "string list"
  cfg_admin :: "admin option"

definition NewWithConfig :: "rounding \<Rightarrow> config \<Rightarrow> broker \<Rightarrow> registry \<Rightarrow> 'r option \<Rightarrow> 'r server" where
  "NewWithConfig fl cfg b reg st =
     \<lparr>s_broker = b, s_reg = reg, s_store = st,
      s_admin = (case cfg_admin cfg of None \<Rightarrow> fst (From '''') | Some a \<Rightarrow> a),
      s_lim = cfg_lim cfg, s_allowed = cfg_allowed cfg,
      s_createLim = NewPerHour fl (CreatePerIPPerHour (cfg_lim cfg)) 15,
      s_pubChan = NewPerMinute fl (PublishPerChanPerMin (cfg_lim cfg)) 20,
      s_conns = NewConnCounter (ConnectionsPerIP (cfg_lim cfg))\<rparr>"

text \<open>Running a store method when there is a store.\<close>

definition callStore :: "'r env \<Rightarrow> 'a prog \<Rightarrow> 'r server \<Rightarrow> 'a option \<times> 'r server" where
  "callStore E p sv = (case s_store sv of
       None \<Rightarrow> (None, sv)
     | Some s \<Rightarrow> (case run (v_redis E) p s of (v, s') \<Rightarrow> (Some v, sv\<lparr>s_store := Some s'\<rparr>)))"

definition allowCreate :: "'r env \<Rightarrow> string \<Rightarrow> 'r server \<Rightarrow> bool \<times> 'r server" where
  "allowCreate E key sv = (case Allow (v_fl E) (v_now E) key (s_createLim sv) of
     (ok, l) \<Rightarrow> (ok, sv\<lparr>s_createLim := l\<rparr>))"

definition allowPublish :: "'r env \<Rightarrow> string \<Rightarrow> 'r server \<Rightarrow> bool \<times> 'r server" where
  "allowPublish E key sv = (case Allow (v_fl E) (v_now E) key (s_pubChan sv) of
     (ok, l) \<Rightarrow> (ok, sv\<lparr>s_pubChan := l\<rparr>))"

subsection \<open>Administrator and account credentials\<close>

definition bearer :: "request \<Rightarrow> string" where
  "bearer r = trimSpace (trimPrefix (q_authorization r) ''Bearer '')"

definition requireAdmin :: "request \<Rightarrow> 'r server \<Rightarrow> response option" where
  "requireAdmin r sv =
     (if \<not> Enabled (s_admin sv) \<or> s_store sv = None then Some notFound
      else if q_method r \<noteq> ''POST'' \<and> q_method r \<noteq> ''GET'' then Some (httpError ''method not allowed'' 405)
      else if \<not> adminVerify (bearer r) (s_admin sv) then Some (httpError ''not authorized'' 401)
      else None)"

definition authedAccount :: "'r env \<Rightarrow> request \<Rightarrow> 'r server \<Rightarrow> string \<times> 'r server" where
  "authedAccount E r sv =
     (if s_store sv = None then ('''', sv)
      else if \<not> hasPrefix (q_authorization r) ''Bearer '' then ('''', sv)
      else (let key = trimSpace (drop (length ''Bearer '') (q_authorization r)) in
        if \<not> LooksLikeKey key then ('''', sv)
        else if q_account r = '''' then ('''', sv)
        else (case callStore E (AccountKeyHash (q_account r)) sv of
            (Some (Inr stored), sv') \<Rightarrow>
              if \<not> VerifyKey (v_prims E) key stored then ('''', sv') else (q_account r, sv')
          | (_, sv') \<Rightarrow> ('''', sv'))))"

definition handleCreateAccount :: "'r env \<Rightarrow> request \<Rightarrow> 'r server \<Rightarrow> response \<times> 'r server" where
  "handleCreateAccount E r sv =
     (if q_method r \<noteq> ''POST'' then (httpError ''method not allowed'' 405, sv)
      else if s_store sv = None then (httpError ''accounts not available on this instance'' 501, sv)
      else (case allowCreate E (''acct:'' @ clientIP r) sv of
          (False, sv) \<Rightarrow> (httpError ''rate limited'' 429, sv)
        | (True, sv) \<Rightarrow>
            (case (NewID (v_rand1 E), NewKey (v_rand2 E)) of
               (Some i, Some key) \<Rightarrow>
                 (case callStore E (CreateAccount (v_unix E) i (HashKey (v_prims E) key)) sv of
                    (Some (Inr _), sv) \<Rightarrow>
                      (okJson [(''account'', OStr i), (''api_key'', OStr key)], sv)
                  | (_, sv) \<Rightarrow> (httpError ''internal error'' 500, sv))
             | _ \<Rightarrow> (httpError ''internal error'' 500, sv))))"

subsection \<open>Creating channels\<close>

definition zeroKey :: bytes where
  "zeroKey = replicate keySize (char_of (0::nat))"

definition registerKey :: "string \<Rightarrow> bytes \<Rightarrow> 'r server \<Rightarrow> (auth_error + bool) \<times> 'r server" where
  "registerKey ch key sv = (case Register ch key (s_reg sv) of (x, reg) \<Rightarrow> (x, sv\<lparr>s_reg := reg\<rparr>))"

definition createWithTicket :: "'r env \<Rightarrow> request \<Rightarrow> createChannelReq \<Rightarrow> bytes \<Rightarrow> 'r server \<Rightarrow> response \<times> 'r server" where
  "createWithTicket E r req authKey sv =
     (let plaintext = (r_authKey req = '''') in
      if s_store sv = None then (httpError ''retention not available on this instance'' 501, sv)
      else (case authedAccount E r sv of (owner, sv) \<Rightarrow>
        (case callStore E (CreateChannelWithTicket (r_ticket req) (r_channel req) (r_authKey req) owner) sv of
           (Some (Inr _), sv) \<Rightarrow>
             (okJson [(''channel'', OStr (r_channel req)), (''created'', OBool True),
                (''retained'', OBool True), (''granted'', OBool True), (''encrypted'', OBool (\<not> plaintext))],
              if plaintext then sv else snd (registerKey (r_channel req) authKey sv))
         | (Some (Inl ErrExists), sv) \<Rightarrow> (httpError ''channel already exists'' 409, sv)
         | (Some (Inl ErrBadTicket), sv) \<Rightarrow> (httpError ''invalid, expired, or unauthorized ticket'' 403, sv)
         | (_, sv) \<Rightarrow> (httpError ''internal error'' 500, sv))))"

text \<open>\<open>int64(ttl.Seconds())\<close>\<close>

definition toSeconds :: "rounding \<Rightarrow> int \<Rightarrow> int" where
  "toSeconds fl d = (let x = seconds fl d in if x \<ge> 0 then \<lfloor>x\<rfloor> else \<lceil>x\<rceil>)"

definition retentionTTL :: "defaults \<Rightarrow> bool \<Rightarrow> int \<Rightarrow> int" where
  "retentionTTL lims anon ttlSec =
     (let ttl = (if anon then RetentionTTLMax lims else RetentionTTL lims);
          ttl = (if ttlSec > 0 then wrap64 (ttlSec * second) else ttl)
      in if ttl > RetentionTTLMax lims then RetentionTTLMax lims else ttl)"

definition anonCap :: int where "anonCap = 2 ^ 30"

definition createRetained :: "'r env \<Rightarrow> request \<Rightarrow> createChannelReq \<Rightarrow> bytes \<Rightarrow> 'r server \<Rightarrow> response \<times> 'r server" where
  "createRetained E r req authKey sv =
     (let plaintext = (r_authKey req = '''') in
      if s_store sv = None then (httpError ''retention not available on this instance'' 501, sv)
      else (case authedAccount E r sv of (owner, sv) \<Rightarrow>
        (let anon = (owner = '''');
             lims = s_lim sv;
             ch = \<lparr>ch_id = r_channel req, ch_owner = owner, ch_kauth = r_authKey req, ch_retained = True,
                   ch_ttl = toSeconds (v_fl E) (retentionTTL lims anon (r_ttlSec req)),
                   ch_maxBytes = BytesPerChannel lims, ch_maxMsgs = RetainedMsgsPerChan lims\<rparr>;
             ownerChanCap = (if anon then anonCap else ChannelsPerAccount lims)
         in (case callStore E (CreateChannel (v_unix E) ch ownerChanCap) sv of
               (Some (Inr _), sv) \<Rightarrow>
                 (okJson [(''channel'', OStr (r_channel req)), (''created'', OBool True),
                    (''retained'', OBool True), (''encrypted'', OBool (\<not> plaintext))],
                  if plaintext then sv else snd (registerKey (r_channel req) authKey sv))
             | (Some (Inl ErrExists), sv) \<Rightarrow> (httpError ''channel already exists'' 409, sv)
             | (Some (Inl ErrTooManyChan), sv) \<Rightarrow> (httpError ''account channel limit reached'' 429, sv)
             | (_, sv) \<Rightarrow> (httpError ''internal error'' 500, sv)))))"

definition createEphemeral :: "'r env \<Rightarrow> createChannelReq \<Rightarrow> bytes \<Rightarrow> 'r server \<Rightarrow> response \<times> 'r server" where
  "createEphemeral E req authKey sv =
     (let ch = \<lparr>ch_id = r_channel req, ch_owner = '''', ch_kauth = r_authKey req, ch_retained = False,
                ch_ttl = 0, ch_maxBytes = 0, ch_maxMsgs = 0\<rparr>
      in case callStore E (CreateChannel (v_unix E) ch anonCap) sv of (res, sv) \<Rightarrow>
        (if (case res of Some (Inl e) \<Rightarrow> e \<noteq> ErrExists | _ \<Rightarrow> False)
         then (httpError ''internal error'' 500, sv)
         else (case registerKey (r_channel req) authKey sv of
             (Inl _, sv) \<Rightarrow> (httpError ''channel already exists'' 409, sv)
           | (Inr _, sv) \<Rightarrow>
               (okJson [(''channel'', OStr (r_channel req)), (''created'', OBool True),
                  (''retained'', OBool False)], sv))))"

definition handleCreateChannel :: "'r env \<Rightarrow> request \<Rightarrow> 'r server \<Rightarrow> response \<times> 'r server" where
  "handleCreateChannel E r sv =
     (if q_method r \<noteq> ''POST'' then (httpError ''method not allowed'' 405, sv)
      else (case allowCreate E (''chan:'' @ clientIP r) sv of
          (False, sv) \<Rightarrow> (httpError ''rate limited'' 429, sv)
        | (True, sv) \<Rightarrow>
            (case decodeCreate (v_json E) (q_body r) of
               None \<Rightarrow> (httpError ''bad request'' 400, sv)
             | Some req \<Rightarrow>
                 if r_channel req = '''' then (httpError ''bad request'' 400, sv)
                 else (let plaintext = (r_authKey req = '''') in
                   case (if plaintext then Inr zeroKey else DecodeAuthKey (r_authKey req)) of
                     Inl _ \<Rightarrow> (httpError ''bad auth key'' 400, sv)
                   | Inr authKey \<Rightarrow>
                       if r_ticket req \<noteq> '''' then createWithTicket E r req authKey sv
                       else if plaintext \<and> \<not> r_retain req then
                         (httpError ''auth_key required, or set retain:true for a public retained topic'' 400, sv)
                       else if r_retain req then createRetained E r req authKey sv
                       else createEphemeral E req authKey sv))))"

subsection \<open>Administration and statistics\<close>

definition handleAdminLimit :: "'r env \<Rightarrow> request \<Rightarrow> 'r server \<Rightarrow> response \<times> 'r server" where
  "handleAdminLimit E r sv =
     (if \<not> Enabled (s_admin sv) \<or> s_store sv = None then (notFound, sv)
      else if q_method r \<noteq> ''POST'' then (httpError ''method not allowed'' 405, sv)
      else if \<not> adminVerify (bearer r) (s_admin sv) then (httpError ''not authorized'' 401, sv)
      else (case decodeLimit (v_json E) (q_body r) of
          None \<Rightarrow> (httpError ''bad request'' 400, sv)
        | Some req \<Rightarrow>
            if l_channel req = '''' then (httpError ''bad request'' 400, sv)
            else (case callStore E (SetChannelLimits (l_channel req) (l_ttlSec req) (l_maxBytes req)
                    (l_maxMsgs req)) sv of
                (Some (Inr _), sv) \<Rightarrow>
                  (okJson [(''channel'', OStr (l_channel req)), (''updated'', OBool True)], sv)
              | (Some (Inl ErrNotFound), sv) \<Rightarrow> (httpError ''no such channel'' 404, sv)
              | (_, sv) \<Rightarrow> (httpError ''internal error'' 500, sv))))"

definition handleAdminGrant :: "'r env \<Rightarrow> request \<Rightarrow> 'r server \<Rightarrow> response \<times> 'r server" where
  "handleAdminGrant E r sv =
     (case requireAdmin r sv of
        Some resp \<Rightarrow> (resp, sv)
      | None \<Rightarrow>
          if q_method r \<noteq> ''POST'' then (httpError ''method not allowed'' 405, sv)
          else (case decodeGrant (v_json E) (q_body r) of
              None \<Rightarrow> (httpError ''bad request (channel_match required)'' 400, sv)
            | Some req \<Rightarrow>
                if gr_match req = '''' then (httpError ''bad request (channel_match required)'' 400, sv)
                else
                  (let expiry = (if gr_expirySec req \<le> 0 then 3600 else gr_expirySec req);
                       g = \<lparr>g_match = gr_match req, g_retained = True, g_ttl = gr_ttlSec req,
                            g_maxBytes = gr_maxBytes req, g_maxMsgs = gr_maxMsgs req\<rparr>
                   in (case callStore E (IssueGrant (v_rand1 E) g expiry) sv of
                         (Some (Inr ticket), sv) \<Rightarrow>
                           (okJson [(''ticket'', OStr ticket), (''channel_match'', OStr (gr_match req)),
                              (''expiry_sec'', OInt expiry),
                              (''note'', OStr ''give this ticket to the user; they create the channel with it and their own secret. Single use; expires.'')], sv)
                       | (_, sv) \<Rightarrow> (httpError ''internal error'' 500, sv)))))"

text \<open>\<open>owner_id\<close> is omitted when it is empty.\<close>

definition infoJson :: "channelInfo \<Rightarrow> (string \<times> jout) list" where
  "infoJson c =
     [(''id'', OStr (ci_id c))] @
     (if ci_owner c = '''' then [] else [(''owner_id'', OStr (ci_owner c))]) @
     [(''retained'', OBool (ci_retained c)), (''ttl_sec'', OInt (ci_ttl c)),
      (''max_bytes'', OInt (ci_maxBytes c)), (''max_msgs'', OInt (ci_maxMsgs c)),
      (''bytes'', OInt (ci_bytes c)), (''msgs'', OInt (ci_msgs c))]"

definition handleAdminChannels :: "'r env \<Rightarrow> request \<Rightarrow> 'r server \<Rightarrow> response \<times> 'r server" where
  "handleAdminChannels E r sv =
     (case requireAdmin r sv of
        Some resp \<Rightarrow> (resp, sv)
      | None \<Rightarrow>
          (case callStore E ListChannels sv of
             (Some (Inr l), sv) \<Rightarrow> (okJson [(''channels'', OList (List.map infoJson l))], sv)
           | (_, sv) \<Rightarrow> (httpError ''internal error'' 500, sv)))"

definition statsJson :: "stats \<Rightarrow> (string \<times> jout) list" where
  "statsJson st =
     [(''channels'', OInt (st_channels st)), (''retained_channels'', OInt (st_retainedChannels st)),
      (''accounts'', OInt (st_accounts st)), (''retained_messages'', OInt (st_retainedMessages st)),
      (''retained_bytes'', OInt (st_retainedBytes st))]"

definition handleStats :: "'r env \<Rightarrow> request \<Rightarrow> 'r server \<Rightarrow> response \<times> 'r server" where
  "handleStats E r sv =
     (if s_store sv = None then (httpError ''stats not available'' 501, sv)
      else (case callStore E (Stats (v_fuel E)) sv of
          (Some (Inr st), sv) \<Rightarrow> (okJson (statsJson st), sv)
        | (_, sv) \<Rightarrow> (httpError ''internal error'' 500, sv)))"

end
