(* ===== verification/Transport_Live.thy ===== *)
theory Transport_Live
  imports Transport
begin

text \<open>
  The long-lived side of the transport: cross-origin policy, the open publish and subscribe
  paths, and WebSocket sessions (handshake, catch-up, reader and writer steps, teardown).
\<close>

subsection \<open>Cross-origin policy\<close>

definition originAllowed :: "string \<Rightarrow> 'r server \<Rightarrow> bool" where
  "originAllowed origin sv = list_ex (\<lambda>a. a = origin) (s_allowed sv)"

text \<open>The CORS headers \<open>Handler\<close> sets, and whether it answers the request itself (preflight)
  instead of passing it to the routes.\<close>

definition corsHeaders :: "request \<Rightarrow> 'r server \<Rightarrow> (string \<times> string) list" where
  "corsHeaders r sv =
     (let origin = q_origin r; open = (s_allowed sv = []) in
      if origin = '''' then []
      else
        (if open then [(''Access-Control-Allow-Origin'', ''*'')]
         else if originAllowed origin sv then
           [(''Access-Control-Allow-Origin'', origin), (''Vary'', ''Origin'')]
         else []) @
        (if open \<or> originAllowed origin sv then
           [(''Access-Control-Allow-Methods'', ''GET, POST, OPTIONS''),
            (''Access-Control-Allow-Headers'', ''Authorization, Content-Type, X-Doublethink-Account''),
            (''Access-Control-Max-Age'', ''600'')]
         else []))"

definition preflight :: "request \<Rightarrow> bool" where
  "preflight r = (q_method r = ''OPTIONS'')"

subsection \<open>Public topics\<close>

definition guardPublicTopic :: "string \<Rightarrow> 'r server \<Rightarrow> response option" where
  "guardPublicTopic topic sv =
     (if topic = '''' then Some (httpError ''missing topic'' 400)
      else if HasChannel topic (s_reg sv) then Some (httpError ''not authorized'' 403)
      else None)"

definition retained :: "'r env \<Rightarrow> string \<Rightarrow> 'r server \<Rightarrow> bool \<times> 'r server" where
  "retained E channel sv = (case callStore E (GetChannel channel) sv of
       (Some (Inr ch), sv) \<Rightarrow> (ch_retained ch, sv)
     | (_, sv) \<Rightarrow> (False, sv))"

definition publishCap :: nat where "publishCap = 1048576"

fun readBody :: "bytes \<Rightarrow> bytes list \<Rightarrow> bytes \<Rightarrow> bytes option" where
  "readBody body [] lst = Some (body @ lst)"
| "readBody body (c # cs) lst =
     (if length (body @ c) > publishCap then None else readBody (body @ c) cs lst)"

definition publishEnv :: "'r env \<Rightarrow> envelope \<Rightarrow> 'r server \<Rightarrow> nat \<times> 'r server" where
  "publishEnv E e sv =
     (case Publish (v_order E (List.map snd (entriesOf (s_broker sv) (e_channel e)))) e (s_broker sv) of
       (n, b) \<Rightarrow> (n, sv\<lparr>s_broker := b\<rparr>))"

definition publicEnvelope :: "'r env \<Rightarrow> string \<Rightarrow> bytes \<Rightarrow> envelope" where
  "publicEnvelope E topic body =
     \<lparr>e_channel = topic, e_type = ''request'', e_id = v_stampId E,
      e_payload = Some (v_quote E body), e_ts = v_stampTs E\<rparr>"

text \<open>The retention step of the open publish path: \<open>Inl\<close> the failure to report, \<open>Inr\<close>
  whether the message was retained.\<close>

definition retainPublic :: "'r env \<Rightarrow> envelope \<Rightarrow> 'r server \<Rightarrow> (response + bool) \<times> 'r server" where
  "retainPublic E e sv =
     (if s_store sv = None then (Inr False, sv)
      else (case retained E (e_channel e) sv of
          (False, sv) \<Rightarrow> (Inr False, sv)
        | (True, sv) \<Rightarrow>
            (case v_marshal E e of
               None \<Rightarrow> (Inr False, sv)
             | Some raw \<Rightarrow>
                 (case callStore E (Append (v_fuel E) (v_unix E) (e_channel e) raw
                     (BytesPerAccount (s_lim sv))) sv of
                    (Some (Inr _), sv) \<Rightarrow> (Inr True, sv)
                  | (Some (Inl ErrQuotaAcct), sv) \<Rightarrow> (Inl (httpError ''storage quota exceeded'' 507), sv)
                  | (_, sv) \<Rightarrow> (Inl (httpError ''internal error'' 500), sv)))))"

definition handlePublicPublish :: "'r env \<Rightarrow> request \<Rightarrow> 'r server \<Rightarrow> response \<times> 'r server" where
  "handlePublicPublish E r sv =
     (if q_method r \<noteq> ''POST'' then (httpError ''method not allowed'' 405, sv)
      else (let topic = trimPrefix (q_path r) ''/publish/'' in
        case guardPublicTopic topic sv of
          Some resp \<Rightarrow> (resp, sv)
        | None \<Rightarrow>
            (case allowPublish E topic sv of
               (False, sv) \<Rightarrow> (httpError ''rate limited'' 429, sv)
             | (True, sv) \<Rightarrow>
                 (case allowPublish E (''ip:'' @ clientIP r) sv of
                    (False, sv) \<Rightarrow> (httpError ''rate limited'' 429, sv)
                  | (True, sv) \<Rightarrow>
                      (case readBody [] (q_chunks r) (q_last r) of
                         None \<Rightarrow> (httpError ''payload too large'' 413, sv)
                       | Some body \<Rightarrow>
                           (let e = publicEnvelope E topic body in
                            case publishEnv E e sv of (n, sv) \<Rightarrow>
                              (case retainPublic E e sv of
                                 (Inl resp, sv) \<Rightarrow> (resp, sv)
                               | (Inr kept, sv) \<Rightarrow>
                                   (okJson [(''delivered'', OInt (int n)), (''retained'', OBool kept)], sv))))))))"

definition subscribe :: "string \<Rightarrow> 'r server \<Rightarrow> nat \<times> 'r server" where
  "subscribe ch sv = (case Subscribe ch (s_broker sv) of (r, b) \<Rightarrow> (r, sv\<lparr>s_broker := b\<rparr>))"

definition unsubscribe :: "nat \<Rightarrow> 'r server \<Rightarrow> 'r server" where
  "unsubscribe r sv = sv\<lparr>s_broker := Unsubscribe (Some r) (s_broker sv)\<rparr>"

definition maxCatchUp :: int where "maxCatchUp = 1000"

definition catchUpFrom :: "'r env \<Rightarrow> string \<Rightarrow> int \<Rightarrow> 'r server \<Rightarrow> storedMessage list \<times> 'r server" where
  "catchUpFrom E ch after sv = (case callStore E (CatchUp (v_unix E) ch after maxCatchUp) sv of
       (Some (Inr ms), sv) \<Rightarrow> (ms, sv)
     | (_, sv) \<Rightarrow> ([], sv))"

definition afterParam :: "request \<Rightarrow> int" where
  "afterParam r = (case intLiteral (q_after r) of
       Some v \<Rightarrow> if v > 0 then v else 0
     | None \<Rightarrow> 0)"

definition sseStored :: "storedMessage \<Rightarrow> string" where
  "sseStored m = ''id: '' @ itoa (m_seq m) @ [char_of (10::nat)] @ ''data: '' @ m_ciphertext m
     @ [char_of (10::nat), char_of (10::nat)]"

definition sseLive :: "bytes \<Rightarrow> string" where
  "sseLive b = ''data: '' @ b @ [char_of (10::nat), char_of (10::nat)]"

text \<open>
  The start of a subscription on the open path, up to the live loop: the refusal, or the
  subscription and the frames written. \<open>wok\<close> is how many writes the connection takes; when
  it breaks during catch-up the handler ends and the deferred \<open>Unsubscribe\<close> runs.
\<close>

datatype sse = SseRefused response | SseLive nat "string list" | SseGone

definition handlePublicSubscribe :: "'r env \<Rightarrow> request \<Rightarrow> nat \<Rightarrow> 'r server \<Rightarrow> sse \<times> 'r server" where
  "handlePublicSubscribe E r wok sv =
     (let topic = trimPrefix (q_path r) ''/subscribe/'' in
      case guardPublicTopic topic sv of
        Some resp \<Rightarrow> (SseRefused resp, sv)
      | None \<Rightarrow>
          (case subscribe topic sv of (sub, sv) \<Rightarrow>
            (case (if s_store sv = None then (False, sv) else retained E topic sv) of
               (False, sv) \<Rightarrow> (SseLive sub [], sv)
             | (True, sv) \<Rightarrow>
                 (case catchUpFrom E topic (afterParam r) sv of (ms, sv) \<Rightarrow>
                    if length ms \<le> wok then (SseLive sub (List.map sseStored ms), sv)
                    else (SseGone, unsubscribe sub sv)))))"

text \<open>One turn of the live loop: \<open>None\<close> when nothing is queued.\<close>

definition liveNext :: "'r env \<Rightarrow> nat \<Rightarrow> 'r server \<Rightarrow> (bytes option \<times> 'r server) option" where
  "liveNext E sub sv = (case receive sub (s_broker sv) of
       None \<Rightarrow> None
     | Some (e, b) \<Rightarrow> Some (v_marshal E e, sv\<lparr>s_broker := b\<rparr>))"

definition subClosed :: "nat \<Rightarrow> 'r server \<Rightarrow> bool" where
  "subClosed sub sv = (case heap (s_broker sv) sub of None \<Rightarrow> False | Some s \<Rightarrow> sub_closed s)"

definition sseNext :: "'r env \<Rightarrow> nat \<Rightarrow> 'r server \<Rightarrow> (string option \<times> 'r server) option" where
  "sseNext E sub sv = map_option (\<lambda>(b, sv). (map_option sseLive b, sv)) (liveNext E sub sv)"

subsection \<open>WebSocket sessions\<close>

text \<open>A frame read from the peer: whether it is text, and its bytes; \<open>None\<close> is a read error
  or timeout. The peer is a function from the challenge it is sent to its answer.\<close>

type_synonym frame = "(bool \<times> bytes) option"

datatype wsOut =
    OutChallenge string
  | OutResult bool string
  | OutText bytes
  | OutErrorEnv string
  | OutClose nat string

definition textOf :: "frame \<Rightarrow> bytes option" where
  "textOf f = (case f of Some (True, b) \<Rightarrow> Some b | _ \<Rightarrow> None)"

text \<open>\<open>wok\<close> is how many writes the connection still takes before it breaks.\<close>

definition authenticateWS :: "'r env \<Rightarrow> frame \<Rightarrow> (string \<Rightarrow> frame) \<Rightarrow> nat \<Rightarrow> 'r server \<Rightarrow> wsHandshake option \<times> wsOut list" where
  "authenticateWS E hello peer wok sv =
     (case Option.bind (textOf hello) (decodeHandshake (v_unmarshal E)) of
        None \<Rightarrow> (None, [])
      | Some hs \<Rightarrow>
          (case NewChallenge (v_rand1 E) of
             Inl _ \<Rightarrow> (None, [])
           | Inr challenge \<Rightarrow>
               (let sent = b64encode challenge;
                    out = [OutChallenge sent]
                in if wok = 0 then (None, [])
                   else case Option.bind (textOf (peer sent)) (decodeAuth (v_unmarshal E)) of
                     None \<Rightarrow> (None, out)
                   | Some a \<Rightarrow>
                       (case b64decode a of
                          None \<Rightarrow> (None, out)
                        | Some response \<Rightarrow>
                            (case VerifyResponse (v_prims E) (hs_channel hs) challenge response (s_reg sv) of
                               Inl _ \<Rightarrow> (None, out)
                             | Inr _ \<Rightarrow> (Some hs, out))))))"

record wsSession =
  w_channel :: string
  w_retained :: bool
  w_sub :: nat
  w_ip :: string

datatype wsStart =
    WsTooMany
  | WsNotAccepted
  | WsDenied "wsOut list"
  | WsLive wsSession "wsOut list"
  | WsGone "wsOut list"

definition endSession :: "wsSession \<Rightarrow> 'r server \<Rightarrow> 'r server" where
  "endSession w sv = (unsubscribe (w_sub w) sv)\<lparr>s_conns := Release (w_ip w) (s_conns sv)\<rparr>"

definition releaseConn :: "string \<Rightarrow> 'r server \<Rightarrow> 'r server" where
  "releaseConn ip sv = sv\<lparr>s_conns := Release ip (s_conns sv)\<rparr>"

text \<open>The start of \<open>pumpWS\<close>: subscribe, then replay what the peer missed.\<close>

definition startPump :: "'r env \<Rightarrow> string \<Rightarrow> wsHandshake \<Rightarrow> nat \<Rightarrow> 'r server \<Rightarrow> (wsSession \<times> wsOut list \<times> bool) \<times> 'r server" where
  "startPump E ip hs wok sv =
     (case retained E (hs_channel hs) sv of (isRetained, sv) \<Rightarrow>
       (case subscribe (hs_channel hs) sv of (sub, sv) \<Rightarrow>
         (let w = \<lparr>w_channel = hs_channel hs, w_retained = isRetained, w_sub = sub, w_ip = ip\<rparr> in
          if \<not> isRetained then ((w, [], True), sv)
          else (case catchUpFrom E (hs_channel hs) (hs_afterSeq hs) sv of (ms, sv) \<Rightarrow>
            ((w, List.map (\<lambda>m. OutText (m_ciphertext m)) (take wok ms), length ms \<le> wok), sv)))))"

definition handleWS :: "'r env \<Rightarrow> request \<Rightarrow> bool \<Rightarrow> frame \<Rightarrow> (string \<Rightarrow> frame) \<Rightarrow> nat \<Rightarrow> 'r server \<Rightarrow> wsStart \<times> 'r server" where
  "handleWS E r accepted hello peer wok sv =
     (let ip = clientIP r in
      case Acquire ip (s_conns sv) of
        (False, c) \<Rightarrow> (WsTooMany, sv\<lparr>s_conns := c\<rparr>)
      | (True, c) \<Rightarrow>
          (let sv = sv\<lparr>s_conns := c\<rparr> in
           if \<not> accepted then (WsNotAccepted, releaseConn ip sv)
           else (case authenticateWS E hello peer wok sv of
               (None, out) \<Rightarrow>
                 (WsDenied (take wok (out @ [OutResult False ''not authorized'', OutClose 1008 ''not authorized''])),
                  releaseConn ip sv)
             | (Some hs, out) \<Rightarrow>
                 (if wok < 2 then (WsGone out, releaseConn ip sv)
                  else (case startPump E ip hs (wok - 2) sv of ((w, sent, live), sv) \<Rightarrow>
                   (let out = out @ [OutResult True ''''] @ sent in
                    if live then (WsLive w out, sv) else (WsGone out, endSession w sv)))))))"

text \<open>One frame read by the session's reader.\<close>

definition readerStep :: "'r env \<Rightarrow> wsSession \<Rightarrow> bool \<times> bytes \<Rightarrow> 'r server \<Rightarrow> wsOut list \<times> 'r server" where
  "readerStep E w f sv =
     (case f of (isText, data) \<Rightarrow>
       if \<not> isText then ([], sv)
       else (case Decode (v_json E) data of
           Inl _ \<Rightarrow> ([OutErrorEnv ''invalid envelope''], sv)
         | Inr e \<Rightarrow>
             if e_channel e \<noteq> w_channel w then ([OutErrorEnv ''channel mismatch''], sv)
             else if MaxMessageBytes (s_lim sv) > 0 \<and> int (length data) > MaxMessageBytes (s_lim sv)
               then ([OutErrorEnv ''message too large''], sv)
             else (case allowPublish E (w_channel w) sv of
                 (False, sv) \<Rightarrow> ([OutErrorEnv ''rate limited''], sv)
               | (True, sv) \<Rightarrow>
                   (case (if w_retained w then
                       (case callStore E (Append (v_fuel E) (v_unix E) (w_channel w) data
                           (BytesPerAccount (s_lim sv))) sv of
                          (Some (Inl ErrQuotaAcct), sv) \<Rightarrow> ([OutErrorEnv ''storage quota exceeded''], sv)
                        | (_, sv) \<Rightarrow> ([], sv))
                     else ([], sv)) of
                    (out, sv) \<Rightarrow> (out, snd (publishEnv E e sv))))))"

text \<open>One turn of the session's writer: it ends the session when the subscription was
  dropped; \<open>None\<close> when nothing is queued.\<close>

definition writerStep :: "'r env \<Rightarrow> wsSession \<Rightarrow> 'r server \<Rightarrow> (wsOut list \<times> 'r server) option" where
  "writerStep E w sv =
     map_option (\<lambda>(b, sv). (case b of None \<Rightarrow> [] | Some b \<Rightarrow> [OutText b], sv)) (liveNext E (w_sub w) sv)"

definition writerClosed :: "wsSession \<Rightarrow> 'r server \<Rightarrow> (wsOut list \<times> 'r server) option" where
  "writerClosed w sv =
     (if subClosed (w_sub w) sv then Some ([OutClose 1011 ''subscription dropped''], endSession w sv) else None)"

end
