(* ===== verification/Transport_Safety.thy ===== *)
theory Transport_Safety
  imports Transport_Live Broker_Trace
begin

text \<open>
  Executions of the whole server: every handler on every request, the turns of its streams
  and sessions, and the sweeper. What each step leaves alone, and the first consequence:
  the private path is closed to the open one.
\<close>

named_theorems frames \<open>what a helper leaves alone\<close>

subsection \<open>Quiet steps\<close>

text \<open>A step is quiet when it leaves the broker and the connection slots alone, and takes no
  channel's key away; new keys have the right size.\<close>

definition quiet :: "'r server \<Rightarrow> 'r server \<Rightarrow> bool" where
  "quiet sv sv' \<longleftrightarrow> s_broker sv' = s_broker sv \<and> s_conns sv' = s_conns sv \<and>
     (\<forall>ch k. channels (s_reg sv) ch = Some k \<longrightarrow> channels (s_reg sv') ch = Some k) \<and>
     (registryInv (s_reg sv) \<longrightarrow> registryInv (s_reg sv'))"

text \<open>Nothing but the store and the rate limiters changes.\<close>

definition inert :: "'r server \<Rightarrow> 'r server \<Rightarrow> bool" where
  "inert sv sv' \<longleftrightarrow> s_broker sv' = s_broker sv \<and> s_conns sv' = s_conns sv \<and> s_reg sv' = s_reg sv \<and>
     s_admin sv' = s_admin sv \<and> s_lim sv' = s_lim sv \<and> s_allowed sv' = s_allowed sv \<and>
     (s_store sv' = None \<longleftrightarrow> s_store sv = None)"

lemma inert_refl [simp]: "inert sv sv" by (simp add: inert_def)
lemma inert_trans: "inert a b \<Longrightarrow> inert b c \<Longrightarrow> inert a c" by (simp add: inert_def)
lemma inert_quiet: "inert a b \<Longrightarrow> quiet a b" by (simp add: inert_def quiet_def)
lemma quiet_refl [simp]: "quiet sv sv" by (simp add: quiet_def)
lemma quiet_trans: "quiet a b \<Longrightarrow> quiet b c \<Longrightarrow> quiet a c" by (auto simp: quiet_def)

lemma callStore_inert [frames]: "callStore E p sv = (v, sv') \<Longrightarrow> inert sv sv'"
  by (auto simp: callStore_def inert_def split: option.splits prod.splits)

lemma allow_inert [frames]:
  "allowCreate E k sv = (ok, sv') \<Longrightarrow> inert sv sv'" "allowPublish E k sv = (ok, sv') \<Longrightarrow> inert sv sv'"
  by (auto simp: allowCreate_def allowPublish_def inert_def split: prod.splits)

lemma authed_inert [frames]: "authedAccount E r sv = (ow, sv') \<Longrightarrow> inert sv sv'"
  by (auto simp: authedAccount_def Let_def split: if_splits option.splits sum.splits prod.splits
      dest: callStore_inert)

lemma retained_inert [frames]: "retained E ch sv = (b, sv') \<Longrightarrow> inert sv sv'"
  by (auto simp: retained_def split: option.splits sum.splits prod.splits dest: callStore_inert)

lemma catchUp_inert [frames]: "catchUpFrom E ch q sv = (ms, sv') \<Longrightarrow> inert sv sv'"
  by (auto simp: catchUpFrom_def split: option.splits sum.splits prod.splits dest: callStore_inert)

lemma registerKey_quiet: "length k = keySize \<Longrightarrow> quiet sv (snd (registerKey ch k sv))"
  by (auto simp: registerKey_def quiet_def Register_def registryInv_def)

subsubsection \<open>Creating channels\<close>

lemma createWithTicket_quiet:
  assumes "createWithTicket E r req key sv = (resp, sv')" "length key = keySize" shows "quiet sv sv'"
proof (cases "s_store sv = None")
  case True
  then show ?thesis using assms by (simp add: createWithTicket_def)
next
  case False
  obtain ow sv1 where a: "authedAccount E r sv = (ow, sv1)" by (cases "authedAccount E r sv")
  obtain v sv2 where c: "callStore E (CreateChannelWithTicket (r_ticket req) (r_channel req) (r_authKey req) ow) sv1 = (v, sv2)"
    by (cases "callStore E (CreateChannelWithTicket (r_ticket req) (r_channel req) (r_authKey req) ow) sv1")
  have q: "quiet sv sv2" by (rule inert_quiet [OF inert_trans [OF authed_inert [OF a] callStore_inert [OF c]]])
  have "sv' = sv2 \<or> sv' = snd (registerKey (r_channel req) key sv2)"
    using assms(1) False by (auto simp: createWithTicket_def a c Let_def
        split: option.splits sum.splits store_error.splits if_splits)
  then show ?thesis using q quiet_trans registerKey_quiet [OF assms(2)] by blast
qed

lemma createRetained_quiet:
  assumes "createRetained E r req key sv = (resp, sv')" "length key = keySize" shows "quiet sv sv'"
proof (cases "s_store sv = None")
  case True
  then show ?thesis using assms by (simp add: createRetained_def)
next
  case False
  obtain ow sv1 where a: "authedAccount E r sv = (ow, sv1)" by (cases "authedAccount E r sv")
  define ch where "ch = \<lparr>ch_id = r_channel req, ch_owner = ow, ch_kauth = r_authKey req, ch_retained = True,
      ch_ttl = toSeconds (v_fl E) (retentionTTL (s_lim sv1) (ow = '''') (r_ttlSec req)),
      ch_maxBytes = BytesPerChannel (s_lim sv1), ch_maxMsgs = RetainedMsgsPerChan (s_lim sv1)\<rparr>"
  define cp where "cp = (if ow = '''' then anonCap else ChannelsPerAccount (s_lim sv1))"
  obtain v sv2 where c: "callStore E (CreateChannel (v_unix E) ch cp) sv1 = (v, sv2)"
    by (cases "callStore E (CreateChannel (v_unix E) ch cp) sv1")
  have q: "quiet sv sv2" by (rule inert_quiet [OF inert_trans [OF authed_inert [OF a] callStore_inert [OF c]]])
  have "sv' = sv2 \<or> sv' = snd (registerKey (r_channel req) key sv2)"
    using assms(1) False by (auto simp: createRetained_def a c Let_def simp flip: ch_def cp_def
        split: option.splits sum.splits store_error.splits if_splits)
  then show ?thesis using q quiet_trans registerKey_quiet [OF assms(2)] by blast
qed

lemma createEphemeral_quiet:
  assumes "createEphemeral E req key sv = (resp, sv')" "length key = keySize" shows "quiet sv sv'"
proof -
  define ch where "ch = \<lparr>ch_id = r_channel req, ch_owner = '''', ch_kauth = r_authKey req,
      ch_retained = False, ch_ttl = 0, ch_maxBytes = 0, ch_maxMsgs = 0\<rparr>"
  obtain v sv2 where c: "callStore E (CreateChannel (v_unix E) ch anonCap) sv = (v, sv2)"
    by (cases "callStore E (CreateChannel (v_unix E) ch anonCap) sv")
  have "sv' = sv2 \<or> sv' = snd (registerKey (r_channel req) key sv2)"
    using assms(1) by (auto simp: createEphemeral_def c Let_def simp flip: ch_def
        split: sum.splits if_splits prod.splits)
  then show ?thesis
    using inert_quiet [OF callStore_inert [OF c]] quiet_trans registerKey_quiet [OF assms(2)] by blast
qed

lemma length_zeroKey [simp]: "length zeroKey = keySize" by (simp add: zeroKey_def)

lemma handleCreateChannel_quiet:
  assumes "handleCreateChannel E r sv = (resp, sv')" shows "quiet sv sv'"
proof -
  obtain ok sv1 where a: "allowCreate E (''chan:'' @ clientIP r) sv = (ok, sv1)"
    by (cases "allowCreate E (''chan:'' @ clientIP r) sv")
  have k1: "quiet sv sv1" by (rule inert_quiet [OF allow_inert(1) [OF a]])
  have "sv' = sv \<or> sv' = sv1 \<or> (\<exists>req key. length key = keySize \<and>
      (createWithTicket E r req key sv1 = (resp, sv') \<or> createRetained E r req key sv1 = (resp, sv') \<or>
       createEphemeral E req key sv1 = (resp, sv')))"
    using assms a DecodeAuthKey_length length_zeroKey
    by (auto simp: handleCreateChannel_def Let_def split: if_splits bool.splits option.splits sum.splits;
        blast)
  then show ?thesis
  proof (elim disjE exE conjE)
    show "sv' = sv \<Longrightarrow> quiet sv sv'" "sv' = sv1 \<Longrightarrow> quiet sv sv'" using k1 by simp_all
  qed (use k1 in \<open>auto intro: quiet_trans createWithTicket_quiet createRetained_quiet createEphemeral_quiet\<close>)
qed

subsubsection \<open>The other request handlers\<close>

lemma account_inert: "handleCreateAccount E r sv = (x, sv') \<Longrightarrow> inert sv sv'"
  by (auto simp: handleCreateAccount_def
      split: if_splits bool.splits option.splits sum.splits prod.splits
      dest!: allow_inert(1) callStore_inert intro: inert_trans)

lemma admin_inert:
  "handleAdminLimit E r sv = (x, sv') \<Longrightarrow> inert sv sv'"
  "handleAdminGrant E r sv = (x, sv') \<Longrightarrow> inert sv sv'"
  "handleAdminChannels E r sv = (x, sv') \<Longrightarrow> inert sv sv'"
  "handleStats E r sv = (x, sv') \<Longrightarrow> inert sv sv'"
  by (auto simp: handleAdminLimit_def handleAdminGrant_def handleAdminChannels_def handleStats_def Let_def
      split: if_splits option.splits sum.splits prod.splits store_error.splits dest: callStore_inert)

subsection \<open>Steps that use the broker\<close>

text \<open>Go ranges over a map in some order, that is, in a permutation of its entries.\<close>

definition envOk :: "'r env \<Rightarrow> bool" where
  "envOk E \<longleftrightarrow> (\<forall>xs. mset (v_order E xs) = mset xs)"

lemma envOk_visit: "envOk E \<Longrightarrow> visitOrder (v_order E (List.map snd (entriesOf b (e_channel e)))) e b"
  by (simp add: envOk_def visitOrder_def)

text \<open>Only the broker differs, and it went through the given change.\<close>

definition viaBroker :: "(broker \<Rightarrow> broker \<Rightarrow> bool) \<Rightarrow> 'r server \<Rightarrow> 'r server \<Rightarrow> bool" where
  "viaBroker R sv sv' \<longleftrightarrow> s_conns sv' = s_conns sv \<and> s_reg sv' = s_reg sv \<and>
     R (s_broker sv) (s_broker sv')"

lemma viaBroker_inert: "viaBroker R a b \<Longrightarrow> inert b c \<Longrightarrow> viaBroker R a c"
  "inert a b \<Longrightarrow> viaBroker R b c \<Longrightarrow> viaBroker R a c"
  by (simp_all add: viaBroker_def inert_def)

definition published :: "envelope \<Rightarrow> broker \<Rightarrow> broker \<Rightarrow> bool" where
  "published e b b' \<longleftrightarrow> (\<exists>order. visitOrder order e b \<and> b' = snd (Publish order e b))"

lemma publishEnv_via:
  assumes "envOk E" "publishEnv E e sv = (n, sv')" shows "viaBroker (published e) sv sv'"
proof -
  have "s_broker sv' = snd (Publish (v_order E (List.map snd (entriesOf (s_broker sv) (e_channel e)))) e (s_broker sv))"
    "s_conns sv' = s_conns sv" "s_reg sv' = s_reg sv"
    using assms(2) by (auto simp: publishEnv_def split: prod.splits)
  then show ?thesis unfolding viaBroker_def published_def using envOk_visit [OF assms(1)] by blast
qed

lemma retainPublic_inert [frames]:
  assumes "retainPublic E e sv = (x, sv')" shows "inert sv sv'"
proof -
  obtain kept sv1 where k: "retained E (e_channel e) sv = (kept, sv1)" by (cases "retained E (e_channel e) sv")
  have "sv' = sv \<or> sv' = sv1 \<or> (\<exists>p v. callStore E (p :: (store_error + int) prog) sv1 = (v, sv'))"
    using assms k by (auto simp: retainPublic_def
        split: if_splits bool.splits option.splits sum.splits prod.splits store_error.splits)
  then show ?thesis using retained_inert [OF k] by (auto dest: callStore_inert intro: inert_trans)
qed

text \<open>An open publish that succeeds has fanned out the stamped body.\<close>

lemma publish_ok:
  assumes "handlePublicPublish E r sv = (resp, sv')" "p_status resp = 200"
    and "readBody [] (q_chunks r) (q_last r) = Some body" "topic = trimPrefix (q_path r) ''/publish/''"
  obtains sv1 n sv2 where "topic \<noteq> ''''" "inert sv sv1"
    "publishEnv E (publicEnvelope E topic body) sv1 = (n, sv2)" "inert sv2 sv'"
proof -
  obtain ok1 sva where a: "allowPublish E topic sv = (ok1, sva)" by (cases "allowPublish E topic sv")
  obtain ok2 sv1 where b: "allowPublish E (''ip:'' @ clientIP r) sva = (ok2, sv1)"
    by (cases "allowPublish E (''ip:'' @ clientIP r) sva")
  have i: "inert sv sv1" using allow_inert(2) [OF a] allow_inert(2) [OF b] inert_trans by blast
  have g: "guardPublicTopic topic sv = None" "ok1" "ok2" "q_method r = ''POST''"
    using assms a b by (auto simp: handlePublicPublish_def Let_def guardPublicTopic_def split: if_splits bool.splits)
  obtain n sv2 where p: "publishEnv E (publicEnvelope E topic body) sv1 = (n, sv2)" by (metis prod.collapse)
  obtain y sv4 where q: "retainPublic E (publicEnvelope E topic body) sv2 = (y, sv4)" by (metis prod.collapse)
  have "sv' = sv4" using assms g a b p q by (auto simp: handlePublicPublish_def Let_def split: sum.splits)
  moreover have "topic \<noteq> ''''" using g(1) by (auto simp: guardPublicTopic_def)
  ultimately show thesis using that i p retainPublic_inert [OF q] by blast
qed

text \<open>An open publish ends before the broker, or publishes one envelope on the topic.\<close>

lemma publish_cases:
  assumes env: "envOk E" and "handlePublicPublish E r sv = (x, sv')"
  obtains "inert sv sv'"
    | e where "e_channel e = trimPrefix (q_path r) ''/publish/''"
        "\<not> HasChannel (e_channel e) (s_reg sv)" "viaBroker (published e) sv sv'"
proof -
  let ?t = "trimPrefix (q_path r) ''/publish/''"
  obtain ok1 sv1 where a: "allowPublish E ?t sv = (ok1, sv1)" by (cases "allowPublish E ?t sv")
  obtain ok2 sv2 where b: "allowPublish E (''ip:'' @ clientIP r) sv1 = (ok2, sv2)"
    by (cases "allowPublish E (''ip:'' @ clientIP r) sv1")
  have i: "inert sv sv1" "inert sv sv2"
    using allow_inert(2) [OF a] allow_inert(2) [OF b] inert_trans by blast+
  show ?thesis
  proof (cases "q_method r = ''POST'' \<and> guardPublicTopic ?t sv = None \<and> ok1 \<and> ok2 \<and>
      readBody [] (q_chunks r) (q_last r) \<noteq> None")
    case False
    have "sv' \<in> {sv, sv1, sv2}" using assms False a b
      by (auto simp: handlePublicPublish_def Let_def split: if_splits bool.splits option.splits)
    then show ?thesis using i that(1) by auto
  next
    case True
    then obtain body where "readBody [] (q_chunks r) (q_last r) = Some body" by blast
    note t = True this a b
    let ?e = "publicEnvelope E ?t body"
    obtain n sv3 where p: "publishEnv E ?e sv2 = (n, sv3)" by (cases "publishEnv E ?e sv2")
    obtain y sv4 where q: "retainPublic E ?e sv3 = (y, sv4)" by (cases "retainPublic E ?e sv3")
    have "sv' = sv4" using assms t p q
      by (auto simp: handlePublicPublish_def Let_def split: sum.splits)
    then have "viaBroker (published ?e) sv sv'"
      using viaBroker_inert publishEnv_via [OF env p] retainPublic_inert [OF q] i(2) by blast
    moreover have "\<not> HasChannel ?t (s_reg sv)" using True by (auto simp: guardPublicTopic_def split: if_splits)
    ultimately show ?thesis using that(2) [of ?e] by (simp add: publicEnvelope_def)
  qed
qed

lemma reader_cases:
  assumes env: "envOk E" and "readerStep E w f sv = (out, sv')"
  obtains "inert sv sv'" | e where "e_channel e = w_channel w" "viaBroker (published e) sv sv'"
proof (cases "fst f \<and> (\<exists>e. Decode (v_json E) (snd f) = Inr e \<and> e_channel e = w_channel w) \<and>
    \<not> (MaxMessageBytes (s_lim sv) > 0 \<and> int (length (snd f)) > MaxMessageBytes (s_lim sv))")
  case False
  then have "sv' = sv" using assms
    by (auto simp: readerStep_def split: prod.splits if_splits sum.splits)
  then show ?thesis using that(1) by simp
next
  case True
  then obtain e where e: "Decode (v_json E) (snd f) = Inr e" "e_channel e = w_channel w" by blast
  obtain ok sv1 where a: "allowPublish E (w_channel w) sv = (ok, sv1)" by (cases "allowPublish E (w_channel w) sv")
  have i: "inert sv sv1" by (rule allow_inert(2) [OF a])
  show ?thesis
  proof (cases ok)
    case False
    then have "sv' = sv1" using assms True e a by (auto simp: readerStep_def split: prod.splits)
    then show ?thesis using i that(1) by simp
  next
    case ok: True
    obtain b where f: "f = (True, b)" using True by (cases f) auto
    obtain x sv2 where c: "callStore E (Append (v_fuel E) (v_unix E) (w_channel w) b (BytesPerAccount (s_lim sv1))) sv1 = (x, sv2)"
      by (cases "callStore E (Append (v_fuel E) (v_unix E) (w_channel w) b (BytesPerAccount (s_lim sv1))) sv1")
    have "\<exists>sv3 \<in> {sv1, sv2}. sv' = snd (publishEnv E e sv3)"
      using assms True e a ok
      by (auto simp: readerStep_def f c split: if_splits option.splits sum.splits store_error.splits)
    moreover have "inert sv sv3" if "sv3 \<in> {sv1, sv2}" for sv3
      using that i inert_trans callStore_inert [OF c] by blast
    ultimately have "viaBroker (published e) sv sv'"
      using publishEnv_via [OF env] viaBroker_inert(2) by (metis prod.collapse)
    then show ?thesis using e(2) that(2) by blast
  qed
qed

lemma subscribe_via:
  "subscribe ch sv = (sub, sv') \<Longrightarrow> viaBroker (\<lambda>b b'. Subscribe ch b = (sub, b')) sv sv'"
  by (auto simp: subscribe_def viaBroker_def split: prod.splits)

lemma unsubscribe_via: "viaBroker (\<lambda>b b'. b' = Unsubscribe (Some r) b) sv (unsubscribe r sv)"
  by (simp add: unsubscribe_def viaBroker_def)

lemma liveNext_via:
  "liveNext E r sv = Some (z, sv') \<Longrightarrow> viaBroker (\<lambda>b b'. \<exists>e. receive r b = Some (e, b')) sv sv'"
  by (auto simp: liveNext_def viaBroker_def split: option.splits)


text \<open>An open subscribe is refused, or takes a subscription; if the stream is already over, it
  was given back.\<close>

lemma subscribe_cases:
  assumes "handlePublicSubscribe E r wok sv = (y, sv')"
  obtains resp where "y = SseRefused resp" "sv' = sv"
    | sub out where "y = SseLive sub out"
        "viaBroker (\<lambda>b b'. Subscribe (trimPrefix (q_path r) ''/subscribe/'') b = (sub, b')) sv sv'"
        "\<not> HasChannel (trimPrefix (q_path r) ''/subscribe/'') (s_reg sv)"
    | sub where "y = SseGone"
        "viaBroker (\<lambda>b b'. b' = Unsubscribe (Some sub) (snd (Subscribe (trimPrefix (q_path r) ''/subscribe/'') b))
           \<and> sub = fst (Subscribe (trimPrefix (q_path r) ''/subscribe/'') b)) sv sv'"
proof (cases "guardPublicTopic (trimPrefix (q_path r) ''/subscribe/'') sv")
  case (Some resp)
  then have "(y, sv') = (SseRefused resp, sv)" using assms by (simp add: handlePublicSubscribe_def Let_def)
  then show ?thesis using that(1) by simp
next
  case None
  let ?t = "trimPrefix (q_path r) ''/subscribe/''"
  obtain sub sv1 where a: "subscribe ?t sv = (sub, sv1)" by (cases "subscribe ?t sv")
  obtain kept sv2 where b: "(if s_store sv1 = None then (False, sv1) else retained E ?t sv1) = (kept, sv2)"
    by (cases "if s_store sv1 = None then (False, sv1) else retained E ?t sv1")
  obtain ms sv3 where c: "catchUpFrom E ?t (afterParam r) sv2 = (ms, sv3)"
    by (cases "catchUpFrom E ?t (afterParam r) sv2")
  have i: "inert sv1 sv2" using b by (auto split: if_splits dest: retained_inert)
  have i3: "inert sv1 sv3" using i catchUp_inert [OF c] by (rule inert_trans)
  have via: "viaBroker (\<lambda>b b'. Subscribe ?t b = (sub, b')) sv svx" if "inert sv1 svx" for svx
    using viaBroker_inert(1) [OF subscribe_via [OF a] that] .
  have h: "\<not> HasChannel ?t (s_reg sv)" using None by (auto simp: guardPublicTopic_def split: if_splits)
  have "(y, sv') = (if \<not> kept then (SseLive sub [], sv2)
      else if length ms \<le> wok then (SseLive sub (List.map sseStored ms), sv3)
      else (SseGone, unsubscribe sub sv3))"
    using assms None a b c by (auto simp: handlePublicSubscribe_def Let_def split: prod.splits bool.splits)
  then consider "y = SseLive sub []" "sv' = sv2" | "y = SseLive sub (List.map sseStored ms)" "sv' = sv3"
    | "y = SseGone" "sv' = unsubscribe sub sv3" by (auto split: if_splits)
  then show ?thesis
  proof cases
    case 3
    then show ?thesis using that(3) [of sub] via [OF i3]
      by (auto simp: viaBroker_def unsubscribe_def)
  qed (use that(2) via i i3 h in auto)
qed

lemma startPump_via:
  assumes "startPump E ip hs wok sv = ((w, sent, live), sv')"
  shows "viaBroker (\<lambda>b b'. Subscribe (hs_channel hs) b = (w_sub w, b')) sv sv'"
    "w_channel w = hs_channel hs" "w_ip w = ip"
proof -
  obtain kept sv1 where a: "retained E (hs_channel hs) sv = (kept, sv1)" by (cases "retained E (hs_channel hs) sv")
  obtain sub sv2 where b: "subscribe (hs_channel hs) sv1 = (sub, sv2)" by (cases "subscribe (hs_channel hs) sv1")
  obtain ms sv3 where c: "catchUpFrom E (hs_channel hs) (hs_afterSeq hs) sv2 = (ms, sv3)"
    by (cases "catchUpFrom E (hs_channel hs) (hs_afterSeq hs) sv2")
  have "w = \<lparr>w_channel = hs_channel hs, w_retained = kept, w_sub = sub, w_ip = ip\<rparr> \<and> sv' \<in> {sv2, sv3}"
    using assms by (auto simp: startPump_def a b c Let_def split: if_splits)
  then show "viaBroker (\<lambda>b b'. Subscribe (hs_channel hs) b = (w_sub w, b')) sv sv'"
    "w_channel w = hs_channel hs" "w_ip w = ip"
    using viaBroker_inert(1) [OF _ catchUp_inert [OF c]] viaBroker_inert(2) [OF retained_inert [OF a]]
      subscribe_via [OF b] by auto
qed

text \<open>A WebSocket request takes a slot and a subscription exactly when it ends up live.\<close>

definition wsOpened :: "wsSession \<Rightarrow> 'r server \<Rightarrow> 'r server \<Rightarrow> bool" where
  "wsOpened w sv sv' \<longleftrightarrow> Acquire (w_ip w) (s_conns sv) = (True, s_conns sv') \<and> s_reg sv' = s_reg sv \<and>
     Subscribe (w_channel w) (s_broker sv) = (w_sub w, s_broker sv')"

lemma ws_cases:
  assumes "handleWS E r acc hello peer wok sv = (u, sv')"
  obtains w out where "u = WsLive w out" "wsOpened w sv sv'" "HasChannel (w_channel w) (s_reg sv)"
    | w sv1 where "\<nexists>w out. u = WsLive w out" "wsOpened w sv sv1" "sv' = endSession w sv1"
    | ip c where "\<nexists>w out. u = WsLive w out" "Acquire ip (s_conns sv) = (True, c)"
        "sv' = releaseConn ip (sv\<lparr>s_conns := c\<rparr>)"
    | "\<nexists>w out. u = WsLive w out" "sv' = sv"
proof -
  obtain ok c where a: "Acquire (clientIP r) (s_conns sv) = (ok, c)" by (cases "Acquire (clientIP r) (s_conns sv)")
  obtain res out where b: "authenticateWS E hello peer wok (sv\<lparr>s_conns := c\<rparr>) = (res, out)"
    by (cases "authenticateWS E hello peer wok (sv\<lparr>s_conns := c\<rparr>)")
  show ?thesis
  proof (cases ok)
    case False
    then have "s_conns sv = c" using a by (auto simp: Acquire_def split: if_splits)
    then show ?thesis using assms False a that(4) by (auto simp: handleWS_def Let_def)
  next
    case ok: True
    show ?thesis
    proof (cases "acc \<and> res \<noteq> None \<and> 2 \<le> wok")
      case False
      then show ?thesis using assms ok a b that(3)
        by (auto simp: handleWS_def Let_def split: if_splits option.splits)
    next
      case True
      then obtain hs where r: "res = Some hs" by blast
      obtain w sent live sv1 where p: "startPump E (clientIP r) hs (wok - 2) (sv\<lparr>s_conns := c\<rparr>) = ((w, sent, live), sv1)"
        by (metis prod.collapse)
      note v = startPump_via [OF p]
      have opened: "wsOpened w sv sv1" using v a ok by (simp add: viaBroker_def wsOpened_def)
      have "HasChannel (hs_channel hs) (s_reg sv)"
        using b r by (auto simp: authenticateWS_def Let_def VerifyResponse_def HasChannel_def
            split: option.splits sum.splits if_splits)
      then show ?thesis
        using assms True ok a b r p opened v(2) that(1,2) by (auto simp: handleWS_def Let_def split: if_splits)
    qed
  qed
qed

subsection \<open>The server's steps\<close>

text \<open>A server with the WebSocket sessions and the streams it is serving.\<close>

type_synonym 'r served = "'r server \<times> wsSession list \<times> (string \<times> nat) list"

inductive serverStep :: "'r served \<Rightarrow> 'r served \<Rightarrow> bool" where
  ss_account: "handleCreateAccount E r sv = (x, sv') \<Longrightarrow> serverStep (sv, ws, ss) (sv', ws, ss)"
| ss_create: "handleCreateChannel E r sv = (x, sv') \<Longrightarrow> serverStep (sv, ws, ss) (sv', ws, ss)"
| ss_limit: "handleAdminLimit E r sv = (x, sv') \<Longrightarrow> serverStep (sv, ws, ss) (sv', ws, ss)"
| ss_grant: "handleAdminGrant E r sv = (x, sv') \<Longrightarrow> serverStep (sv, ws, ss) (sv', ws, ss)"
| ss_channels: "handleAdminChannels E r sv = (x, sv') \<Longrightarrow> serverStep (sv, ws, ss) (sv', ws, ss)"
| ss_stats: "handleStats E r sv = (x, sv') \<Longrightarrow> serverStep (sv, ws, ss) (sv', ws, ss)"
| ss_sweep: "callStore E (PruneExpired now) sv = (z, sv') \<Longrightarrow> serverStep (sv, ws, ss) (sv', ws, ss)"
| ss_publish: "envOk E \<Longrightarrow> handlePublicPublish E r sv = (x, sv') \<Longrightarrow> serverStep (sv, ws, ss) (sv', ws, ss)"
| ss_subscribe: "handlePublicSubscribe E r wok sv = (SseLive sub out, sv') \<Longrightarrow>
     serverStep (sv, ws, ss) (sv', ws, (trimPrefix (q_path r) ''/subscribe/'', sub) # ss)"
| ss_subscribe_over: "handlePublicSubscribe E r wok sv = (y, sv') \<Longrightarrow> (\<nexists>sub out. y = SseLive sub out) \<Longrightarrow>
     serverStep (sv, ws, ss) (sv', ws, ss)"
| ss_stream: "(ch, sub) \<in> set ss \<Longrightarrow> sseNext E sub sv = Some (f, sv') \<Longrightarrow> serverStep (sv, ws, ss) (sv', ws, ss)"
| ss_stream_end: "(ch, sub) \<in> set ss \<Longrightarrow> serverStep (sv, ws, ss) (unsubscribe sub sv, ws, remove1 (ch, sub) ss)"
| ss_ws: "handleWS E r acc hello peer wok sv = (WsLive w out, sv') \<Longrightarrow> serverStep (sv, ws, ss) (sv', w # ws, ss)"
| ss_ws_over: "handleWS E r acc hello peer wok sv = (u, sv') \<Longrightarrow> (\<nexists>w out. u = WsLive w out) \<Longrightarrow>
     serverStep (sv, ws, ss) (sv', ws, ss)"
| ss_reader: "envOk E \<Longrightarrow> w \<in> set ws \<Longrightarrow> readerStep E w f sv = (out, sv') \<Longrightarrow> serverStep (sv, ws, ss) (sv', ws, ss)"
| ss_writer: "w \<in> set ws \<Longrightarrow> writerStep E w sv = Some (out, sv') \<Longrightarrow> serverStep (sv, ws, ss) (sv', ws, ss)"
| ss_end: "w \<in> set ws \<Longrightarrow> serverStep (sv, ws, ss) (endSession w sv, remove1 w ws, ss)"

text \<open>What a step can be, apart from the handler it comes from.\<close>

lemma serverStep_cases:
  assumes "serverStep (sv, ws, ss) (sv', ws', ss')"
  obtains "quiet sv sv'" "ws' = ws" "ss' = ss"
    | e where "viaBroker (published e) sv sv'" "ws' = ws" "ss' = ss"
    | sub where "viaBroker (\<lambda>b b'. \<exists>e. receive sub b = Some (e, b')) sv sv'" "ws' = ws" "ss' = ss"
    | ch sub where "viaBroker (\<lambda>b b'. Subscribe ch b = (sub, b')) sv sv'" "ws' = ws" "ss' = (ch, sub) # ss"
        "\<not> HasChannel ch (s_reg sv)"
    | ch sub where "viaBroker (\<lambda>b b'. b' = Unsubscribe (Some sub) (snd (Subscribe ch b)) \<and>
        sub = fst (Subscribe ch b)) sv sv'" "ws' = ws" "ss' = ss"
    | ch sub where "(ch, sub) \<in> set ss" "sv' = unsubscribe sub sv" "ws' = ws" "ss' = remove1 (ch, sub) ss"
    | w where "wsOpened w sv sv'" "ws' = w # ws" "ss' = ss"
    | w sv1 where "wsOpened w sv sv1" "sv' = endSession w sv1" "ws' = ws" "ss' = ss"
    | ip c where "Acquire ip (s_conns sv) = (True, c)" "sv' = releaseConn ip (sv\<lparr>s_conns := c\<rparr>)"
        "ws' = ws" "ss' = ss"
    | w where "w \<in> set ws" "sv' = endSession w sv" "ws' = remove1 w ws" "ss' = ss"
  using assms
proof cases
  case (ss_publish E r x)
  from ss_publish(3,4) show ?thesis
    by (rule publish_cases) (use ss_publish that(1,2) inert_quiet in blast)+
next
  case (ss_subscribe E r wok sub out)
  from ss_subscribe(3) show ?thesis
    by (rule subscribe_cases) (use ss_subscribe that(4) in auto)
next
  case (ss_subscribe_over E r wok y)
  from ss_subscribe_over(3) show ?thesis
    by (rule subscribe_cases) (use ss_subscribe_over that(1,5) in auto)
next
  case (ss_stream ch sub E f)
  then show ?thesis using that(3) liveNext_via by (fastforce simp: sseNext_def)
next
  case (ss_ws E r acc hello peer wok w out)
  from ss_ws(3) show ?thesis by (rule ws_cases) (use ss_ws that(7) in auto)
next
  case (ss_ws_over E r acc hello peer wok u)
  from ss_ws_over(3) show ?thesis by (rule ws_cases) (use ss_ws_over that(1,8,9) in auto)
next
  case (ss_reader E w f out)
  from ss_reader(3,5) show ?thesis
    by (rule reader_cases) (use ss_reader that(1,2) inert_quiet in blast)+
next
  case (ss_writer w E out)
  then show ?thesis using that(3) liveNext_via by (fastforce simp: writerStep_def)
qed (use that(1,6,10) in \<open>blast dest: account_inert admin_inert callStore_inert handleCreateChannel_quiet intro: inert_quiet\<close>)+

text \<open>Keys stay, and no stream is opened on a channel that has one.\<close>

lemma serverStep_key:
  assumes "serverStep (sv, ws, ss) (sv', ws', ss')" "channels (s_reg sv) ch = Some k"
  shows "channels (s_reg sv') ch = Some k" "(ch, r) \<in> set ss' \<Longrightarrow> (ch, r) \<in> set ss"
proof -
  show "channels (s_reg sv') ch = Some k"
    using assms(1) by (rule serverStep_cases)
      (use assms(2) in \<open>auto simp: quiet_def viaBroker_def wsOpened_def unsubscribe_def endSession_def releaseConn_def\<close>)
  show "(ch, r) \<in> set ss' \<Longrightarrow> (ch, r) \<in> set ss"
    using assms(1) by (rule serverStep_cases)
      (use assms(2) in \<open>auto simp: HasChannel_def dest: set_remove1_subset [THEN subsetD]\<close>)
qed

lemma serverSteps_key:
  assumes "serverStep\<^sup>*\<^sup>* st st'" "channels (s_reg (fst st)) ch = Some k"
  shows "channels (s_reg (fst st')) ch = Some k \<and>
    ((ch, r) \<in> set (snd (snd st')) \<longrightarrow> (ch, r) \<in> set (snd (snd st)))"
  using assms
proof (induction rule: rtranclp_induct)
  case (step st' st'')
  then show ?case using serverStep_key by (cases st'; cases st''; simp) blast
qed simp


end
