(* ===== verification/Transport_Gate.thy ===== *)
theory Transport_Gate
  imports Transport_Safety
begin

text \<open>
  Who gets through: admission of WebSocket peers and its uniform denial, what an admitted
  peer can touch, the administrator's gate, and the connection slots.
\<close>

subsection \<open>A concrete server\<close>

definition exEnvT :: "db env" where
  "exEnvT = \<lparr>v_redis = exRedis, v_prims = xorPrims, v_fl = (\<lambda>x. x), v_now = 5, v_unix = 5,
     v_rand1 = Some (replicate 32 (CHR ''r'')), v_rand2 = Some (replicate 32 (CHR ''s'')), v_fuel = 9,
     v_order = (\<lambda>xs. xs), v_json = (\<lambda>b. None), v_unmarshal = (\<lambda>b. None),
     v_marshal = (\<lambda>e. None), v_quote = (\<lambda>b. b), v_stampId = ''id'', v_stampTs = ''ts''\<rparr>"

definition exServer :: "db server" where
  "exServer = NewWithConfig (\<lambda>x. x) \<lparr>cfg_lim = DefaultLimits, cfg_allowed = [], cfg_admin = None\<rparr>
     newBroker (snd (Register ''p'' (replicate 32 (CHR ''k'')) NewRegistry)) (Some emptyDb)"

definition exRequest :: request where
  "exRequest = \<lparr>q_method = ''POST'', q_path = ''/publish/p'', q_authorization = '''', q_account = '''',
     q_origin = '''', q_xff = '''', q_remoteAddr = ''10.0.0.1:99'', q_after = '''', q_body = '''',
     q_chunks = [], q_last = ''hi''\<rparr>"

lemma exServer_key: "channels (s_reg exServer) ''p'' = Some (replicate 32 (CHR ''k''))"
  by (simp add: exServer_def NewWithConfig_def Register_def NewRegistry_def)


subsection \<open>Admission\<close>

lemma ws_outcome:
  assumes "fst (Acquire (clientIP r) (s_conns sv))"
    and "textOf hello = Some hb" "decodeHandshake (v_unmarshal E) hb = Some hs"
    and "v_rand1 E = Some challenge"
    and "3 \<le> wok" "textOf (peer (b64encode challenge)) = Some ab" "decodeAuth (v_unmarshal E) ab = Some ans"
  shows "if \<exists>k. channels (s_reg sv) (hs_channel hs) = Some k \<and>
        b64decode ans = Some (ResponseFromAuthKey (v_prims E) k challenge)
    then \<exists>w out. w_channel w = hs_channel hs \<and>
      fst (handleWS E r True hello peer wok sv) \<in> {WsLive w out, WsGone out} \<and>
      take 2 out = [OutChallenge (b64encode challenge), OutResult True '''']
    else fst (handleWS E r True hello peer wok sv) =
      WsDenied [OutChallenge (b64encode challenge), OutResult False ''not authorized'',
        OutClose 1008 ''not authorized'']"
proof -
  obtain c where c: "Acquire (clientIP r) (s_conns sv) = (True, c)"
    using assms(1) by (cases "Acquire (clientIP r) (s_conns sv)") auto
  let ?sv = "sv\<lparr>s_conns := c\<rparr>" and ?out = "[OutChallenge (b64encode challenge)]"
  let ?good = "\<exists>k. channels (s_reg sv) (hs_channel hs) = Some k \<and>
      b64decode ans = Some (ResponseFromAuthKey (v_prims E) k challenge)"
  have auth: "authenticateWS E hello peer wok ?sv = (if ?good then Some hs else None, ?out)"
    using assms(2-7)
    by (auto simp: authenticateWS_def NewChallenge_def Let_def VerifyResponse_def split: option.splits)
  obtain w sent live sv' where p: "startPump E (clientIP r) hs (wok - 2) ?sv = ((w, sent, live), sv')"
    by (metis prod.collapse)
  have w: "w_channel w = hs_channel hs"
    using p by (auto simp: startPump_def Let_def split: prod.splits if_splits)
  show ?thesis
  proof (cases ?good)
    case True
    have "fst (handleWS E r True hello peer wok sv) =
        (if live then WsLive w (?out @ [OutResult True ''''] @ sent)
         else WsGone (?out @ [OutResult True ''''] @ sent))"
      using True using assms(5) by (simp add: handleWS_def Let_def c auth p)
    moreover have "take 2 (?out @ [OutResult True ''''] @ sent) = ?out @ [OutResult True '''']"
      by (simp add: numeral_2_eq_2)
    ultimately show ?thesis using True w
      by (simp only: if_True) (intro exI [of _ w] exI [of _ "?out @ [OutResult True ''''] @ sent"], simp)
  next
    case False
    have "fst (handleWS E r True hello peer wok sv) = WsDenied (?out @
        [OutResult False ''not authorized'', OutClose 1008 ''not authorized''])"
      using assms(5) by (simp add: handleWS_def Let_def c auth False)
    then show ?thesis using False by simp
  qed
qed




subsection \<open>The administrator's gate\<close>

text \<open>
  C26. Without a configured key of at least 32 bytes, or without a store, the admin endpoints
  do not exist; with one, a caller who does not present exactly that key is refused by every
  admin endpoint and nothing changes, whatever the rest of the request says.
\<close>
theorem admin_gate:
  assumes "s_admin sv = fst (From key)"
    and "h \<in> {handleAdminLimit E r sv, handleAdminGrant E r sv, handleAdminChannels E r sv}"
  shows "(length key < 32 \<or> s_store sv = None \<longrightarrow> h = (notFound, sv)) \<and>
    (bearer r \<noteq> key \<longrightarrow> snd h = sv \<and> p_status (fst h) \<in> {401, 404, 405})"
proof -
  have en: "Enabled (s_admin sv) \<longleftrightarrow> 32 \<le> length key"
    by (auto simp: assms(1) Enabled_def From_def minKeyLen_def)
  have ver: "adminVerify (bearer r) (s_admin sv) \<Longrightarrow> bearer r = key"
    by (auto simp: assms(1) adminVerify_def From_def split: if_splits)
  have off: "h = (notFound, sv)" if "length key < 32 \<or> s_store sv = None"
    using assms(2) that en
    by (auto simp: handleAdminLimit_def handleAdminGrant_def handleAdminChannels_def requireAdmin_def)
  moreover have "snd h = sv \<and> p_status (fst h) \<in> {401, 404, 405}" if "bearer r \<noteq> key"
  proof -
    have "\<not> adminVerify (bearer r) (s_admin sv)" using ver that by blast
    then show ?thesis using assms(2)
      by (auto simp: handleAdminLimit_def handleAdminGrant_def handleAdminChannels_def requireAdmin_def split: if_splits)
  qed
  ultimately show ?thesis by blast
qed

theorem admin_gate_witness:
  "handleAdminGrant exEnvT exRequest exServer = (notFound, exServer)"
proof -
  have "s_admin exServer = fst (From '''')" by (simp add: exServer_def NewWithConfig_def)
  from admin_gate [OF this, of "handleAdminGrant exEnvT exRequest exServer" exEnvT exRequest]
  show ?thesis by simp
qed

end
