(* ===== verification/Transport_Sessions.thy ===== *)
theory Transport_Sessions
  imports Transport_Gate
begin

text \<open>
  What holds of the server in every execution: well-formed registry and broker, connection
  slots and subscriptions that belong exactly to what is being served, and peers confined to
  the channel they were admitted to.
\<close>

subsection \<open>Broker facts\<close>

lemma Unsubscribe_facts:
  assumes "brokerInv b"
  shows "brokerInv (Unsubscribe (Some r) b)"
    "registered (Unsubscribe (Some r) b) ch x \<Longrightarrow> registered b ch x \<and> x \<noteq> r"
proof -
  have un: "\<not> registered (unsubLocked r b) c r" for c
  proof (cases "heap b r")
    case None
    then have "unsubLocked r b = b" by (simp add: unsubLocked_def)
    then show ?thesis using None assms by (metis brokerInv_registered option.distinct(1))
  next
    case (Some s)
    then show ?thesis by (rule unregistered_after_unsub [OF assms])
  qed
  then show "brokerInv (Unsubscribe (Some r) b)"
    by (simp add: Unsubscribe_def closeSub_inv unsubLocked_inv assms)
  have "registered b ch x" if "registered (unsubLocked r b) ch x"
    using that unsubLocked_cases [of r b] by (auto simp: registered_def entriesOf_dropEntry split: if_splits)
  then show "registered (Unsubscribe (Some r) b) ch x \<Longrightarrow> registered b ch x \<and> x \<noteq> r"
    using un [of ch] by (auto simp: Unsubscribe_def registered_def)
qed

lemma Subscribe_facts:
  assumes "brokerInv b" "Subscribe ch b = (r, b')"
  shows "brokerInv b'" "registered b' c x \<Longrightarrow> registered b c x \<or> (c = ch \<and> x = r)"
proof -
  show "brokerInv b'" using Subscribe_inv [OF assms(1), of ch] assms(2) by simp
  show "registered b' c x \<Longrightarrow> registered b c x \<or> (c = ch \<and> x = r)"
  proof (cases "x = r")
    case True
    assume "registered b' c x"
    moreover have "\<not> registered b c r" using Subscribe_spec(1) [OF assms(2)] brokerInv_alloc [OF assms(1)]
      by (metis assms(1) brokerInv_registered option.distinct(1))
    ultimately show ?thesis using True Subscribe_spec(4) [OF assms(2), of c]
      by (auto simp: registered_def split: if_splits)
  qed (use registered_Subscribe [OF assms(2)] in blast)
qed

lemma published_facts:
  assumes "brokerInv b" "published e b b'"
  shows "brokerInv b'" "registered b' ch r \<Longrightarrow> registered b ch r"
  using assms Publish_spec(1) registered_Publish unfolding published_def by blast+

lemma received_facts:
  assumes "brokerInv b" "receive r b = Some (e, b')"
  shows "brokerInv b'" "registered b' = registered b"
  using receive_inv [OF assms] by (auto simp: registered_def fun_eq_iff)

subsection \<open>The invariant\<close>

definition holds :: "string \<Rightarrow> wsSession list \<Rightarrow> nat" where
  "holds ip ws = length (filter (\<lambda>w. w_ip w = ip) ws)"

lemma holds_simps [simp]:
  "holds ip [] = 0" "holds ip (w # ws) = (if w_ip w = ip then Suc (holds ip ws) else holds ip ws)"
  by (simp_all add: holds_def)

lemma holds_remove1: "w \<in> set ws \<Longrightarrow> holds (w_ip w) ws > 0 \<and>
    holds ip (remove1 w ws) = (if w_ip w = ip then holds ip ws - 1 else holds ip ws)"
  by (induction ws) (auto simp: holds_def)

definition slotsOk :: "int \<Rightarrow> connCounter \<Rightarrow> wsSession list \<Rightarrow> bool" where
  "slotsOk m c ws \<longleftrightarrow> max_c c = m \<and>
     (\<forall>ip. countOf c ip = int (holds ip ws) \<and> (holds ip ws = 0 \<or> int (holds ip ws) \<le> m))"

definition servedBy :: "wsSession list \<Rightarrow> (string \<times> nat) list \<Rightarrow> string \<Rightarrow> nat \<Rightarrow> bool" where
  "servedBy ws ss ch r \<longleftrightarrow> (\<exists>w\<in>set ws. w_channel w = ch \<and> w_sub w = r) \<or> (ch, r) \<in> set ss"

definition servedOk :: "int \<Rightarrow> 'r served \<Rightarrow> bool" where
  "servedOk m st = (case st of (sv, ws, ss) \<Rightarrow>
     registryInv (s_reg sv) \<and> brokerInv (s_broker sv) \<and> slotsOk m (s_conns sv) ws \<and>
     (\<forall>ch r. registered (s_broker sv) ch r \<longrightarrow> servedBy ws ss ch r))"

lemma slots_acquire:
  assumes "slotsOk m c ws" "Acquire ip c = (True, c')"
  shows "w_ip w = ip \<Longrightarrow> slotsOk m c' (w # ws)" "slotsOk m (Release ip c') ws"
  using assms by (auto simp: slotsOk_def countOf_Acquire countOf_Release)
    (auto dest!: countOf_Acquire(2) simp: slotsOk_def)

lemma slots_release:
  assumes "slotsOk m c ws" "w \<in> set ws"
  shows "slotsOk m (Release (w_ip w) c) (remove1 w ws)"
proof -
  have "0 < holds (w_ip w) ws" using holds_remove1 [OF assms(2)] by blast
  moreover have "int (holds (w_ip w) ws) \<le> m" using assms(1) calculation unfolding slotsOk_def by (metis less_irrefl)
  ultimately show ?thesis
    using assms(1) holds_remove1 [OF assms(2)] by (auto simp: slotsOk_def countOf_Release int_ops(6))
qed

lemma servedOk_step:
  assumes "serverStep (sv, ws, ss) (sv', ws', ss')" "servedOk m (sv, ws, ss)"
  shows "servedOk m (sv', ws', ss')"
proof -
  have inv: "registryInv (s_reg sv)" "brokerInv (s_broker sv)" "slotsOk m (s_conns sv) ws"
    and own: "\<And>ch r. registered (s_broker sv) ch r \<Longrightarrow> servedBy ws ss ch r"
    using assms(2) by (auto simp: servedOk_def)
  note unsub = Unsubscribe_facts and sub = Subscribe_facts [OF inv(2)]
  show ?thesis using assms(1)
  proof (cases rule: serverStep_cases)
    case 1
    then show ?thesis using inv own by (auto simp: quiet_def servedOk_def)
  next
    case (2 e)
    then have p: "published e (s_broker sv) (s_broker sv')" by (simp add: viaBroker_def)
    show ?thesis using 2 inv own published_facts [OF inv(2) p] by (auto simp: viaBroker_def servedOk_def)
  next
    case (3 r)
    then show ?thesis using inv own received_facts [OF inv(2)] by (auto simp: viaBroker_def servedOk_def)
  next
    case (4 ch r)
    then have "Subscribe ch (s_broker sv) = (r, s_broker sv')" by (simp add: viaBroker_def)
    from sub [OF this] show ?thesis using 4 inv own
      by (auto simp: viaBroker_def servedOk_def servedBy_def)
  next
    case (5 ch r)
    then have s: "Subscribe ch (s_broker sv) = (r, snd (Subscribe ch (s_broker sv)))"
      and b: "s_broker sv' = Unsubscribe (Some r) (snd (Subscribe ch (s_broker sv)))"
      by (auto simp: viaBroker_def)
    have "registered (s_broker sv) c x" if "registered (s_broker sv') c x" for c x
      using that sub(2) [OF s] unsub(2) [OF sub(1) [OF s]] unfolding b by blast
    then show ?thesis using 5 inv own unsub(1) [OF sub(1) [OF s]]
      by (auto simp: viaBroker_def servedOk_def b)
  next
    case (6 ch r)
    then show ?thesis using inv own unsub [OF inv(2)]
      by (fastforce simp: servedOk_def servedBy_def unsubscribe_def)
  next
    case (7 w)
    then have "Subscribe (w_channel w) (s_broker sv) = (w_sub w, s_broker sv')" by (simp add: wsOpened_def)
    from sub [OF this] show ?thesis using 7 inv own slots_acquire(1) [OF inv(3)]
      by (auto simp: wsOpened_def servedOk_def servedBy_def)
  next
    case (8 w sv1)
    then have s: "Subscribe (w_channel w) (s_broker sv) = (w_sub w, s_broker sv1)" by (simp add: wsOpened_def)
    have b: "s_broker sv' = Unsubscribe (Some (w_sub w)) (s_broker sv1)" "s_reg sv' = s_reg sv"
        "s_conns sv' = Release (w_ip w) (s_conns sv1)"
      using 8 by (simp_all add: wsOpened_def endSession_def unsubscribe_def)
    have "slotsOk m (s_conns sv') ws" unfolding b(3)
      by (rule slots_acquire(2) [OF inv(3)]) (use 8 in \<open>simp add: wsOpened_def\<close>)
    moreover
    have "registered (s_broker sv) c x" if "registered (s_broker sv') c x" for c x
      using that sub(2) [OF s] unsub(2) [OF sub(1) [OF s]] unfolding b(1) by blast
    ultimately show ?thesis using 8(3,4) inv(1) own unsub(1) [OF sub(1) [OF s]]
      by (simp add: servedOk_def b(1,2))
  next
    case (9 ip c)
    then show ?thesis using inv own slots_acquire(2) [OF inv(3)]
      by (auto simp: servedOk_def releaseConn_def)
  next
    case (10 w)
    have b: "s_broker sv' = Unsubscribe (Some (w_sub w)) (s_broker sv)" "s_reg sv' = s_reg sv"
        "s_conns sv' = Release (w_ip w) (s_conns sv)"
      using 10 by (simp_all add: endSession_def unsubscribe_def)
    have "servedBy (remove1 w ws) ss c x" if "registered (s_broker sv') c x" for c x
      using own [of c x] unsub(2) [OF inv(2) that [unfolded b(1)]]
      unfolding servedBy_def by (metis in_set_remove1)
    then show ?thesis using 10(3,4) inv(1) unsub(1) [OF inv(2)] slots_release [OF inv(3) 10(1)]
      by (simp add: servedOk_def b)
  qed
qed


lemma servedOk_steps:
  assumes "serverStep\<^sup>*\<^sup>* st st'" "servedOk m st" shows "servedOk m st'"
  using assms
proof (induction rule: rtranclp_induct)
  case (step st' st'')
  then show ?case using servedOk_step by (cases st'; cases st''; simp)
qed simp

lemma servedOk_start:
  assumes "registryInv reg"
  shows "servedOk (ConnectionsPerIP (cfg_lim cfg)) (NewWithConfig fl cfg newBroker reg st, [], [])"
proof -
  have "registered newBroker ch r \<longleftrightarrow> False" for ch r
    by (simp add: registered_def entriesOf_def newBroker_def)
  then show ?thesis
    using assms newBroker_inv
    by (simp add: servedOk_def NewWithConfig_def slotsOk_def NewConnCounter_def countOf_def)
qed

text \<open>
  C25. In every execution of a server started on a well-formed registry, whatever clients,
  peers and the sweeper do: every registered key has the size of a key, and the broker is
  well formed (bounded queues, unique subscription ids, every entry an open subscription of
  its own channel, no empty channel left behind).
\<close>
theorem server_wellformed:
  assumes "registryInv reg"
    and "serverStep\<^sup>*\<^sup>* (NewWithConfig fl cfg newBroker reg st, [], []) (sv, ws, ss)"
  shows "registryInv (s_reg sv) \<and> brokerInv (s_broker sv)"
  using servedOk_steps [OF assms(2) servedOk_start [OF assms(1)]] by (simp add: servedOk_def)

theorem server_wellformed_witness:
  "registryInv (s_reg (snd (handleStats exEnvT exRequest exServer)))"
proof -
  let ?cfg = "\<lparr>cfg_lim = DefaultLimits, cfg_allowed = [], cfg_admin = None\<rparr>"
  let ?reg = "snd (Register ''p'' (replicate 32 (CHR ''k'')) NewRegistry)"
  have "registryInv ?reg" by (rule Register_inv [OF NewRegistry_inv]) (simp add: keySize_def)
  moreover have "serverStep\<^sup>*\<^sup>* (exServer, [], []) (snd (handleStats exEnvT exRequest exServer), [], [])"
    by (rule r_into_rtranclp) (rule ss_stats [OF prod.collapse [symmetric]])
  ultimately show ?thesis
    using server_wellformed [of ?reg "\<lambda>x. x" ?cfg "Some emptyDb"] unfolding exServer_def by blast
qed



subsection \<open>What an admitted peer can touch\<close>

lemma published_frame:
  assumes "brokerInv b" "published e b b'"
  shows "\<not> registered b (e_channel e) r \<Longrightarrow> heap b' r = heap b r"
    "ch \<noteq> e_channel e \<Longrightarrow> registered b' ch r = registered b ch r"
    "heap b r = Some s \<Longrightarrow> \<exists>s'. heap b' r = Some s' \<and> sub_out s' \<in> {sub_out s, sub_out s @ [e]}"
proof -
  obtain order where o: "visitOrder order e b" and b: "b' = snd (Publish order e b)"
    using assms(2) by (auto simp: published_def)
  note P = Publish_spec [OF assms(1) o]
  show "\<not> registered b (e_channel e) r \<Longrightarrow> heap b' r = heap b r" by (simp add: b P(4))
  show "ch \<noteq> e_channel e \<Longrightarrow> registered b' ch r = registered b ch r" by (simp add: b registered_def P(3))
  show "heap b r = Some s \<Longrightarrow> \<exists>s'. heap b' r = Some s' \<and> sub_out s' \<in> {sub_out s, sub_out s @ [e]}"
    by (simp add: b P(4) enqueue_def)
qed

text \<open>
  C18. A peer is confined to the channel it was admitted to: whatever frame it sends, no
  subscription of another channel gains, loses or is dropped, a subscriber of its own gets
  at most one envelope, which names that channel, and the keys and connection slots stay
  as they were.
\<close>
theorem peer_confined:
  assumes "envOk E" "brokerInv (s_broker sv)" "readerStep E w f sv = (out, sv')"
  shows "s_reg sv' = s_reg sv \<and> s_conns sv' = s_conns sv \<and>
    (\<forall>r. \<not> registered (s_broker sv) (w_channel w) r \<longrightarrow> heap (s_broker sv') r = heap (s_broker sv) r) \<and>
    (\<forall>ch r. ch \<noteq> w_channel w \<longrightarrow> registered (s_broker sv') ch r = registered (s_broker sv) ch r) \<and>
    (\<forall>r s. heap (s_broker sv) r = Some s \<longrightarrow> (\<exists>s'. heap (s_broker sv') r = Some s' \<and>
       (sub_out s' = sub_out s \<or> (\<exists>e. e_channel e = w_channel w \<and> sub_out s' = sub_out s @ [e]))))"
  using assms(1,3)
proof (cases rule: reader_cases)
  case 1
  then show ?thesis by (simp add: inert_def)
next
  case (2 e)
  then have p: "published e (s_broker sv) (s_broker sv')" by (simp add: viaBroker_def)
  show ?thesis
    using 2 published_frame [OF assms(2) p] by (simp add: viaBroker_def) (metis insert_iff singletonD)
qed

theorem peer_confined_witness:
  "s_reg (snd (readerStep exEnvT \<lparr>w_channel = ''p'', w_retained = False, w_sub = 0, w_ip = ''i''\<rparr>
     (True, ''x'') exServer)) = s_reg exServer"
proof -
  have "brokerInv (s_broker exServer)" by (simp add: exServer_def NewWithConfig_def newBroker_inv)
  moreover have "envOk exEnvT" by (simp add: envOk_def exEnvT_def)
  ultimately show ?thesis using peer_confined [OF _ _ prod.collapse [symmetric]] by blast
qed

end
