(* ===== verification/Transport_Faults.thy ===== *)
theory Transport_Faults
  imports Transport_Sessions Store_Messages
begin

text \<open>
  The server when something fails: a Redis that cannot be reached, arithmetic at the edge of
  64 bits, and orders of events the handlers do not expect.
\<close>

subsection \<open>An unreachable store\<close>

definition link_down :: "'r redis \<Rightarrow> bool" where
  "link_down R \<longleftrightarrow> (\<forall>s. \<exists>n s'. r_net R s = (Failed n, s'))"

lemma run_down: "link_down R \<Longrightarrow> \<exists>s'. run R (Request sc k) s = run R (k linkErr) s'"
  unfolding link_down_def by (fastforce simp: request_def dest: spec [of _ s])

lemma callStore_down:
  assumes "link_down (v_redis E)" "s_store sv \<noteq> None"
  shows "\<exists>s'. callStore E (Request sc k) sv = callStore E (k linkErr) (sv\<lparr>s_store := Some s'\<rparr>)"
proof -
  obtain s where s: "s_store sv = Some s" using assms(2) by blast
  obtain s' where "run (v_redis E) (Request sc k) s = run (v_redis E) (k linkErr) s'"
    using run_down [OF assms(1)] by blast
  then have "callStore E (Request sc k) sv = callStore E (k linkErr) (sv\<lparr>s_store := Some s'\<rparr>)"
    by (simp add: callStore_def s split: prod.splits)
  then show ?thesis by blast
qed

lemma callStore_Return: "s_store sv \<noteq> None \<Longrightarrow> callStore E (Return v) sv = (Some v, sv)"
  by (auto simp: callStore_def)

text \<open>A method whose first request fails answers with what it makes of the error.\<close>

lemma callStore_first:
  assumes "link_down (v_redis E)" "s_store sv \<noteq> None" "k linkErr = Return v"
  shows "fst (callStore E (Request sc k) sv) = Some v"
proof -
  obtain s' where "callStore E (Request sc k) sv = callStore E (k linkErr) (sv\<lparr>s_store := Some s'\<rparr>)"
    using callStore_down [OF assms(1,2)] by blast
  then show ?thesis by (simp add: assms(3) callStore_Return)
qed

lemma down_methods:
  assumes "link_down (v_redis E)" "s_store sv \<noteq> None"
  shows "fst (callStore E (CreateAccount now i h) sv) = Some (Inl (RedisErr linkErr))"
    "fst (callStore E (AccountKeyHash i) sv) = Some (Inl (RedisErr linkErr))"
    "fst (callStore E (CreateChannel now c cp) sv) = Some (Inl (RedisErr linkErr))"
    "fst (callStore E (CreateChannelWithTicket t i ka ow) sv) \<in> {Some (Inl (RedisErr linkErr)), Some (Inl ErrBadTicket)}"
    "fst (callStore E (SetChannelLimits i a b m) sv) = Some (Inl ErrNotFound)"
    "fst (callStore E (IssueGrant raw g ex) sv) \<in> {Some (Inl (RedisErr linkErr)), Some (Inl NoEntropy)}"
    "fst (callStore E ListChannels sv) = Some (Inl (RedisErr linkErr))"
    "fst (callStore E (Stats n) sv) = Some (Inl (RedisErr linkErr))"
    "fst (callStore E (GetChannel i) sv) = Some (Inl (RedisErr linkErr))"
    "fst (callStore E (CatchUp now i q l) sv) = Some (Inl (RedisErr linkErr))"
  using assms
  by (auto simp: CreateAccount_def AccountKeyHash_def CreateChannel_def CreateChannelWithTicket_def
      SetChannelLimits_def storeHasChannel_def IssueGrant_def ListChannels_def Stats_def GetChannel_def CatchUp_def
      send_def Let_def linkErr_def callStore_Return callStore_first [unfolded linkErr_def] split: option.splits)


lemma callStoreE:
  assumes "fst (callStore E p sv) = v"
  obtains sv' where "callStore E p sv = (v, sv')" "inert sv sv'"
proof -
  have "callStore E p sv = (v, snd (callStore E p sv))" using assms by auto
  with that callStore_inert show thesis by blast
qed

text \<open>Refused, with nothing but the store and the rate limiters touched.\<close>

definition failsClosed :: "response \<times> 'r server \<Rightarrow> 'r server \<Rightarrow> bool" where
  "failsClosed h sv \<longleftrightarrow> p_status (fst h) \<ge> 400 \<and> inert sv (snd h)"

lemma authed_down:
  assumes "link_down (v_redis E)" "s_store sv \<noteq> None"
  shows "\<exists>sv'. authedAccount E r sv = ('''', sv') \<and> inert sv sv'"
proof -
  obtain sv' where "callStore E (AccountKeyHash (q_account r)) sv = (Some (Inl (RedisErr linkErr)), sv')" "inert sv sv'"
    using down_methods(2) [OF assms] by (rule callStoreE)
  then show ?thesis by (auto simp: authedAccount_def Let_def)
qed

lemma account_down:
  assumes "link_down (v_redis E)" "s_store sv \<noteq> None"
  shows "failsClosed (handleCreateAccount E r sv) sv"
proof -
  obtain ok sv1 where a: "allowCreate E (''acct:'' @ clientIP r) sv = (ok, sv1)"
    by (cases "allowCreate E (''acct:'' @ clientIP r) sv")
  note i1 = allow_inert(1) [OF a]
  have s1: "s_store sv1 \<noteq> None" using i1 assms(2) by (simp add: inert_def)
  have "\<exists>sv2. callStore E (CreateAccount (v_unix E) i h) sv1 = (Some (Inl (RedisErr linkErr)), sv2) \<and> inert sv1 sv2" for i h
    using down_methods(1) [OF assms(1) s1] by (rule callStoreE) blast
  note c = this
  have "failsClosed (case callStore E (CreateAccount (v_unix E) i h) sv1 of
      (Some (Inr _), sv) \<Rightarrow> (okJson [(''account'', OStr i), (''api_key'', OStr key)], sv)
    | (_, sv) \<Rightarrow> (httpError ''internal error'' 500, sv)) sv" for i h key
  proof -
    obtain sv2 where "callStore E (CreateAccount (v_unix E) i h) sv1 = (Some (Inl (RedisErr linkErr)), sv2)" "inert sv1 sv2"
      using c by blast
    then show ?thesis using inert_trans [OF i1] by (simp add: failsClosed_def)
  qed
  moreover have "failsClosed (httpError m n, svx) sv" if "400 \<le> n" "svx \<in> {sv, sv1}" for m n svx
    using i1 that by (auto simp: failsClosed_def)
  ultimately show ?thesis using assms(2)
    unfolding handleCreateAccount_def a by (auto split: option.split bool.split)
qed

lemma ticket_down:
  assumes "link_down (v_redis E)" "s_store sv \<noteq> None"
  shows "failsClosed (createWithTicket E r req key sv) sv"
proof -
  obtain sv1 where a: "authedAccount E r sv = ('''', sv1)" "inert sv sv1" using authed_down [OF assms] by blast
  have s1: "s_store sv1 \<noteq> None" using a(2) assms(2) by (simp add: inert_def)
  obtain e sv2 where "callStore E (CreateChannelWithTicket (r_ticket req) (r_channel req) (r_authKey req) '''') sv1 =
      (Some (Inl e), sv2)" "e \<in> {RedisErr linkErr, ErrBadTicket}" "inert sv1 sv2"
    using down_methods(4) [OF assms(1) s1, of "r_ticket req" "r_channel req" "r_authKey req" "''''"] callStore_inert
    by (metis (no_types, lifting) insert_iff prod.collapse singletonD)
  then show ?thesis using a assms(2) inert_trans
    by (auto simp: createWithTicket_def Let_def failsClosed_def)
qed

lemma create_down:
  assumes "link_down (v_redis E)" "s_store sv \<noteq> None"
  shows "failsClosed (createRetained E r req key sv) sv" "failsClosed (createEphemeral E req key sv) sv"
proof -
  obtain sv1 where a: "authedAccount E r sv = ('''', sv1)" "inert sv sv1" using authed_down [OF assms] by blast
  have s1: "s_store sv1 \<noteq> None" using a(2) assms(2) by (simp add: inert_def)
  have c: "\<exists>sv2. callStore E (CreateChannel (v_unix E) ch cp) svx = (Some (Inl (RedisErr linkErr)), sv2) \<and> inert svx sv2"
    if "s_store svx \<noteq> None" for svx ch cp
    using down_methods(3) [OF assms(1) that] by (rule callStoreE) blast
  define ch where "ch = \<lparr>ch_id = r_channel req, ch_owner = '''', ch_kauth = r_authKey req, ch_retained = True,
      ch_ttl = toSeconds (v_fl E) (retentionTTL (s_lim sv1) True (r_ttlSec req)),
      ch_maxBytes = BytesPerChannel (s_lim sv1), ch_maxMsgs = RetainedMsgsPerChan (s_lim sv1)\<rparr>"
  obtain sv2 where "callStore E (CreateChannel (v_unix E) ch anonCap) sv1 = (Some (Inl (RedisErr linkErr)), sv2)" "inert sv1 sv2"
    using c [OF s1] by blast
  then show "failsClosed (createRetained E r req key sv) sv" using a assms(2) inert_trans
    by (auto simp: createRetained_def Let_def failsClosed_def simp flip: ch_def)
  define ce where "ce = \<lparr>ch_id = r_channel req, ch_owner = '''', ch_kauth = r_authKey req, ch_retained = False,
      ch_ttl = 0, ch_maxBytes = 0, ch_maxMsgs = 0\<rparr>"
  obtain sv3 where "callStore E (CreateChannel (v_unix E) ce anonCap) sv = (Some (Inl (RedisErr linkErr)), sv3)" "inert sv sv3"
    using c [OF assms(2)] by blast
  then show "failsClosed (createEphemeral E req key sv) sv"
    by (auto simp: createEphemeral_def Let_def failsClosed_def simp flip: ce_def)
qed

lemma channel_down:
  assumes "link_down (v_redis E)" "s_store sv \<noteq> None"
  shows "failsClosed (handleCreateChannel E r sv) sv"
proof -
  obtain ok sv1 where a: "allowCreate E (''chan:'' @ clientIP r) sv = (ok, sv1)"
    by (cases "allowCreate E (''chan:'' @ clientIP r) sv")
  note i1 = allow_inert(1) [OF a]
  have s1: "s_store sv1 \<noteq> None" using i1 assms(2) by (simp add: inert_def)
  have lift: "failsClosed h sv" if "failsClosed h sv1" for h
    using that i1 inert_trans by (auto simp: failsClosed_def)
  have "failsClosed (httpError m n, sv1) sv" if "400 \<le> n" for m n
    using i1 that by (simp add: failsClosed_def)
  moreover have "failsClosed (httpError ''method not allowed'' 405, sv) sv" by (simp add: failsClosed_def)
  ultimately show ?thesis
    using lift [OF ticket_down [OF assms(1) s1]] lift [OF create_down(1) [OF assms(1) s1]]
      lift [OF create_down(2) [OF assms(1) s1]]
    unfolding handleCreateChannel_def a by (auto simp: Let_def split: bool.split option.split sum.split)
qed

lemma admin_down:
  assumes "link_down (v_redis E)" "s_store sv \<noteq> None"
  shows "failsClosed (handleAdminLimit E r sv) sv" "failsClosed (handleAdminGrant E r sv) sv"
    "failsClosed (handleAdminChannels E r sv) sv" "failsClosed (handleStats E r sv) sv"
proof -
  have l: "\<exists>sv'. callStore E (SetChannelLimits i a b m) sv = (Some (Inl ErrNotFound), sv') \<and> inert sv sv'" for i a b m
    using down_methods(5) [OF assms] by (rule callStoreE) blast
  have g: "\<exists>e sv'. callStore E (IssueGrant raw g ex) sv = (Some (Inl e), sv') \<and> inert sv sv'" for raw g ex
    using down_methods(6) [OF assms, of raw g ex] callStore_inert
    by (metis (no_types, lifting) insert_iff prod.collapse singletonD)
  have c: "\<exists>sv'. callStore E ListChannels sv = (Some (Inl (RedisErr linkErr)), sv') \<and> inert sv sv'"
    using down_methods(7) [OF assms] by (rule callStoreE) blast
  have s: "\<exists>sv'. callStore E (Stats (v_fuel E)) sv = (Some (Inl (RedisErr linkErr)), sv') \<and> inert sv sv'"
    using down_methods(8) [OF assms] by (rule callStoreE) blast
  show "failsClosed (handleAdminLimit E r sv) sv"
  proof (cases "decodeLimit (v_json E) (q_body r)")
    case (Some req)
    obtain sv' where "callStore E (SetChannelLimits (l_channel req) (l_ttlSec req) (l_maxBytes req) (l_maxMsgs req)) sv =
        (Some (Inl ErrNotFound), sv')" "inert sv sv'" using l by blast
    then show ?thesis using Some by (simp add: handleAdminLimit_def failsClosed_def)
  qed (simp add: handleAdminLimit_def failsClosed_def)
  show "failsClosed (handleAdminGrant E r sv) sv"
  proof (cases "requireAdmin r sv")
    case (Some x)
    then show ?thesis by (auto simp: handleAdminGrant_def failsClosed_def requireAdmin_def split: if_splits)
  next
    case None
    show ?thesis
    proof (cases "decodeGrant (v_json E) (q_body r)")
      case (Some req)
      obtain e sv' where "callStore E (IssueGrant (v_rand1 E) \<lparr>g_match = gr_match req, g_retained = True,
          g_ttl = gr_ttlSec req, g_maxBytes = gr_maxBytes req, g_maxMsgs = gr_maxMsgs req\<rparr>
          (if gr_expirySec req \<le> 0 then 3600 else gr_expirySec req)) sv = (Some (Inl e), sv')" "inert sv sv'"
        using g by blast
      then show ?thesis using None Some by (simp add: handleAdminGrant_def failsClosed_def Let_def)
    qed (use None in \<open>simp add: handleAdminGrant_def failsClosed_def\<close>)
  qed
  show "failsClosed (handleAdminChannels E r sv) sv"
    using c by (auto simp: handleAdminChannels_def failsClosed_def requireAdmin_def split: option.splits if_splits)
  show "failsClosed (handleStats E r sv) sv"
    using s by (auto simp: handleStats_def failsClosed_def)
qed

text \<open>
  C34. When Redis cannot be reached, every request that creates an account or a channel, or
  administers the instance, is refused with an error status, and no key is registered and
  no subscriber or connection disturbed.
\<close>
theorem store_down_fails_closed:
  assumes "link_down (v_redis E)" "s_store sv \<noteq> None"
    and "h \<in> {handleCreateAccount E r sv, handleCreateChannel E r sv, handleAdminLimit E r sv,
      handleAdminGrant E r sv, handleAdminChannels E r sv, handleStats E r sv}"
  shows "400 \<le> p_status (fst h) \<and> s_reg (snd h) = s_reg sv \<and> s_broker (snd h) = s_broker sv \<and>
    s_conns (snd h) = s_conns sv"
  using assms(3) account_down [OF assms(1,2)] channel_down [OF assms(1,2)] admin_down [OF assms(1,2)]
  by (auto simp: failsClosed_def inert_def)

definition deadEnv :: "db env" where
  "deadEnv = exEnvT\<lparr>v_redis := exRedis\<lparr>r_net := (\<lambda>d. (Failed 0, d))\<rparr>\<rparr>"

lemma deadEnv_down: "link_down (v_redis deadEnv)"
  by (simp add: deadEnv_def link_down_def)

theorem store_down_fails_closed_witness:
  "400 \<le> p_status (fst (handleStats deadEnv exRequest exServer))"
proof -
  have "s_store exServer \<noteq> None" by (simp add: exServer_def NewWithConfig_def)
  from store_down_fails_closed [OF deadEnv_down this] show ?thesis by blast
qed


text \<open>
  A session that starts while Redis cannot be reached is told it is connected, replays
  nothing, and never retains anything for as long as it lives, however healthy Redis is by
  then: no frame its peer sends reaches the store.
\<close>
theorem lookup_failure_disables_retention:
  assumes "link_down (v_redis E)" "s_store sv \<noteq> None"
    and "startPump E ip hs wok sv = ((w, sent, live), sv1)"
  shows "live \<and> sent = [] \<and> s_store (snd (readerStep E' w f sv2)) = s_store sv2"
proof -
  obtain sva where "callStore E (GetChannel (hs_channel hs)) sv = (Some (Inl (RedisErr linkErr)), sva)"
    using down_methods(9) [OF assms(1,2)] by (rule callStoreE)
  then have r: "retained E (hs_channel hs) sv = (False, sva)" by (simp add: retained_def)
  have w: "live \<and> sent = [] \<and> \<not> w_retained w"
    using assms(3) by (auto simp: startPump_def r Let_def split: prod.splits)
  obtain ok svb where a: "allowPublish E' (w_channel w) sv2 = (ok, svb)" by (cases "allowPublish E' (w_channel w) sv2")
  have "s_store svb = s_store sv2" using a by (auto simp: allowPublish_def split: prod.splits)
  moreover have "s_store (snd (publishEnv E' e svb)) = s_store svb" for e
    by (simp add: publishEnv_def split: prod.splits)
  ultimately show ?thesis
    using w by (cases f) (auto simp: readerStep_def a split: sum.splits bool.splits)
qed

theorem lookup_failure_disables_retention_witness:
  "\<exists>w sv1. startPump deadEnv ''i'' \<lparr>hs_channel = ''p'', hs_afterSeq = 0\<rparr> 5 exServer = ((w, [], True), sv1)"
proof -
  obtain w sent live sv1 where p:
    "startPump deadEnv ''i'' \<lparr>hs_channel = ''p'', hs_afterSeq = 0\<rparr> 5 exServer = ((w, sent, live), sv1)"
    by (metis prod.collapse)
  have "s_store exServer \<noteq> None" by (simp add: exServer_def NewWithConfig_def)
  from lookup_failure_disables_retention [OF deadEnv_down this p] p show ?thesis by auto
qed

subsection \<open>Retention lifetimes\<close>

text \<open>
  A requested lifetime that fits 64 bits of nanoseconds is granted up to the server's
  maximum, and the lifetime of a retained channel is never negative nor above it.
\<close>
theorem ttl_capped:
  assumes "0 \<le> RetentionTTL L" "0 \<le> RetentionTTLMax L" "ttlSec \<le> 9223372036"
  shows "0 \<le> retentionTTL L anon ttlSec \<and> retentionTTL L anon ttlSec \<le> RetentionTTLMax L \<and>
    (0 < ttlSec \<longrightarrow> retentionTTL L anon ttlSec = min (ttlSec * second) (RetentionTTLMax L))"
proof -
  have "0 < ttlSec \<Longrightarrow> wrap64 (ttlSec * second) = ttlSec * second"
    using assms(3) by (intro wrap64_id) (auto simp: int64_def second_def)
  then show ?thesis using assms by (auto simp: retentionTTL_def Let_def min_def second_def)
qed

theorem ttl_capped_witness:
  "retentionTTL DefaultLimits True 9223372036 = 604800000000000"
  using ttl_capped [of DefaultLimits 9223372036 True] by (simp add: DefaultLimits_def second_def)

text \<open>
  One second more and the product overflows: a request for 9223372037 seconds, with the
  default limits, stores a negative lifetime, and no message of that channel ever expires,
  past the maximum the server enforces on everyone else.
\<close>
theorem ttl_overflow_never_expires:
  assumes "float_ok u eta fl"
    and "ch_ttl c = toSeconds fl (retentionTTL DefaultLimits anon 9223372037)"
  shows "ch_ttl c < 0 \<and> \<not> expired now (newEntry (appendArgs c blob cap t) n)"
proof -
  have d: "retentionTTL DefaultLimits anon 9223372037 = -9223372036709551616"
    by (simp add: retentionTTL_def DefaultLimits_def second_def wrap64_def Let_def)
  have fl: "x \<le> y \<Longrightarrow> fl x \<le> fl y" "\<bar>m\<bar> \<le> 2 ^ 53 \<Longrightarrow> fl (of_int m) = of_int m" for x y m
    using assms(1) unfolding float_ok_def by blast+
  have i: "fl (-9223372036) = -9223372036" "fl (-709551616) = -709551616" "fl 0 = 0"
    using fl(2) [of "-9223372036"] fl(2) [of "-709551616"] fl(2) [of 0] by simp_all
  have "fl (-709551616 / 1000000000) \<le> 0" using fl(1) [of "-709551616 / 1000000000" 0] i(3) by simp
  then have "fl (-9223372036 + fl (-709551616 / 1000000000)) \<le> -9223372036"
    using fl(1) [of "-9223372036 + fl (-709551616 / 1000000000)" "-9223372036"] i(1) by simp
  then have "seconds fl (-9223372036709551616) \<le> -9223372036"
    by (simp add: seconds_def i)
  then have "ch_ttl c < 0" by (simp add: assms(2) d toSeconds_def Let_def) linarith?
  then show ?thesis by (simp add: newEntry_def appendArgs_def expired_def)
qed

theorem ttl_overflow_never_expires_witness:
  "\<not> expired 99999999999999 (newEntry (appendArgs (exChannel\<lparr>ch_ttl :=
     toSeconds (\<lambda>x. x) (retentionTTL DefaultLimits True 9223372037)\<rparr>) ''x'' 0 5) 1)"
  using ttl_overflow_never_expires [OF float_ok_exact, where
    c = "exChannel\<lparr>ch_ttl := toSeconds (\<lambda>x. x) (retentionTTL DefaultLimits True 9223372037)\<rparr>"] by simp

end
