(* ===== verification/Transport_Races.thy ===== *)
theory Transport_Races
  imports Transport_Faults Store_Channels
begin

text \<open>
  Orders of events between clients: what catch-up and live delivery together guarantee a
  subscriber while messages are being published, on the WebSocket and on the open path, and
  names that change hands between the open and the private path.
\<close>

subsection \<open>Joining while a message is published\<close>

text \<open>
  A subscriber joins a retained channel in two atomic steps, subscription and catch-up; a
  publisher stores and fans out its message in two. \<open>joinStep\<close> performs one of the four; its
  state holds the server, the subscription and what catch-up returned.
\<close>

datatype act = ASubscribe | ACatchUp | AAppend | APublish

definition joinStep :: "'r env \<Rightarrow> int \<Rightarrow> envelope \<Rightarrow> bytes \<Rightarrow> act \<Rightarrow>
    'r server \<times> nat \<times> storedMessage list \<Rightarrow> 'r server \<times> nat \<times> storedMessage list" where
  "joinStep E after e raw a st = (case st of (sv, sub, got) \<Rightarrow>
     (case a of
        ASubscribe \<Rightarrow> (case subscribe (e_channel e) sv of (r, sv) \<Rightarrow> (sv, r, got))
      | ACatchUp \<Rightarrow> (case catchUpFrom E (e_channel e) after sv of (ms, sv) \<Rightarrow> (sv, sub, ms))
      | AAppend \<Rightarrow> (snd (callStore E (Append (v_fuel E) (v_unix E) (e_channel e) raw
            (BytesPerAccount (s_lim sv))) sv), sub, got)
      | APublish \<Rightarrow> (snd (publishEnv E e sv), sub, got)))"

definition joinRun :: "'r env \<Rightarrow> int \<Rightarrow> envelope \<Rightarrow> bytes \<Rightarrow> act list \<Rightarrow> 'r server \<Rightarrow>
    'r server \<times> nat \<times> storedMessage list" where
  "joinRun E after e raw as sv = fold (joinStep E after e raw) as (sv, 0, [])"

text \<open>A retained channel with room for the message: it is within the quota and the caps, fresh
  for the reader, and the log is short enough for one catch-up.\<close>

definition joinable :: "'r env \<Rightarrow> int \<Rightarrow> envelope \<Rightarrow> bytes \<Rightarrow> channel \<Rightarrow> entry list \<Rightarrow> int \<Rightarrow> 'r server \<Rightarrow> bool" where
  "joinable E after e raw c L n sv \<longleftrightarrow>
     redis_ok (v_redis E) \<and> link_up (v_redis E) \<and> envOk E \<and> brokerInv (s_broker sv) \<and>
     (\<exists>s. s_store sv = Some s \<and> configIs (r_db (v_redis E) s) c \<and> logIs (r_db (v_redis E) s) (e_channel e) L n) \<and>
     ch_id c = e_channel e \<and> ch_retained c \<and> ch_owner c = '''' \<and>
     roomy (appendArgs c raw (BytesPerAccount (s_lim sv)) (v_unix E)) L n 0 \<and> Suc (length L) < v_fuel E \<and>
     fits (ch_maxMsgs c) (ch_maxBytes c) [newEntry (appendArgs c raw (BytesPerAccount (s_lim sv)) (v_unix E)) n] \<and>
     0 \<le> after \<and> after < n \<and> length L < 1000"


subsubsection \<open>The broker's side\<close>

text \<open>How far the subscriber is: \<open>0\<close> not subscribed, \<open>1\<close> subscribed with nothing queued, \<open>2\<close>
  the message is queued.\<close>

definition phase :: "nat \<Rightarrow> envelope \<Rightarrow> 'r server \<times> nat \<times> storedMessage list \<Rightarrow> bool" where
  "phase k e st = (case st of (sv, sub, got) \<Rightarrow> brokerInv (s_broker sv) \<and>
     (k = 1 \<longrightarrow> registered (s_broker sv) (e_channel e) sub \<and> queueOf (s_broker sv) sub = []) \<and>
     (k = 2 \<longrightarrow> queueOf (s_broker sv) sub = [e]))"

lemma phase_inert: "phase k e (sv, sub, got) \<Longrightarrow> inert sv sv' \<Longrightarrow> phase k e (sv', sub, got')"
  by (simp add: phase_def inert_def)

lemma append_phase: "phase k e st \<Longrightarrow> phase k e (joinStep E after e raw AAppend st)"
  by (cases st) (auto simp: joinStep_def intro: phase_inert callStore_inert prod.collapse [symmetric])

lemma catch_phase: "phase k e st \<Longrightarrow> phase k e (joinStep E after e raw ACatchUp st)"
  by (cases st) (auto simp: joinStep_def split: prod.splits intro: phase_inert catchUp_inert)

lemma subscribed_registered:
  assumes "brokerInv b" "Subscribe ch b = (r, b')"
  shows "registered b' ch r" "queueOf b' r = []"
proof -
  have "map_of (entriesOf b' ch) (nextID b + 1) = Some r"
    by (simp add: Subscribe_spec(4) [OF assms(2)] update_conv')
  then have "(nextID b + 1, r) \<in> set (entriesOf b' ch)" by (rule map_of_SomeD)
  then show "registered b' ch r" by (force simp: registered_def)
  show "queueOf b' r = []" by (simp add: queueOf_def Subscribe_spec(5) [OF assms(2)])
qed

lemma subscribe_phase: "phase 0 e st \<Longrightarrow> phase 1 e (joinStep E after e raw ASubscribe st)"
proof -
  assume p: "phase 0 e st"
  obtain sv sub got where st: "st = (sv, sub, got)" by (cases st)
  obtain r b where s: "Subscribe (e_channel e) (s_broker sv) = (r, b)" by (cases "Subscribe (e_channel e) (s_broker sv)")
  show ?thesis using p subscribed_registered [OF _ s] Subscribe_facts(1) [OF _ s]
    by (simp add: st phase_def joinStep_def subscribe_def s)
qed

lemma publish_phase:
  assumes "envOk E" shows "phase 1 e st \<Longrightarrow> phase 2 e (joinStep E after e raw APublish st)"
    and "phase 0 e st \<Longrightarrow> phase 0 e (joinStep E after e raw APublish st)"
proof -
  obtain sv sub got where st: "st = (sv, sub, got)" by (cases st)
  let ?o = "v_order E (List.map snd (entriesOf (s_broker sv) (e_channel e)))"
  note o = envOk_visit [OF assms, of "s_broker sv" e]
  have b: "s_broker (snd (publishEnv E e sv)) = snd (Publish ?o e (s_broker sv))"
    by (simp add: publishEnv_def split: prod.splits)
  show "phase 0 e st \<Longrightarrow> phase 0 e (joinStep E after e raw APublish st)"
    using Publish_spec(1) [OF _ o] by (simp add: st phase_def joinStep_def b)
  assume p: "phase 1 e st"
  then have inv: "brokerInv (s_broker sv)" and r: "registered (s_broker sv) (e_channel e) sub"
    and q: "queueOf (s_broker sv) sub = []" by (simp_all add: st phase_def)
  have "\<not> full (heap (s_broker sv)) sub"
    using q by (auto simp: full_def queueOf_def subscriberQueueDepth_def split: option.splits)
  then have "registered (snd (Publish ?o e (s_broker sv))) (e_channel e) sub"
    using registered_Publish [OF inv o] r by blast
  from queueOf_Publish [OF inv o this] show "phase 2 e (joinStep E after e raw APublish st)"
    using q Publish_spec(1) [OF inv o] by (simp add: st phase_def joinStep_def b)
qed

subsubsection \<open>The store's side\<close>

definition logged :: "'r env \<Rightarrow> channel \<Rightarrow> entry list \<Rightarrow> int \<Rightarrow> 'r server \<Rightarrow> bool" where
  "logged E c L n sv \<longleftrightarrow> (\<exists>s. s_store sv = Some s \<and> configIs (r_db (v_redis E) s) c \<and>
     logIs (r_db (v_redis E) s) (ch_id c) L n)"

lemma evict_keeps_last:
  assumes "fits mm mb [e]" shows "e \<in> set (evict mm mb (L @ [e]))" "length (evict mm mb (L @ [e])) \<le> Suc (length L)"
  using assms by (induction L) auto

lemma logged_catchUp:
  assumes R: "redis_ok (v_redis E)" "link_up (v_redis E)" and l: "logged E c L n sv" and q: "0 \<le> q" "q < n"
  obtains sv' where "catchUpFrom E (ch_id c) q sv = (List.map msgOf (filter (\<lambda>e. \<not> expired (v_unix E) e)
      (take 1000 (filter (\<lambda>e. q < int (l_seq e)) L))), sv')" "logged E c L n sv'" "inert sv sv'"
proof -
  obtain s where s: "s_store sv = Some s" "configIs (r_db (v_redis E) s) c" "logIs (r_db (v_redis E) s) (ch_id c) L n"
    using l by (auto simp: logged_def)
  have "q < 2 ^ 63" using q s(3) by (auto simp: logIs_def exact_def)
  note c = run_cleanE [OF R clean_CatchUp [OF s(3) q(1) this, of "v_unix E" maxCatchUp]]
  obtain v s' where r: "run (v_redis E) (CatchUp (v_unix E) (ch_id c) q maxCatchUp) s = (v, s')"
    by (cases "run (v_redis E) (CatchUp (v_unix E) (ch_id c) q maxCatchUp) s")
  have "catchUpFrom E (ch_id c) q sv = (List.map msgOf (filter (\<lambda>e. \<not> expired (v_unix E) e)
      (take 1000 (filter (\<lambda>e. q < int (l_seq e)) L))), sv\<lparr>s_store := Some s'\<rparr>)"
    using c by (simp add: catchUpFrom_def callStore_def s r) (simp add: maxCatchUp_def)
  moreover have "logged E c L n (sv\<lparr>s_store := Some s'\<rparr>)" using c s by (simp add: logged_def r)
  moreover have "inert sv (sv\<lparr>s_store := Some s'\<rparr>)" using s by (simp add: inert_def)
  ultimately show thesis by (rule that)
qed

lemma logged_append:
  assumes R: "redis_ok (v_redis E)" "link_up (v_redis E)" and l: "logged E c L n sv"
    and c: "ch_retained c" "ch_owner c = ''''" "Suc (length L) < v_fuel E"
    and a: "a = appendArgs c raw cap (v_unix E)" "roomy a L n 0"
  obtains x sv' where "callStore E (Append (v_fuel E) (v_unix E) (ch_id c) raw cap) sv = (x, sv')"
    "logged E c (evict (ch_maxMsgs c) (ch_maxBytes c) (L @ [newEntry a n])) (n + 1) sv'" "inert sv sv'"
proof -
  obtain s where s: "s_store sv = Some s" "configIs (r_db (v_redis E) s) c" "logIs (r_db (v_redis E) s) (ch_id c) L n"
    using l by (auto simp: logged_def)
  have nq: "\<not> overQuota a 0" using c(2) by (simp add: a(1) overQuota_def appendArgs_def)
  obtain d' where d: "clean (Append (v_fuel E) (v_unix E) (ch_id c) raw cap) (r_db (v_redis E) s) = {(Inr n, d')}"
    "logIs d' (ch_id c) (evict (ch_maxMsgs c) (ch_maxBytes c) (L @ [newEntry a n])) (n + 1)"
    "sameBut (logKeys (ch_id c) (ch_owner c)) (r_db (v_redis E) s) d'"
    using clean_Append [OF s(2) c(1) s(3) _ a(2) [unfolded a(1)] c(3)] nq c(2) by (auto simp: a(1))
  obtain v s' where r: "run (v_redis E) (Append (v_fuel E) (v_unix E) (ch_id c) raw cap) s = (v, s')"
    by (cases "run (v_redis E) (Append (v_fuel E) (v_unix E) (ch_id c) raw cap) s")
  have db: "r_db (v_redis E) s' = d'" using run_cleanE [OF R d(1)] r by simp
  have "configIs d' c" using s(2) d(3) by (auto simp: configIs_def sameBut_def logKeys_def)
  then have "logged E c (evict (ch_maxMsgs c) (ch_maxBytes c) (L @ [newEntry a n])) (n + 1) (sv\<lparr>s_store := Some s'\<rparr>)"
    using d(2) by (simp add: logged_def db)
  moreover have "callStore E (Append (v_fuel E) (v_unix E) (ch_id c) raw cap) sv = (Some v, sv\<lparr>s_store := Some s'\<rparr>)"
    by (simp add: callStore_def s r)
  moreover have "inert sv (sv\<lparr>s_store := Some s'\<rparr>)" using s by (simp add: inert_def)
  ultimately show thesis using that by blast
qed

subsubsection \<open>Both together\<close>

lemma joinRun_simps:
  "joinRun E after e raw as sv = fold (joinStep E after e raw) as (sv, 0, [])"
  by (simp add: joinRun_def)

lemma phase_start: "brokerInv (s_broker sv) \<Longrightarrow> phase 0 e (sv, sub, got)"
  by (simp add: phase_def)

lemma joins_before_publish:
  assumes "envOk E" "brokerInv (s_broker sv)"
    and "as \<in> {[ASubscribe, ACatchUp, AAppend, APublish], [ASubscribe, AAppend, ACatchUp, APublish],
      [ASubscribe, AAppend, APublish, ACatchUp], [AAppend, ASubscribe, ACatchUp, APublish],
      [AAppend, ASubscribe, APublish, ACatchUp]}"
  shows "phase 2 e (joinRun E after e raw as sv)"
  using assms(3)
  by (auto simp: joinRun_def intro!: append_phase catch_phase publish_phase(1) [OF assms(1)] subscribe_phase
      phase_start assms(2))

lemma step_subscribe: "\<exists>r sv'. joinStep E after e raw ASubscribe (sv, sub, got) = (sv', r, got) \<and>
    s_store sv' = s_store sv \<and> s_lim sv' = s_lim sv"
  by (auto simp: joinStep_def subscribe_def split: prod.splits)

lemma step_publish: "\<exists>sv'. joinStep E after e raw APublish (sv, sub, got) = (sv', sub, got) \<and>
    s_store sv' = s_store sv \<and> s_lim sv' = s_lim sv"
  by (auto simp: joinStep_def publishEnv_def split: prod.splits)

lemma logged_same: "s_store sv' = s_store sv \<Longrightarrow> logged E c L n sv' = logged E c L n sv"
  by (simp add: logged_def)



definition exJoin :: "db server" where
  "exJoin = exServer\<lparr>s_store := Some exDb\<rparr>"

lemma exJoin_ok: "joinable exEnvT 0 (exEnv ''c'' ''1'') ''xy'' exChannel [exEntry] 2 exJoin"
proof -
  have "roomy (appendArgs exChannel ''xy'' (BytesPerAccount (s_lim exJoin)) (v_unix exEnvT)) [exEntry] 2 0"
    by (simp add: roomy_def appendArgs_def exChannel_def exEntry_def exact_def exEnvT_def)
  moreover have "envOk exEnvT" "brokerInv (s_broker exJoin)"
    by (simp_all add: envOk_def exEnvT_def exJoin_def exServer_def NewWithConfig_def newBroker_inv)
  moreover have "fits (ch_maxMsgs exChannel) (ch_maxBytes exChannel)
      [newEntry (appendArgs exChannel ''xy'' (BytesPerAccount (s_lim exJoin)) (v_unix exEnvT)) 2]"
    by (simp add: fits_def overCap_def exChannel_def)
  ultimately show ?thesis
    using exRedis_ok exDb_config exDb_log
    by (simp add: joinable_def exJoin_def exEnvT_def exRedis_def) (simp add: exChannel_def)
qed




subsection \<open>Names that change hands\<close>

text \<open>A frame the reader accepts is first retained, in a session that retains, and then
  fanned out.\<close>

definition retainFrame :: "'r env \<Rightarrow> wsSession \<Rightarrow> bytes \<Rightarrow> 'r server \<Rightarrow> 'r server" where
  "retainFrame E w data sv = (if w_retained w
     then snd (callStore E (Append (v_fuel E) (v_unix E) (w_channel w) data (BytesPerAccount (s_lim sv))) sv) else sv)"

lemma retainFrame_inert: "inert sv (retainFrame E w data sv)"
  by (simp add: retainFrame_def callStore_inert [OF prod.collapse [symmetric]])

definition accepted :: "'r env \<Rightarrow> wsSession \<Rightarrow> bytes \<Rightarrow> envelope \<Rightarrow> 'r server \<Rightarrow> bool" where
  "accepted E w frame e sv \<longleftrightarrow> Decode (v_json E) frame = Inr e \<and> e_channel e = w_channel w \<and>
     (MaxMessageBytes (s_lim sv) > 0 \<longrightarrow> int (length frame) \<le> MaxMessageBytes (s_lim sv)) \<and> fst (allowPublish E (w_channel w) sv)"

lemma reader_accepts:
  assumes "accepted E w frame e sv"
  shows "snd (readerStep E w (True, frame) sv) =
    snd (publishEnv E e (retainFrame E w frame (snd (allowPublish E (w_channel w) sv))))"
  using assms
  by (cases "allowPublish E (w_channel w) sv")
    (auto simp: accepted_def readerStep_def retainFrame_def split: prod.splits option.splits sum.splits store_error.splits)

lemma accepted_inert: "inert sv (retainFrame E w frame (snd (allowPublish E k sv)))"
  using inert_trans [OF allow_inert(2) [OF prod.collapse [symmetric]] retainFrame_inert] .

lemma accepted_queued:
  assumes "accepted E w frame e sv" "envOk E" "brokerInv (s_broker sv)"
    and "registered (s_broker sv) (e_channel e) sub" "queueOf (s_broker sv) sub = []"
  shows "queueOf (s_broker (snd (readerStep E w (True, frame) sv))) sub = [e]"
proof -
  let ?svb = "retainFrame E w frame (snd (allowPublish E (w_channel w) sv))"
  have "s_broker ?svb = s_broker sv" using accepted_inert [of sv] by (simp add: inert_def)
  then have "phase 1 e (?svb, sub, [])" using assms(3-5) by (simp add: phase_def)
  then have "phase 2 e (joinStep E 0 e [] APublish (?svb, sub, []))" by (rule publish_phase(1) [OF assms(2)])
  then show ?thesis by (simp add: phase_def joinStep_def reader_accepts [OF assms(1)])
qed

text \<open>
  A stream opened on a topic before the topic becomes a private channel stays: it then
  receives what admitted peers publish on the private channel, although the open path now
  refuses the name to everyone else.
\<close>
theorem early_stream_sees_private:
  assumes "brokerInv (s_broker sv)" "envOk E'"
    and "handlePublicSubscribe E r wok sv = (SseLive sub out, sv1)"
    and "topic = trimPrefix (q_path r) ''/subscribe/''"
    and "registerKey topic k sv1 = (Inr x, sv2)"
    and "w_channel w = topic" "Decode (v_json E') frame = Inr e" "e_channel e = topic"
    and "int (length frame) \<le> MaxMessageBytes (s_lim sv2)" "fst (allowPublish E' topic sv2)"
    and "readerStep E' w (True, frame) sv2 = (msgs, sv3)"
  shows "guardPublicTopic topic sv3 = Some (httpError ''not authorized'' 403) \<and>
    queueOf (s_broker sv3) sub = [e]"
proof -
  have v: "Subscribe topic (s_broker sv) = (sub, s_broker sv1)"
    using assms(3) by (rule subscribe_cases) (auto simp: viaBroker_def assms(4))
  note reg = subscribed_registered [OF assms(1) v] and inv = Subscribe_facts(1) [OF assms(1) v]
  have b2: "s_broker sv2 = s_broker sv1" and k: "topic \<noteq> ''''" "HasChannel topic (s_reg sv2)"
    using assms(5) by (auto simp: registerKey_def Register_def HasChannel_def split: if_splits)
  let ?svb = "retainFrame E' w frame (snd (allowPublish E' (w_channel w) sv2))"
  have acc: "accepted E' w frame e sv2" using assms(6-10) by (simp add: accepted_def)
  have s: "s_broker ?svb = s_broker sv1" "s_reg ?svb = s_reg sv2"
    using accepted_inert [of sv2] b2 by (simp_all add: inert_def)
  have 3: "sv3 = snd (readerStep E' w (True, frame) sv2)" using assms(11) by simp
  have "queueOf (s_broker sv3) sub = [e]"
    unfolding 3 using inv reg by (intro accepted_queued [OF acc assms(2)]) (simp_all add: b2 assms(8))
  moreover have "s_reg sv3 = s_reg sv2"
    by (simp add: 3 reader_accepts [OF acc] publishEnv_def s split: prod.splits)
  ultimately show ?thesis using k by (simp add: guardPublicTopic_def)
qed


definition exDocEnv :: "db env" where
  "exDocEnv = exEnvT\<lparr>v_json := (\<lambda>b. Some (JDObject [(''channel'', [], JStr ''t''), (''type'', [], JStr ''request''),
     (''id'', [], JStr ''1''), (''ts'', [], JStr ''t'')]))\<rparr>"

lemma exDoc_decode: "Decode (v_json exDocEnv) frame = Inr (exEnv ''t'' ''1'')"
proof -
  have "fieldOf envFields ''channel'' = Some ''channel''" "fieldOf envFields ''type'' = Some ''type''"
    "fieldOf envFields ''id'' = Some ''id''" "fieldOf envFields ''ts'' = Some ''ts''"
    by code_simp+
  then have "bindEnvelope (JDObject [(''channel'', [], JStr ''t''), (''type'', [], JStr ''request''),
     (''id'', [], JStr ''1''), (''ts'', [], JStr ''t'')]) = Some (exEnv ''t'' ''1'')"
    by (simp add: bindEnvelope_def bindMember_def bindString_def zeroEnvelope_def)
  then show ?thesis by (simp add: Decode_def exDocEnv_def Validate_def Valid_def validTypes_def)
qed

lemma exServer_fields:
  "s_store exServer = Some emptyDb" "s_broker exServer = newBroker" "s_lim exServer = DefaultLimits"
  "s_reg exServer = snd (Register ''p'' (replicate 32 (CHR ''k'')) NewRegistry)"
  "s_pubChan exServer = NewPerMinute (\<lambda>x. x) 60 20"
  by (simp_all add: exServer_def NewWithConfig_def DefaultLimits_def)

lemma exAllow: "s_pubChan sv = NewPerMinute (\<lambda>x. x) 60 20 \<Longrightarrow> fst (allowPublish exDocEnv k sv)"
  by (simp add: allowPublish_def exDocEnv_def exEnvT_def NewPerMinute_def NewRateLimiter_def Allow_def
      freshBucket_def allow_def Let_def timeSub_def seconds_def)

theorem early_stream_sees_private_witness:
  "\<exists>sub out sv1 x sv2 msgs sv3 w.
     handlePublicSubscribe exEnvT (exRequest\<lparr>q_path := ''/subscribe/t''\<rparr>) 0 exServer = (SseLive sub out, sv1) \<and>
     registerKey ''t'' (replicate 32 (CHR ''k'')) sv1 = (Inr x, sv2) \<and>
     readerStep exDocEnv w (True, ''m'') sv2 = (msgs, sv3) \<and>
     queueOf (s_broker sv3) sub = [exEnv ''t'' ''1'']"
proof -
  let ?r = "exRequest\<lparr>q_path := ''/subscribe/t''\<rparr>" and ?w = "\<lparr>w_channel = ''t'', w_retained = False, w_sub = 9, w_ip = []\<rparr>"
  have t: "trimPrefix ''/subscribe/t'' ''/subscribe/'' = ''t''" by (simp add: trimPrefix_def hasPrefix_def)
  have g: "guardPublicTopic ''t'' exServer = None"
    by (simp add: guardPublicTopic_def HasChannel_def exServer_fields Register_def NewRegistry_def)
  obtain b where b: "Subscribe ''t'' newBroker = (0, b)" by (simp add: Subscribe_def newBroker_def Let_def)
  let ?s1 = "exServer\<lparr>s_broker := b\<rparr>"
  have "run exRedis (GetChannel ''t'') emptyDb = (Inl ErrNotFound, emptyDb)"
    by (simp add: GetChannel_def send_def request_def exRedis_def resend_def cmdDoc.simps emptyDb_def asHash_def)
  then have "retained exEnvT ''t'' ?s1 = (False, ?s1)"
    by (simp add: retained_def callStore_def exServer_fields exEnvT_def)
  then have h: "handlePublicSubscribe exEnvT ?r 0 exServer = (SseLive 0 [], ?s1)"
    by (simp add: handlePublicSubscribe_def Let_def t g subscribe_def exServer_fields b)
  define sv2 where "sv2 = snd (registerKey ''t'' (replicate 32 (CHR ''k'')) ?s1)"
  have k: "registerKey ''t'' (replicate 32 (CHR ''k'')) ?s1 = (Inr False, sv2)"
    and f: "s_lim sv2 = DefaultLimits" "s_pubChan sv2 = NewPerMinute (\<lambda>x. x) 60 20"
    by (simp_all add: sv2_def registerKey_def Register_def exServer_fields NewRegistry_def)
  obtain msgs sv3 where s: "readerStep exDocEnv ?w (True, ''m'') sv2 = (msgs, sv3)"
    by (cases "readerStep exDocEnv ?w (True, ''m'') sv2")
  have "brokerInv (s_broker exServer)" "envOk exDocEnv"
    by (simp_all add: exServer_fields newBroker_inv envOk_def exDocEnv_def exEnvT_def)
  from early_stream_sees_private [OF this h _ k _ exDoc_decode _ _ exAllow [OF f(2)] s]
  have "queueOf (s_broker sv3) 0 = [exEnv ''t'' ''1'']" by (simp add: t f(1) DefaultLimits_def)
  with h k s show ?thesis by blast
qed


lemma run_create_exists:
  assumes "redis_ok R" "link_up R" "kv (r_db R s) (chKey (ch_id c)) \<noteq> None"
  shows "fst (run R (CreateChannel now c cp) s) = Inl ErrExists \<and>
    r_db R (snd (run R (CreateChannel now c cp) s)) = r_db R s"
proof (rule run_cleanE [OF assms(1,2)])
  show "clean (CreateChannel now c cp) (r_db R s) = {(Inl ErrExists, r_db R s)}"
    by (simp add: CreateChannel_def Let_def create_exists [OF assms(3)])
qed

text \<open>
  C39. A public retained topic can be taken over: a request without credentials to create an
  ephemeral private channel of the same name succeeds although the store already has the
  channel, registers the caller's key, and from then on the open path refuses the topic.
\<close>
theorem ephemeral_takes_over_topic:
  assumes "redis_ok (v_redis E)" "link_up (v_redis E)" "s_store sv = Some s"
    and "kv (r_db (v_redis E) s) (chKey ch) \<noteq> None" "channels (s_reg sv) ch = None"
    and "q_method r = ''POST''" "fst (allowCreate E (''chan:'' @ clientIP r) sv)"
    and "decodeCreate (v_json E) (q_body r) = Some \<lparr>r_channel = ch, r_authKey = ka, r_retain = False, r_ttlSec = t, r_ticket = ''''\<rparr>"
    and "ch \<noteq> ''''" "DecodeAuthKey ka = Inr key"
    and "handleCreateChannel E r sv = (resp, sv')"
  shows "p_status resp = 200 \<and> channels (s_reg sv') ch = Some key \<and>
    (\<exists>s'. s_store sv' = Some s' \<and> r_db (v_redis E) s' = r_db (v_redis E) s) \<and>
    guardPublicTopic ch sv' = Some (httpError ''not authorized'' 403)"
proof -
  let ?req = "\<lparr>r_channel = ch, r_authKey = ka, r_retain = False, r_ttlSec = t, r_ticket = ''''\<rparr>"
  let ?c = "\<lparr>ch_id = ch, ch_owner = '''', ch_kauth = ka, ch_retained = False, ch_ttl = 0, ch_maxBytes = 0, ch_maxMsgs = 0\<rparr>"
  obtain sv1 where a: "allowCreate E (''chan:'' @ clientIP r) sv = (True, sv1)"
    using assms(7) by (metis prod.collapse)
  have i: "inert sv sv1" and s1: "s_store sv1 = Some s"
    using allow_inert(1) [OF a] a assms(3) by (auto simp: allowCreate_def split: prod.splits)
  obtain v s' where r: "run (v_redis E) (CreateChannel (v_unix E) ?c anonCap) s = (v, s')"
    by (cases "run (v_redis E) (CreateChannel (v_unix E) ?c anonCap) s")
  have v: "v = Inl ErrExists" "r_db (v_redis E) s' = r_db (v_redis E) s"
    using run_create_exists [OF assms(1,2), of s ?c "v_unix E" anonCap] assms(4) r by simp_all
  have "ka \<noteq> ''''" using assms(10) DecodeAuthKey_empty by auto
  then have "handleCreateChannel E r sv = createEphemeral E ?req key sv1"
    unfolding handleCreateChannel_def a by (simp add: assms(6,8,9,10) Let_def)
  moreover have "createEphemeral E ?req key sv1 =
      (okJson [(''channel'', OStr ch), (''created'', OBool True), (''retained'', OBool False)],
       snd (registerKey ch key (sv1\<lparr>s_store := Some s'\<rparr>)))"
    using i assms(5,9)
    by (simp add: createEphemeral_def Let_def callStore_def s1 r v inert_def registerKey_def Register_def)
  ultimately show ?thesis
    using assms(5,9,11) i v(2)
    by (auto simp: registerKey_def Register_def guardPublicTopic_def HasChannel_def inert_def)
qed

definition exTopicDb :: db where
  "exTopicDb = put (chKey ''t'') (RHash [(''retained'', ''1'')]) emptyDb"

definition exCreateEnv :: "db env" where
  "exCreateEnv = exEnvT\<lparr>v_json := (\<lambda>b. Some (JDObject [(''channel'', [], JStr ''t''),
     (''auth_key'', [], JStr (b32encode (replicate 32 (CHR ''k''))))]))\<rparr>"

lemma exCreate_decode: "decodeCreate (v_json exCreateEnv) b = Some \<lparr>r_channel = ''t'',
    r_authKey = b32encode (replicate 32 (CHR ''k'')), r_retain = False, r_ttlSec = 0, r_ticket = ''''\<rparr>"
proof -
  have "fieldOf [''channel'', ''auth_key'', ''retain'', ''ttl_sec'', ''ticket''] ''channel'' = Some ''channel''"
    "fieldOf [''channel'', ''auth_key'', ''retain'', ''ttl_sec'', ''ticket''] ''auth_key'' = Some ''auth_key''"
    by code_simp+
  then show ?thesis
    by (simp add: decodeCreate_def decodeBody_def exCreateEnv_def bindDoc_def setCreate_def bindString_def)
qed

lemma exAllowCreate: "fst (allowCreate exCreateEnv k exServer)"
  by (simp add: allowCreate_def exCreateEnv_def exEnvT_def exServer_def NewWithConfig_def NewPerHour_def
      NewRateLimiter_def Allow_def freshBucket_def allow_def Let_def timeSub_def seconds_def)

theorem ephemeral_takes_over_topic_witness:
  "channels (s_reg (snd (handleCreateChannel exCreateEnv exRequest (exServer\<lparr>s_store := Some exTopicDb\<rparr>)))) ''t'' =
     Some (replicate 32 (CHR ''k''))"
proof -
  let ?sv = "exServer\<lparr>s_store := Some exTopicDb\<rparr>" and ?k = "replicate 32 (CHR ''k'')"
  have "redis_ok (v_redis exCreateEnv)" "link_up (v_redis exCreateEnv)"
    using exRedis_ok by (simp_all add: exCreateEnv_def exEnvT_def)
  moreover have "kv (r_db (v_redis exCreateEnv) exTopicDb) (chKey ''t'') \<noteq> None"
    by (simp add: exCreateEnv_def exEnvT_def exRedis_def exTopicDb_def)
  moreover have "channels (s_reg ?sv) ''t'' = None"
    by (simp add: exServer_fields Register_def NewRegistry_def)
  moreover have "DecodeAuthKey (b32encode ?k) = Inr ?k" by (simp add: keySize_def)
  moreover have "fst (allowCreate exCreateEnv (''chan:'' @ clientIP exRequest) ?sv)"
    using exAllowCreate [of "''chan:'' @ clientIP exRequest"] by (simp add: allowCreate_def split: prod.splits)
  moreover have "q_method exRequest = ''POST''" by (simp add: exRequest_def)
  ultimately show ?thesis
    using ephemeral_takes_over_topic [of exCreateEnv ?sv exTopicDb "''t''" exRequest, OF _ _ _ _ _ _ _ exCreate_decode _ _ prod.collapse [symmetric]]
    by simp
qed

end
