(* ===== verification/Transport_Pairing.thy ===== *)
theory Transport_Pairing
  imports Transport_Sessions
begin

text \<open>
  The way of a shared secret through the system: the key derived from it is registered when
  the channel is created, and from then on whoever holds the secret gets in.
\<close>

lemma registerKey_fresh:
  "channels (s_reg sv) ch = None \<Longrightarrow> ch \<noteq> '''' \<Longrightarrow> channels (s_reg (snd (registerKey ch key sv))) ch = Some key"
  by (simp add: registerKey_def Register_def)

lemma ephemeral_registers:
  assumes "createEphemeral E req key sv = (resp, sv')" "p_status resp = 200" "r_channel req \<noteq> ''''"
  shows "channels (s_reg sv') (r_channel req) = Some key"
  using assms
  by (auto simp: createEphemeral_def Let_def registerKey_def Register_def split: prod.splits if_splits sum.splits)

lemma retained_registers:
  assumes "createRetained E r req key sv = (resp, sv')" "p_status resp = 200" "r_channel req \<noteq> ''''"
    and "r_authKey req \<noteq> ''''" "channels (s_reg sv) (r_channel req) = None"
  shows "channels (s_reg sv') (r_channel req) = Some key"
proof -
  have s: "s_store sv \<noteq> None" using assms(1,2) by (cases "s_store sv") (auto simp: createRetained_def Let_def)
  obtain ow sv1 where a: "authedAccount E r sv = (ow, sv1)" by (cases "authedAccount E r sv")
  define ch where "ch = \<lparr>ch_id = r_channel req, ch_owner = ow, ch_kauth = r_authKey req, ch_retained = True,
      ch_ttl = toSeconds (v_fl E) (retentionTTL (s_lim sv1) (ow = '''') (r_ttlSec req)),
      ch_maxBytes = BytesPerChannel (s_lim sv1), ch_maxMsgs = RetainedMsgsPerChan (s_lim sv1)\<rparr>"
  define cp where "cp = (if ow = '''' then anonCap else ChannelsPerAccount (s_lim sv1))"
  obtain v sv2 where c: "callStore E (CreateChannel (v_unix E) ch cp) sv1 = (v, sv2)"
    by (cases "callStore E (CreateChannel (v_unix E) ch cp) sv1")
  have "s_reg sv2 = s_reg sv" using inert_trans [OF authed_inert [OF a] callStore_inert [OF c]] by (simp add: inert_def)
  moreover have "sv' = snd (registerKey (r_channel req) key sv2)"
    using assms(1,2,4) s by (auto simp: createRetained_def a c Let_def simp flip: ch_def cp_def
        split: option.splits sum.splits store_error.splits if_splits)
  ultimately show ?thesis using assms(3,5) by (simp add: registerKey_fresh)
qed

lemma ticket_registers:
  assumes "createWithTicket E r req key sv = (resp, sv')" "p_status resp = 200" "r_channel req \<noteq> ''''"
    and "r_authKey req \<noteq> ''''" "channels (s_reg sv) (r_channel req) = None"
  shows "channels (s_reg sv') (r_channel req) = Some key"
proof -
  have s: "s_store sv \<noteq> None" using assms(1,2) by (cases "s_store sv") (auto simp: createWithTicket_def Let_def)
  obtain ow sv1 where a: "authedAccount E r sv = (ow, sv1)" by (cases "authedAccount E r sv")
  obtain v sv2 where c: "callStore E (CreateChannelWithTicket (r_ticket req) (r_channel req) (r_authKey req) ow) sv1 = (v, sv2)"
    by (cases "callStore E (CreateChannelWithTicket (r_ticket req) (r_channel req) (r_authKey req) ow) sv1")
  have "s_reg sv2 = s_reg sv" using inert_trans [OF authed_inert [OF a] callStore_inert [OF c]] by (simp add: inert_def)
  moreover have "sv' = snd (registerKey (r_channel req) key sv2)"
    using assms(1,2,4) s by (auto simp: createWithTicket_def a c Let_def
        split: option.splits sum.splits store_error.splits if_splits)
  ultimately show ?thesis using assms(3,5) by (simp add: registerKey_fresh)
qed

lemma creation_registers:
  assumes "handleCreateChannel E r sv = (resp, sv')" "p_status resp = 200"
    and "decodeCreate (v_json E) (q_body r) = Some req" "r_authKey req \<noteq> ''''"
    and "channels (s_reg sv) (r_channel req) = None"
  shows "\<exists>key. DecodeAuthKey (r_authKey req) = Inr key \<and> channels (s_reg sv') (r_channel req) = Some key \<and>
    r_channel req \<noteq> ''''"
proof -
  obtain ok sv1 where a: "allowCreate E (''chan:'' @ clientIP r) sv = (ok, sv1)"
    by (cases "allowCreate E (''chan:'' @ clientIP r) sv")
  have reg: "s_reg sv1 = s_reg sv" using allow_inert(1) [OF a] by (simp add: inert_def)
  have "\<exists>key. DecodeAuthKey (r_authKey req) = Inr key \<and> r_channel req \<noteq> '''' \<and>
      (createWithTicket E r req key sv1 = (resp, sv') \<or> createRetained E r req key sv1 = (resp, sv') \<or>
       createEphemeral E req key sv1 = (resp, sv'))"
    using assms(1-4) unfolding handleCreateChannel_def a
    by (auto simp: Let_def split: if_splits bool.splits sum.splits)
  then show ?thesis
    using assms(2,4,5) reg by (auto dest: ephemeral_registers retained_registers ticket_registers)
qed

text \<open>
  C6. Creating a channel works end to end: when the server accepts a creation request that
  carries the registration key of a secret, under a name it has no key for, then for as
  long as it runs, whatever else happens, a peer that answers the challenge with the
  response derived from that secret is admitted.
\<close>
theorem created_channel_admits:
  assumes "RegistrationKey (v_prims E) secret = Inr ka"
    and "handleCreateChannel E0 r0 sv0 = (resp, sv1)" "p_status resp = 200"
    and "decodeCreate (v_json E0) (q_body r0) = Some req" "r_authKey req = ka"
    and "channels (s_reg sv0) (r_channel req) = None"
    and "serverStep\<^sup>*\<^sup>* (sv1, ws1, ss1) (sv, ws, ss)"
    and "fst (Acquire (clientIP r) (s_conns sv))" "3 \<le> wok"
    and "textOf hello = Some hb" "decodeHandshake (v_unmarshal E) hb = Some hs" "hs_channel hs = r_channel req"
    and "v_rand1 E = Some challenge" "ChallengeResponse (v_prims E) secret challenge = Inr answer"
    and "textOf (peer (b64encode challenge)) = Some ab" "decodeAuth (v_unmarshal E) ab = Some (b64encode answer)"
  shows "\<exists>w out. w_channel w = r_channel req \<and>
    fst (handleWS E r True hello peer wok sv) \<in> {WsLive w out, WsGone out} \<and>
    take 2 out = [OutChallenge (b64encode challenge), OutResult True '''']"
proof -
  obtain k where k: "AuthKey (v_prims E) secret = Inr k" "ka = b32encode k"
    using assms(1) by (auto simp: RegistrationKey_def split: sum.splits)
  have d: "DecodeAuthKey ka = Inr k" using k AuthKey_length [OF k(1)] by simp
  have "r_authKey req \<noteq> ''''" using d assms(5) DecodeAuthKey_empty by auto
  from creation_registers [OF assms(2-4) this assms(6)] d assms(5)
  have "channels (s_reg sv1) (r_channel req) = Some k" by auto
  then have "channels (s_reg sv) (r_channel req) = Some k"
    using serverSteps_key [OF assms(7)] by simp
  moreover have "answer = ResponseFromAuthKey (v_prims E) k challenge"
    using assms(14) k(1) by (simp add: ChallengeResponse_def)
  ultimately have "\<exists>k. channels (s_reg sv) (hs_channel hs) = Some k \<and>
      b64decode (b64encode answer) = Some (ResponseFromAuthKey (v_prims E) k challenge)"
    by (simp add: assms(12) b64.dec_enc)
  then show ?thesis
    using ws_outcome [where peer = peer and challenge = challenge, OF assms(8,10,11,13,9,15,16)] unfolding assms(12) by (simp only: if_True)
qed


definition exPairEnv :: "string \<Rightarrow> db env" where
  "exPairEnv ka = exEnvT\<lparr>v_json := (\<lambda>b. Some (JDObject [(''channel'', [], JStr ''t''), (''auth_key'', [], JStr ka)])),
     v_unmarshal := (\<lambda>b. Some (JDObject [(''channel'', [], JStr ''t''), (''response'', [], JStr b)]))\<rparr>"

lemma exPair_decode: "decodeCreate (v_json (exPairEnv ka)) b = Some \<lparr>r_channel = ''t'',
    r_authKey = ka, r_retain = False, r_ttlSec = 0, r_ticket = ''''\<rparr>"
  "decodeHandshake (v_unmarshal (exPairEnv ka)) b = Some \<lparr>hs_channel = ''t'', hs_afterSeq = 0\<rparr>"
  "decodeAuth (v_unmarshal (exPairEnv ka)) b = Some b"
proof -
  have "fieldOf [''channel'', ''auth_key'', ''retain'', ''ttl_sec'', ''ticket''] ''channel'' = Some ''channel''"
    "fieldOf [''channel'', ''auth_key'', ''retain'', ''ttl_sec'', ''ticket''] ''auth_key'' = Some ''auth_key''"
    "fieldOf [''channel'', ''after_seq''] ''channel'' = Some ''channel''"
    "fieldOf [''channel'', ''after_seq''] ''response'' = None"
    "fieldOf [''response''] ''channel'' = None" "fieldOf [''response''] ''response'' = Some ''response''"
    by code_simp+
  then show "decodeCreate (v_json (exPairEnv ka)) b = Some \<lparr>r_channel = ''t'',
    r_authKey = ka, r_retain = False, r_ttlSec = 0, r_ticket = ''''\<rparr>"
    "decodeHandshake (v_unmarshal (exPairEnv ka)) b = Some \<lparr>hs_channel = ''t'', hs_afterSeq = 0\<rparr>"
    "decodeAuth (v_unmarshal (exPairEnv ka)) b = Some b"
    by (simp_all add: decodeCreate_def decodeBody_def decodeHandshake_def decodeAuth_def exPairEnv_def
        bindDoc_def setCreate_def setHandshake_def bindString_def)
qed

lemma exPair_created:
  assumes "length k = keySize"
  shows "p_status (fst (handleCreateChannel (exPairEnv (b32encode k)) exRequest (exServer\<lparr>s_store := None\<rparr>))) = 200"
    "s_conns (snd (handleCreateChannel (exPairEnv (b32encode k)) exRequest (exServer\<lparr>s_store := None\<rparr>))) = s_conns exServer"
proof -
  let ?sv = "exServer\<lparr>s_store := None\<rparr>" and ?E = "exPairEnv (b32encode k)"
  have dec: "DecodeAuthKey (b32encode k) = Inr k" using assms by simp
  then have ne: "b32encode k \<noteq> ''''" "DecodeAuthKey (b32encode k) = Inr k" using DecodeAuthKey_empty by auto
  obtain l where a: "allowCreate ?E (''chan:'' @ clientIP exRequest) ?sv = (True, ?sv\<lparr>s_createLim := l\<rparr>)"
    by (simp add: allowCreate_def exPairEnv_def exEnvT_def exServer_def NewWithConfig_def NewPerHour_def
      NewRateLimiter_def Allow_def freshBucket_def allow_def Let_def timeSub_def seconds_def DefaultLimits_def)
  have p: "q_method exRequest = ''POST''" by (simp add: exRequest_def)
  show "p_status (fst (handleCreateChannel ?E exRequest ?sv)) = 200"
    "s_conns (snd (handleCreateChannel ?E exRequest ?sv)) = s_conns exServer"
    unfolding handleCreateChannel_def a
    by (simp_all add: p exPair_decode ne createEphemeral_def callStore_def registerKey_def Register_def Let_def
      exServer_def NewWithConfig_def NewRegistry_def)
qed

theorem created_channel_admits_witness:
  "\<exists>ka answer sv1 w out. RegistrationKey xorPrims exSecret = Inr ka \<and>
     ChallengeResponse xorPrims exSecret (replicate 32 (CHR ''r'')) = Inr answer \<and>
     sv1 = snd (handleCreateChannel (exPairEnv ka) exRequest (exServer\<lparr>s_store := None\<rparr>)) \<and>
     fst (handleWS (exPairEnv ka) exRequest True (Some (True, ''h'')) (\<lambda>c. Some (True, b64encode answer)) 3 sv1)
       \<in> {WsLive w out, WsGone out} \<and> w_channel w = ''t''"
proof -
  let ?sv = "exServer\<lparr>s_store := None\<rparr>" and ?c = "replicate 32 (CHR ''r'')"
  obtain s where s: "decodeSecret exSecret = Inr s" using exSecret_ok by blast
  define k where "k = derive xorPrims s authTag"
  define ka where "ka = b32encode k"
  have reg: "RegistrationKey xorPrims exSecret = Inr ka" "AuthKey xorPrims exSecret = Inr k"
    by (simp_all add: RegistrationKey_def AuthKey_def s k_def ka_def)
  let ?E = "exPairEnv ka"
  define answer where "answer = ResponseFromAuthKey xorPrims k ?c"
  have ans: "ChallengeResponse (v_prims ?E) exSecret ?c = Inr answer"
    by (simp add: ChallengeResponse_def reg(2) answer_def exPairEnv_def exEnvT_def)
  let ?sv1 = "snd (handleCreateChannel ?E exRequest ?sv)"
  have st: "p_status (fst (handleCreateChannel ?E exRequest ?sv)) = 200" and co: "s_conns ?sv1 = s_conns exServer"
    using exPair_created [of k] by (simp_all add: ka_def k_def)
  have ac: "fst (Acquire (clientIP exRequest) (s_conns ?sv1))"
    unfolding co
    by (simp add: Acquire_def exServer_def NewWithConfig_def NewConnCounter_def countOf_def DefaultLimits_def)
  have free: "channels (s_reg ?sv) ''t'' = None"
    by (simp add: exServer_def NewWithConfig_def Register_def NewRegistry_def)
  have "RegistrationKey (v_prims ?E) exSecret = Inr ka" by (simp add: exPairEnv_def exEnvT_def reg)
  from created_channel_admits [OF this prod.collapse [symmetric] st exPair_decode(1) _ _ rtranclp.rtrancl_refl ac,
      of 3 "Some (True, ''h'')" "''h''" "\<lparr>hs_channel = ''t'', hs_afterSeq = 0\<rparr>" ?c answer
      "\<lambda>c. Some (True, b64encode answer)" "b64encode answer"]
  have "\<exists>w out. w_channel w = ''t'' \<and>
    fst (handleWS ?E exRequest True (Some (True, ''h'')) (\<lambda>c. Some (True, b64encode answer)) 3 ?sv1) \<in> {WsLive w out, WsGone out}"
    using free ans exPair_decode by (auto simp: textOf_def exPairEnv_def exEnvT_def)
  then show ?thesis using reg(1) ans by (simp add: exPairEnv_def exEnvT_def) blast
qed


subsection \<open>The writer drains the queue\<close>

primrec writerTurns :: "nat \<Rightarrow> 'r env \<Rightarrow> wsSession \<Rightarrow> 'r server \<Rightarrow> wsOut list \<times> 'r server" where
  "writerTurns 0 E w sv = ([], sv)"
| "writerTurns (Suc n) E w sv = (case writerStep E w sv of
     None \<Rightarrow> ([], sv)
   | Some (out, sv') \<Rightarrow> (case writerTurns n E w sv' of (rest, sv'') \<Rightarrow> (out @ rest, sv'')))"

definition frameOf :: "'r env \<Rightarrow> envelope \<Rightarrow> wsOut list" where
  "frameOf E e = (case v_marshal E e of None \<Rightarrow> [] | Some b \<Rightarrow> [OutText b])"

lemma writerStep_queue:
  "heap (s_broker sv) (w_sub w) = Some s \<Longrightarrow> writerStep E w sv = (case sub_out s of [] \<Rightarrow> None
     | e # q \<Rightarrow> Some (frameOf E e, sv\<lparr>s_broker := (s_broker sv)\<lparr>heap :=
         (heap (s_broker sv))(w_sub w \<mapsto> s\<lparr>sub_out := q\<rparr>)\<rparr>\<rparr>))"
  by (simp add: writerStep_def liveNext_def receive_def frameOf_def split: list.split)

lemma writer_drains:
  assumes "heap (s_broker sv) (w_sub w) = Some s"
  obtains sv' where "writerTurns (length (sub_out s)) E w sv = (concat (List.map (frameOf E) (sub_out s)), sv')"
    "queueOf (s_broker sv') (w_sub w) = []" "writerStep E w sv' = None"
  using assms
proof (induction "sub_out s" arbitrary: s sv thesis)
  case Nil
  then show ?case by (simp add: writerStep_queue queueOf_def Nil.hyps [symmetric])
next
  case (Cons e q)
  let ?s = "s\<lparr>sub_out := q\<rparr>"
  let ?sv = "sv\<lparr>s_broker := (s_broker sv)\<lparr>heap := (heap (s_broker sv))(w_sub w \<mapsto> ?s)\<rparr>\<rparr>"
  obtain sv' where "writerTurns (length q) E w ?sv = (concat (List.map (frameOf E) q), sv')"
    "queueOf (s_broker sv') (w_sub w) = []" "writerStep E w sv' = None"
    using Cons.hyps(1) [of ?s ?sv] by auto
  then show ?case using Cons.prems by (simp add: writerStep_queue Cons.hyps(2) [symmetric])
qed



end
