(* ===== verification/Store_Registry.thy ===== *)
theory Store_Registry
  imports Store_Channels
begin

text \<open>
  The store's other methods: issuing a grant, accounts, the limits override, the boot-time
  read of every channel's key, the statistics; and what a channel id that names another
  channel's key does.
\<close>

subsection \<open>Issuing a grant\<close>

lemma ticketIs_put:
  "ticketIs (put (ticketKey t) (RHash [(''match'', g_match g), (''retained'', boolStr (g_retained g)),
     (''ttl_sec'', itoa (g_ttl g)), (''max_bytes'', itoa (g_maxBytes g)), (''max_msgs'', itoa (g_maxMsgs g))]) d) t g"
  by (simp add: ticketIs_def)

lemma ticketIs_kv: "kv d' (ticketKey t) = kv d (ticketKey t) \<Longrightarrow> ticketIs d' t g = ticketIs d t g"
  by (simp add: ticketIs_def)

text \<open>
  Issuing a grant stores exactly that grant under the fresh ticket it returns, with the
  requested lifetime, and touches no other key; without randomness it fails.
\<close>
theorem issue_grant_exact:
  assumes "redis_ok R" "link_up R" "d = r_db R s"
    and "kv d (ticketKey (b64urlencode raw)) = None" "0 < expirySec" "expirySec < 2 ^ 33"
    and "run R (IssueGrant (Some raw) g expirySec) s = (res, s')"
  shows "res = Inr (b64urlencode raw) \<and> ticketIs (r_db R s') (b64urlencode raw) g \<and>
    expiry (r_db R s') (ticketKey (b64urlencode raw)) = Some (expirySec * 1000000000) \<and>
    (\<forall>k. k \<noteq> ticketKey (b64urlencode raw) \<longrightarrow> kv (r_db R s') k = kv d k)"
proof -
  let ?t = "b64urlencode raw"
  let ?fs = "[(''match'', g_match g), (''retained'', boolStr (g_retained g)),
     (''ttl_sec'', itoa (g_ttl g)), (''max_bytes'', itoa (g_maxBytes g)), (''max_msgs'', itoa (g_maxMsgs g))]"
  have fs: "setFields ?fs [] = ?fs" by (simp add: setFields_def)
  have "wrap64 (expirySec * 1000000000) = expirySec * 1000000000"
    using assms(5,6) by (intro wrap64_id) (simp add: int64_def)
  then have "clean (IssueGrant (Some raw) g expirySec) d =
      {(Inr ?t, (put (ticketKey ?t) (RHash ?fs) d)\<lparr>expiry := (expiry d)(ticketKey ?t \<mapsto> expirySec * 1000000000)\<rparr>)}"
    using HSet_fresh [OF assms(4) fs] assms(5)
    by (simp add: IssueGrant_def Let_def clean_send cmdDoc.simps(14))
  from run_cleanE [OF assms(1,2) this [unfolded assms(3)]] assms(3,7)
  show ?thesis using ticketIs_put [of ?t g d] by (auto simp: ticketIs_def)
qed

theorem issue_grant_exact_witness:
  "fst (run exRedis (IssueGrant (Some ''x'') exGrant 3600) emptyDb) = Inr (b64urlencode ''x'')"
  using issue_grant_exact [OF exRedis_ok, of emptyDb emptyDb "''x''" 3600 exGrant
      "fst (run exRedis (IssueGrant (Some ''x'') exGrant 3600) emptyDb)"
      "snd (run exRedis (IssueGrant (Some ''x'') exGrant 3600) emptyDb)"]
  by (simp add: exRedis_def emptyDb_def)

subsection \<open>Accounts\<close>

lemma acct_distinct: "acctUsageKey i \<noteq> acctKey i" "acctKey i \<noteq> acctUsageKey i"
  by (simp_all add: acctUsageKey_def acctKey_def)

lemma HSetNX_doc: "asHash (kv d k) = Some m \<Longrightarrow> cmdDoc (HSetNX k f v) d =
    (if map_of m f = None then (RInt 1, put k (RHash (AList.update f v m)) d) else (RInt 0, d))"
  by (simp add: cmdDoc.simps)

lemma HSet_doc: "asHash (kv d k) = Some m \<Longrightarrow> effect (HSet k fs) d = put k (RHash (setFields fs m)) d"
  by (simp add: cmdDoc.simps)

lemma setFields_single [simp]: "setFields [(f, v)] m = AList.update f v m"
  by (simp add: setFields_def)

lemma asHash_put [simp]: "asHash (Some (RHash m)) = Some m"
  by (simp add: asHash_def)

text \<open>
  Accounts: a new account's key hash is the one given and its usage starts at zero bytes
  and no channels; an id that is taken is refused without touching what is stored.
\<close>
theorem create_account_exact:
  assumes "redis_ok R" "link_up R" "d = r_db R s"
    and "asHash (kv d (acctKey i)) = Some m" "kv d (acctUsageKey i) = None"
    and "run R (andThen (CreateAccount now i h) (\<lambda>r. andThen (AccountKeyHash i) (\<lambda>k. Return (r, k)))) s =
      ((res, key), s')"
  shows "if map_of m ''api_key_hash'' = None
    then res = Inr () \<and> key = Inr h \<and> acctIs (r_db R s') i 0 \<and> chanCount (r_db R s') i 0
    else res = Inl ErrExists \<and> key = Inr (the (map_of m ''api_key_hash'')) \<and> r_db R s' = d"
proof -
  let ?p = "andThen (CreateAccount now i h) (\<lambda>r. andThen (AccountKeyHash i) (\<lambda>k. Return (r, k)))"
  have out: "((res, key), r_db R s') \<in> clean ?p d"
    using run_clean [OF assms(1,2), of ?p s] assms(3,6) by simp
  show ?thesis
  proof (cases "map_of m ''api_key_hash''")
    case (Some k0)
    have g: "cmdDoc (HGet (acctKey i) ''api_key_hash'') d = (RStr k0, d)"
      using assms(4) Some by (simp add: cmdDoc.simps optReply_def)
    show ?thesis using out Some g
      by (simp add: clean_andThen CreateAccount_def AccountKeyHash_def clean_send HSetNX_doc [OF assms(4)])
  next
    case None
    define d1 where "d1 = put (acctKey i) (RHash (AList.update ''api_key_hash'' h m)) d"
    define m2 where "m2 = AList.update ''created'' (itoa now) (AList.update ''api_key_hash'' h m)"
    define d2 where "d2 = put (acctKey i) (RHash m2) d1"
    define d3 where "d3 = put (acctUsageKey i) (RHash [(''bytes'', ''0'')]) d2"
    define d4 where "d4 = put (acctUsageKey i) (RHash [(''bytes'', ''0''), (''channels'', ''0'')]) d3"
    have 1: "cmdDoc (HSetNX (acctKey i) ''api_key_hash'' h) d = (RInt 1, d1)"
      using None by (simp add: HSetNX_doc [OF assms(4)] d1_def)
    have 2: "effect (HSet (acctKey i) [(''created'', itoa now)]) d1 = d2"
      by (simp add: d1_def d2_def m2_def HSet_doc)
    have 3: "cmdDoc (HSetNX (acctUsageKey i) ''bytes'' ''0'') d2 = (RInt 1, d3)"
      using assms(5) HSetNX_doc [of d2 "acctUsageKey i" "[]"]
      by (simp add: d2_def d1_def d3_def acct_distinct asHash_def)
    have 4: "cmdDoc (HSetNX (acctUsageKey i) ''channels'' ''0'') d3 = (RInt 1, d4)"
      using HSetNX_doc [of d3 "acctUsageKey i"] by (simp add: d3_def d4_def)
    have 5: "cmdDoc (HGet (acctKey i) ''api_key_hash'') d4 = (RStr h, d4)"
      by (simp add: d4_def d3_def d2_def m2_def acct_distinct cmdDoc.simps optReply_def update_conv')
    have "(res, key) = (Inr (), Inr h)" "r_db R s' = d4"
      using out 1 2 3 4 5
      by (simp_all add: clean_andThen CreateAccount_def AccountKeyHash_def clean_send)
    moreover have "acctIs d4 i 0" "chanCount d4 i 0"
      using itoa_01 intField_itoa [of 0]
      by (simp_all add: d4_def acctIs_def chanCount_def int64_def)
    ultimately show ?thesis using None by simp
  qed
qed

theorem create_account_exact_witness:
  "fst (fst (run exRedis (andThen (CreateAccount 1 ''a'' ''h'')
      (\<lambda>r. andThen (AccountKeyHash ''a'') (\<lambda>k. Return (r, k)))) emptyDb)) = Inr ()"
proof -
  let ?p = "andThen (CreateAccount 1 ''a'' ''h'') (\<lambda>r. andThen (AccountKeyHash ''a'') (\<lambda>k. Return (r, k)))"
  obtain res key s' where r: "run exRedis ?p emptyDb = ((res, key), s')"
    by (metis prod.collapse)
  from create_account_exact [OF exRedis_ok, of emptyDb emptyDb "''a''" "[]" 1 "''h''" res key s'] r
  show ?thesis by (simp add: exRedis_def emptyDb_def asHash_def)
qed

subsection \<open>Overriding limits\<close>

lemma map_of_rev_distinct: "distinct (List.map fst h) \<Longrightarrow> map_of (rev h) = map_of h"
  by (rule map_of_eqI) (auto simp: map_of_eq_Some_iff rev_map [symmetric])

lemma valueOf_distinct:
  "distinct (List.map fst h) \<Longrightarrow> valueOf h k = (case map_of h k of None \<Rightarrow> [] | Some v \<Rightarrow> v)"
  by (simp add: valueOf_def map_of_rev_distinct)

lemma valueOf_update:
  "distinct (List.map fst h) \<Longrightarrow> valueOf (AList.update f v h) k = (if k = f then v else valueOf h k)"
  by (simp add: valueOf_distinct distinct_update update_conv')

text \<open>
  The administrator's override changes exactly the limits given (a negative value leaves
  one alone), never the owner, the key or the retention flag, and reports a channel that
  does not exist.
\<close>
theorem set_limits_exact:
  assumes "redis_ok R" "link_up R" "d = r_db R s"
    and "kv d (chKey i) = None \<or> configIs d c \<and> ch_id c = i"
    and "int64 t" "int64 b" "int64 m"
    and "run R (SetChannelLimits i t b m) s = (res, s')"
  shows "if kv d (chKey i) = None then res = Inl ErrNotFound \<and> r_db R s' = d
    else res = Inr () \<and> sameBut {chKey i} d (r_db R s') \<and>
      configIs (r_db R s') (c\<lparr>ch_ttl := if t \<ge> 0 then t else ch_ttl c,
        ch_maxBytes := if b \<ge> 0 then b else ch_maxBytes c,
        ch_maxMsgs := if m \<ge> 0 then m else ch_maxMsgs c\<rparr>)"
proof -
  have out: "(res, r_db R s') \<in> clean (SetChannelLimits i t b m) d"
    using run_clean [OF assms(1,2), of "SetChannelLimits i t b m" s] assms(3,8) by simp
  show ?thesis
  proof (cases "kv d (chKey i) = None")
    case True
    then show ?thesis using out
      by (simp add: SetChannelLimits_def storeHasChannel_def clean_andThen clean_send Exists_doc)
  next
    case False
    then obtain h where h: "kv d (chKey i) = Some (RHash h)" "h \<noteq> []" "channelOf i h = c" "ch_id c = i"
        "distinct (List.map fst h)"
      using assms(4) by (auto simp: configIs_def)
    let ?h = "setFields (limitFields t b m) h"
    have v: "valueOf ?h ''owner'' = ch_owner c" "valueOf ?h ''k_auth'' = ch_kauth c"
        "valueOf ?h ''retained'' = ''1'' \<longleftrightarrow> ch_retained c"
        "parseInt64 (valueOf ?h ''ttl_sec'') = (if t \<ge> 0 then t else ch_ttl c)"
        "parseInt64 (valueOf ?h ''max_bytes'') = (if b \<ge> 0 then b else ch_maxBytes c)"
        "parseInt64 (valueOf ?h ''max_msgs'') = (if m \<ge> 0 then m else ch_maxMsgs c)"
      using h(3,5) assms(5-7)
      by (auto simp: setFields_def limitFields_def valueOf_update distinct_update channelOf_def)
    have new: "channelOf i ?h = c\<lparr>ch_ttl := if t \<ge> 0 then t else ch_ttl c,
        ch_maxBytes := if b \<ge> 0 then b else ch_maxBytes c,
        ch_maxMsgs := if m \<ge> 0 then m else ch_maxMsgs c\<rparr>"
      using v h(4) by (simp add: channelOf_def)
    have ok: "distinct (List.map fst ?h)" "?h \<noteq> []"
      using h(2,5) by (auto simp: setFields_def limitFields_def distinct_update)
    show ?thesis
    proof (cases "limitFields t b m = []")
      case True
      then have "?h = h" by (simp add: setFields_def)
      then show ?thesis using out False True new h
        by (auto simp: SetChannelLimits_def storeHasChannel_def clean_andThen clean_send Exists_doc
            configIs_def)
    next
      case some: False
      have "cmdDoc (HSet (chKey i) (limitFields t b m)) d =
          (RInt (int (length ?h) - int (length h)), put (chKey i) (RHash ?h) d)"
        using h(1) by (simp add: cmdDoc.simps asHash_def)
      then have "res = Inr ()" "r_db R s' = put (chKey i) (RHash ?h) d"
        using out False some
        by (auto simp: SetChannelLimits_def storeHasChannel_def clean_andThen clean_send Exists_doc Let_def)
      then show ?thesis using False new ok h(4) by (auto simp: configIs_def)
    qed
  qed
qed

theorem set_limits_exact_witness:
  "fst (run exRedis (SetChannelLimits ''c'' 60 (- 1) 0) exDb) = Inr ()"
proof -
  have "kv exDb (chKey ''c'') \<noteq> None" by (simp add: exDb_def)
  with set_limits_exact [OF exRedis_ok, of exDb exDb "''c''" exChannel 60 "- 1" 0
      "fst (run exRedis (SetChannelLimits ''c'' 60 (- 1) 0) exDb)"
      "snd (run exRedis (SetChannelLimits ''c'' 60 (- 1) 0) exDb)"] exDb_config
  show ?thesis by (simp add: exRedis_def exChannel_def int64_def)
qed

subsection \<open>Reading every channel\<close>

definition kauthIs :: "db \<Rightarrow> string \<Rightarrow> string \<Rightarrow> bool" where
  "kauthIs d i k \<longleftrightarrow> cmdDoc (HGet (chKey i) ''k_auth'') d = (RStr k, d)"

lemma clean_kauthLoop:
  "(\<And>i. i \<in> set ids \<Longrightarrow> kauthIs d i (f i)) \<Longrightarrow>
     clean (kauthLoop ids out) d = {(\<lambda>i. if i \<in> set ids then Some (f i) else out i, d)}"
proof (induction ids arbitrary: out)
  case Nil
  then show ?case by simp
next
  case (Cons i ids)
  have "cmdDoc (HGet (chKey i) ''k_auth'') d = (RStr (f i), d)" using Cons.prems by (simp add: kauthIs_def)
  then have "clean (kauthLoop (i # ids) out) d = clean (kauthLoop ids (out(i \<mapsto> f i))) d"
    by (simp add: clean_send)
  also have "\<dots> = {(\<lambda>j. if j \<in> set ids then Some (f j) else (out(i \<mapsto> f i)) j, d)}"
    using Cons by simp
  also have "\<dots> = {(\<lambda>j. if j \<in> set (i # ids) then Some (f j) else out j, d)}"
    by (auto simp: fun_eq_iff)
  finally show ?case .
qed

text \<open>
  What the server loads at boot is exactly the stored key of every listed channel, in
  whatever order Redis lists them.
\<close>
theorem boot_keys_exact:
  assumes "redis_ok R" "link_up R" "asSet (kv (r_db R s) chansSet) \<noteq> None"
    and "\<forall>i\<in>channelsIn (r_db R s). kauthIs (r_db R s) i (f i)"
  shows "fst (run R AllChannelKAuth s) =
    Inr (\<lambda>i. if i \<in> channelsIn (r_db R s) then Some (f i) else None)"
proof -
  let ?d = "r_db R s"
  have "(fst (run R AllChannelKAuth s), r_db R (snd (run R AllChannelKAuth s))) \<in> clean AllChannelKAuth ?d"
    by (rule run_clean [OF assms(1,2)])
  then obtain xs where xs: "set xs = channelsIn ?d" and
    m: "(fst (run R AllChannelKAuth s), r_db R (snd (run R AllChannelKAuth s)))
      \<in> clean (andThen (kauthLoop xs Map.empty) (\<lambda>m. Return (Inr m))) ?d"
    using assms(3) by (auto simp: AllChannelKAuth_def send_def souts.simps(2) docs_def channelsIn_def)
  have "clean (kauthLoop xs Map.empty) ?d =
      {(\<lambda>i. if i \<in> set xs then Some (f i) else None, ?d)}"
    using clean_kauthLoop [of xs ?d f Map.empty] assms(4) xs by simp
  then show ?thesis using m xs by (simp add: clean_andThen)
qed

theorem boot_keys_exact_witness:
  "fst (run exRedis AllChannelKAuth exDb) = Inr (\<lambda>i. if i = ''c'' then Some ''k'' else None)"
proof -
  have "channelsIn exDb = {''c''}" "asSet (kv exDb chansSet) \<noteq> None"
    by (simp_all add: channelsIn_def exDb_def asSet_def)
  moreover have "kauthIs exDb ''c'' ''k''"
    by (simp add: kauthIs_def cmdDoc.simps exDb_def optReply_def)
  ultimately show ?thesis
    using boot_keys_exact [OF exRedis_ok, of exDb "\<lambda>_. ''k''"] by (simp add: exRedis_def)
qed

subsection \<open>Statistics\<close>

text \<open>The totals over the channels: each channel's configuration and log.\<close>

lemma clean_ChannelUsage:
  assumes "logIs d i L n"
  shows "clean (ChannelUsage i) d = {(Inr (bytesOf L, int (length L)), d)}"
proof -
  from assms have ex: "exact (bytesOf L)" "exact (int (length L))" by (auto simp: logIs_def)
  from assms have "cmdDoc (HMGet (chUsageKey i) [''bytes'', ''msgs'']) d =
      (ROpts [Some (itoa (bytesOf L)), Some (itoa (int (length L)))], d)"
    by (auto simp: logIs_def usageIs_def cmdDoc.simps asHash_def)
  then show ?thesis using ex by (simp add: ChannelUsage_def clean_send)
qed

definition total :: "(string \<Rightarrow> int) \<Rightarrow> string list \<Rightarrow> int" where
  "total f ids = (\<Sum>i\<leftarrow>ids. f i)"

lemma total_simps [simp]: "total f [] = 0" "total f (i # ids) = f i + total f ids"
  by (simp_all add: total_def)

lemma total_nonneg: "(\<And>i. i \<in> set ids \<Longrightarrow> 0 \<le> f i) \<Longrightarrow> 0 \<le> total f ids"
  by (induction ids) auto

lemma total_perm: "set xs = set ys \<Longrightarrow> distinct xs \<Longrightarrow> distinct ys \<Longrightarrow> total f xs = total f ys"
  by (simp add: total_def flip: sum.distinct_set_conv_list)

lemma clean_statsLoop:
  assumes "\<And>i. i \<in> set ids \<Longrightarrow> configIs d (cf i) \<and> ch_id (cf i) = i \<and> logIs d i (Lf i) (nf i)"
    and "0 \<le> st_retainedBytes st" "0 \<le> st_retainedMessages st"
    and "st_retainedBytes st + total (\<lambda>i. bytesOf (Lf i)) ids < 2 ^ 63"
    and "st_retainedMessages st + total (\<lambda>i. int (length (Lf i))) ids < 2 ^ 63"
  shows "clean (statsLoop ids st) d =
    {(st\<lparr>st_retainedChannels := st_retainedChannels st + total (\<lambda>i. if ch_retained (cf i) then 1 else 0) ids,
        st_retainedBytes := st_retainedBytes st + total (\<lambda>i. bytesOf (Lf i)) ids,
        st_retainedMessages := st_retainedMessages st + total (\<lambda>i. int (length (Lf i))) ids\<rparr>, d)}"
  using assms
proof (induction ids arbitrary: st)
  case Nil
  then show ?case by simp
next
  case (Cons i ids)
  have c: "configIs d (cf i)" "ch_id (cf i) = i" and lg: "logIs d i (Lf i) (nf i)"
    using Cons.prems(1) [of i] by auto
  have nonneg: "0 \<le> bytesOf (Lf j)" if "j \<in> set (i # ids)" for j
    using Cons.prems(1) [OF that] by (auto simp: logIs_def intro: bytesOf_nonneg)
  have rest: "0 \<le> total (\<lambda>i. bytesOf (Lf i)) ids" "0 \<le> total (\<lambda>i. int (length (Lf i))) ids"
    using nonneg by (auto intro: total_nonneg)
  have wr: "wrap64 (st_retainedBytes st + bytesOf (Lf i)) = st_retainedBytes st + bytesOf (Lf i)"
      "wrap64 (st_retainedMessages st + int (length (Lf i))) = st_retainedMessages st + int (length (Lf i))"
    using Cons.prems(2-5) rest nonneg [of i] by (auto intro!: wrap64_id simp: int64_def)
  define st1 where "st1 = st\<lparr>st_retainedChannels := st_retainedChannels st + (if ch_retained (cf i) then 1 else 0),
      st_retainedBytes := st_retainedBytes st + bytesOf (Lf i),
      st_retainedMessages := st_retainedMessages st + int (length (Lf i))\<rparr>"
  have "clean (statsLoop (i # ids) st) d = clean (statsLoop ids st1) d"
    using clean_GetChannel [OF c(1)] c(2) clean_ChannelUsage [OF lg] wr
    by (simp add: clean_andThen st1_def Let_def)
  also have "\<dots> = {(st1\<lparr>st_retainedChannels := st_retainedChannels st1 + total (\<lambda>i. if ch_retained (cf i) then 1 else 0) ids,
        st_retainedBytes := st_retainedBytes st1 + total (\<lambda>i. bytesOf (Lf i)) ids,
        st_retainedMessages := st_retainedMessages st1 + total (\<lambda>i. int (length (Lf i))) ids\<rparr>, d)}"
    by (rule Cons.IH) (use Cons.prems nonneg [of i] in \<open>auto simp: st1_def\<close>)
  finally show ?case by (simp add: st1_def algebra_simps)
qed

text \<open>Redis ends an iteration of the keyspace: within some number of steps the cursor comes
  back as 0.\<close>

definition scan_ends :: "'r redis \<Rightarrow> nat \<Rightarrow> bool" where
  "scan_ends R fuel \<longleftrightarrow> (\<forall>s. fst (run R (scanLoop fuel 0 []) s) \<noteq> None)"

lemma exRedis_scan_ends: "scan_ends exRedis 1"
  by (simp add: scan_ends_def send_def request_def exRedis_def cmdDoc.simps resend_def)

lemma Stats_returns:
  assumes "redis_ok R" "link_up R" "asSet (kv (r_db R s) chansSet) \<noteq> None" "scan_ends R fuel"
  shows "\<exists>st. fst (run R (Stats fuel) s) = Inr st"
proof -
  let ?sc = "Call (SMembers chansSet) Done"
  obtain v s1 where v: "request R ?sc s = (v, s1)" by (cases "request R ?sc s")
  have "(fst (run R (Request ?sc Return) s), r_db R (snd (run R (Request ?sc Return) s)))
      \<in> clean (Request ?sc Return) (r_db R s)"
    by (rule run_clean [OF assms(1,2)])
  then obtain xs where "v = RStrs xs"
    using assms(3) v by (auto simp: souts.simps(2) docs_def)
  then show ?thesis
    using v assms(4) by (auto simp: Stats_def send_def run_andThen scan_ends_def split: prod.splits option.splits)
      (metis fst_conv option.distinct(1))+
qed

text \<open>
  The public statistics count what is stored: the listed channels, the retained ones
  among them, and the messages and bytes of all their logs.
\<close>
theorem stats_exact:
  assumes "redis_ok R" "link_up R" "scan_ends R fuel" "asSet (kv (r_db R s) chansSet) = Some ids" "distinct ids"
    and "\<forall>i\<in>set ids. configIs (r_db R s) (cf i) \<and> ch_id (cf i) = i \<and> logIs (r_db R s) i (Lf i) (nf i)"
    and "total (\<lambda>i. bytesOf (Lf i)) ids < 2 ^ 63" "total (\<lambda>i. int (length (Lf i))) ids < 2 ^ 63"
  shows "\<exists>accounts. fst (run R (Stats fuel) s) = Inr
    \<lparr>st_channels = int (length ids),
     st_retainedChannels = total (\<lambda>i. if ch_retained (cf i) then 1 else 0) ids,
     st_accounts = accounts,
     st_retainedMessages = total (\<lambda>i. int (length (Lf i))) ids,
     st_retainedBytes = total (\<lambda>i. bytesOf (Lf i)) ids\<rparr>"
proof -
  let ?d = "r_db R s"
  obtain st where st: "fst (run R (Stats fuel) s) = Inr st"
    using Stats_returns [OF assms(1,2) _ assms(3)] assms(4) by auto
  have "(fst (run R (Stats fuel) s), r_db R (snd (run R (Stats fuel) s))) \<in> clean (Stats fuel) ?d"
    by (rule run_clean [OF assms(1,2)])
  then obtain xs where xs: "set xs = set ids" "distinct xs" and m:
    "(Inr st, r_db R (snd (run R (Stats fuel) s))) \<in> clean (andThen (statsLoop xs
             \<lparr>st_channels = int (length xs), st_retainedChannels = 0, st_accounts = 0,
              st_retainedMessages = 0, st_retainedBytes = 0\<rparr>) (\<lambda>st.
           andThen (scanLoop fuel 0 []) (\<lambda>seen. Return (case seen of
               None \<Rightarrow> Inl (RedisErr RHang)
             | Some seen \<Rightarrow> Inr (st\<lparr>st_accounts := int (length seen)\<rparr>))))) ?d"
    using assms(4) st by (auto simp: Stats_def send_def souts.simps(2) docs_def)
  have tot: "total f xs = total f ids" for f by (rule total_perm [OF xs assms(5)])
  have len: "length xs = length ids" using xs assms(5) by (metis distinct_card)
  have "clean (statsLoop xs \<lparr>st_channels = int (length xs), st_retainedChannels = 0, st_accounts = 0,
              st_retainedMessages = 0, st_retainedBytes = 0\<rparr>) ?d =
      {(\<lparr>st_channels = int (length ids),
         st_retainedChannels = total (\<lambda>i. if ch_retained (cf i) then 1 else 0) ids,
         st_accounts = 0,
         st_retainedMessages = total (\<lambda>i. int (length (Lf i))) ids,
         st_retainedBytes = total (\<lambda>i. bytesOf (Lf i)) ids\<rparr>, ?d)}"
    using clean_statsLoop [of xs ?d cf Lf nf] assms(6-8) xs(1) tot len by simp
  then show ?thesis using m st by (auto simp: clean_andThen split: option.splits)
qed

theorem stats_exact_witness:
  "\<exists>n. fst (run exRedis (Stats 1) exDb) = Inr \<lparr>st_channels = 1, st_retainedChannels = 1,
     st_accounts = n, st_retainedMessages = 1, st_retainedBytes = 3\<rparr>"
proof -
  have "asSet (kv exDb chansSet) = Some [''c'']" by (simp add: exDb_def asSet_def)
  moreover have "ch_id exChannel = ''c''" "ch_retained exChannel" by (simp_all add: exChannel_def)
  ultimately show ?thesis
    using stats_exact [OF exRedis_ok exRedis_scan_ends, of exDb "[''c'']" "\<lambda>_. exChannel" "\<lambda>_. [exEntry]" "\<lambda>_. 2"]
      exDb_config exDb_log by (simp add: exRedis_def exEntry_def total_def)
qed

subsection \<open>Ids that name another channel's key\<close>

text \<open>
  Channel ids are chosen by clients, and the id \<open>i:msgs\<close> makes the channel's own hash
  take the key of the message stream of \<open>i\<close>: once it is created, nothing can be retained on
  \<open>i\<close> any more.
\<close>
theorem msgs_id_breaks_retention:
  assumes "redis_ok R" "link_up R" "d = r_db R s"
    and "configIs d c" "ch_retained c" "ch_owner c = ''''" "usageIs d (ch_id c) b m n" "int64 n"
    and "ch_id x = ch_id c @ '':msgs''" "ch_owner x = ''''"
    and "kv d (chMsgsKey (ch_id c)) = None" "vacant d (ch_id x)"
    and "run R (CreateChannel now x cap) s = (res, s1)"
  shows "res = Inr () \<and> fst (run R (Append fuel now (ch_id c) blob bcap) s1) = Inl (RedisErr wrongType)"
proof -
  let ?k = "chMsgsKey (ch_id c)"
  have key: "chKey (ch_id x) = ?k" by (simp add: assms(9) chKey_def chMsgsKey_def)
  let ?d1 = "created d x (itoa now)"
  have fresh: "kv d (chKey (ch_id x)) = None" using assms(11) key by simp
  have cl: "clean (CreateChannel now x cap) d = {(Inr (), ?d1)}"
    using fresh souts_writeChannel [OF fresh assms(12), of "itoa now", unfolded fieldsOf_def assms(10)] assms(10)
    by (simp add: CreateChannel_def createChannelLua_def souts_det Exists_doc Let_def)
  from run_cleanE [OF assms(1,2) cl [unfolded assms(3)]] assms(3,13)
  have r: "res = Inr ()" "r_db R s1 = ?d1" by auto
  obtain ms where ms: "asSet (kv d chansSet) = Some ms" using assms(12) by (auto simp: vacant_def)
  have d1: "kv ?d1 = kv (let e = put (chUsageKey (ch_id x)) (RHash freshUsage) (put ?k (RHash (fieldsOf x (itoa now))) d)
      in if ch_id x \<in> set ms then e else put chansSet (RSet (ms @ [ch_id x])) e)"
    using ms by (simp add: created_def cmdDoc.simps Let_def key)
  have nk: "chUsageKey (ch_id x) \<noteq> chKey (ch_id c)" "chUsageKey (ch_id x) \<noteq> chUsageKey (ch_id c)"
    "chUsageKey (ch_id x) \<noteq> ?k"
    by (simp_all add: assms(9) chKey_def chUsageKey_def chMsgsKey_def)
  have c1: "configIs ?d1 c" and u1: "usageIs ?d1 (ch_id c) b m n"
    using assms(4,7) nk by (auto simp: configIs_def usageIs_def d1 Let_def)
  have st: "asStream (kv ?d1 ?k) = None" using nk by (simp add: d1 Let_def asStream_def)
  have ap: "souts (appendLua fuel (scriptKeys (ch_id c) '''') (appendArgs c blob bcap now)) ?d1 = {(wrongType, ?d1)}"
    using u1 st by (simp add: appendLua_def storeLua_def appendArgs_def assms(6) souts_det Let_def cmdDoc.simps(10))
  have "clean (Append fuel now (ch_id c) blob bcap) ?d1 = {(Inl (RedisErr wrongType), ?d1)}"
    using ap assms(5,6) by (simp add: Append_def clean_andThen clean_GetChannel [OF c1])
  from run_cleanE [OF assms(1,2) this [folded r(2)]] r(1) show ?thesis by simp
qed

definition exNewDb :: db where
  "exNewDb = put (chKey ''c'') (RHash [(''owner'', ''''), (''k_auth'', ''k''), (''retained'', ''1''),
        (''ttl_sec'', itoa 0), (''max_bytes'', itoa 0), (''max_msgs'', itoa 1)])
    (put (chUsageKey ''c'') (RHash [(''bytes'', itoa 0), (''msgs'', itoa 0), (''next_seq'', itoa 1)]) emptyDb)"

theorem msgs_id_breaks_retention_witness:
  "fst (run exRedis (Append 9 0 ''c'' ''hello'' 0)
     (snd (run exRedis (CreateChannel 0 (exChannel\<lparr>ch_id := ''c:msgs''\<rparr>) 5) exNewDb))) = Inl (RedisErr wrongType)"
proof -
  let ?x = "exChannel\<lparr>ch_id := ''c:msgs''\<rparr>"
  obtain res s1 where r: "run exRedis (CreateChannel 0 ?x 5) exNewDb = (res, s1)"
    by (cases "run exRedis (CreateChannel 0 ?x 5) exNewDb")
  have c: "configIs exNewDb exChannel"
    by (simp add: configIs_def exNewDb_def exChannel_def channelOf_def valueOf_def int64_def)
  have u: "usageIs exNewDb (ch_id exChannel) 0 0 1"
    by (auto simp: usageIs_def exNewDb_def exChannel_def)
  have v: "vacant exNewDb (ch_id ?x)" "kv exNewDb (chMsgsKey (ch_id exChannel)) = None"
    by (simp_all add: vacant_def exNewDb_def emptyDb_def exChannel_def asSet_def chUsageKey_def chKey_def
        chMsgsKey_def chansSet_def)
  have i: "ch_id exChannel = ''c''" "ch_retained exChannel" "ch_owner exChannel = ''''"
    "ch_owner ?x = ''''" "ch_id ?x = ''c:msgs''" by (simp_all add: exChannel_def)
  from msgs_id_breaks_retention [OF exRedis_ok _ c i(2,3) u _ _ i(4) v(2,1),
      where s = exNewDb and now = 0 and cap = 5 and res = res and ?s1.0 = s1 and fuel = 9 and
        blob = "''hello''" and bcap = 0] r i
  show ?thesis by (simp add: exRedis_def int64_def)
qed

end
