(* ===== verification/Server_Boot.thy ===== *)
theory Server_Boot
  imports Transport_Pairing Store_Registry
begin

text \<open>
  The server command (\<open>src/cmd/doublethink/serve.go\<close>): from the flags and the environment to
  a running server, and the sweeper. The flags are taken as parsed.
\<close>

record serveFlags =
  f_addr :: string
  f_allowedOrigins :: string
  f_redisAddr :: string
  f_sweep :: int \<comment> \<open>nanoseconds\<close>

definition defaultRedisAddr :: "(string \<Rightarrow> string) \<Rightarrow> string" where
  "defaultRedisAddr getenv =
     (let x = getenv ''DOUBLETHINK_REDIS_ADDR'' in if x \<noteq> '''' then x else ''127.0.0.1:6379'')"

definition defaultFlags :: "(string \<Rightarrow> string) \<Rightarrow> serveFlags" where
  "defaultFlags getenv = \<lparr>f_addr = '':8080'', f_allowedOrigins = '''',
     f_redisAddr = defaultRedisAddr getenv, f_sweep = 60 * second\<rparr>"

text \<open>\<open>strings.Split(s, ",")\<close>\<close>

fun splitComma :: "string \<Rightarrow> string list" where
  "splitComma [] = [[]]"
| "splitComma (c # s) = (if c = CHR '','' then [] # splitComma s
     else (case splitComma s of [] \<Rightarrow> [[c]] | w # ws \<Rightarrow> (c # w) # ws))"

definition parseOrigins :: "string \<Rightarrow> string list" where
  "parseOrigins s = filter (\<lambda>o'. o' \<noteq> '''') (List.map trimSpace (splitComma s))"

text \<open>The start of \<open>runServe\<close>, up to the server that serves requests; \<open>Inl\<close> the error it
  returns.\<close>

datatype boot_error = NoRedis string store_error | NoChannels store_error

definition runServe :: "rounding \<Rightarrow> 'r redis \<Rightarrow> (string \<Rightarrow> string) \<Rightarrow> serveFlags \<Rightarrow> 'r \<Rightarrow>
    boot_error + 'r server" where
  "runServe fl R getenv flags s =
     (case run R storeOpen s of
        (Inl e, s) \<Rightarrow> Inl (NoRedis (f_redisAddr flags) e)
      | (Inr _, s) \<Rightarrow>
          (case run R AllChannelKAuth s of
             (Inl e, s) \<Rightarrow> Inl (NoChannels e)
           | (Inr kauths, s) \<Rightarrow>
               Inr (NewWithConfig fl
                 \<lparr>cfg_lim = DefaultLimits, cfg_allowed = parseOrigins (f_allowedOrigins flags),
                  cfg_admin = Some (fst (FromEnv getenv))\<rparr>
                 newBroker (Load kauths NewRegistry) (Some s))))"

text \<open>\<open>runSweeper\<close>: the interval it uses, and what it does at each tick.\<close>

definition sweepEvery :: "int \<Rightarrow> int" where
  "sweepEvery every = (if every \<le> 0 then 60 * second else every)"

definition sweepTick :: "'r env \<Rightarrow> 'r server \<Rightarrow> int \<times> 'r server" where
  "sweepTick E sv = (case callStore E (PruneExpired (v_unix E)) sv of
       (Some (Inr n), sv) \<Rightarrow> (n, sv)
     | (_, sv) \<Rightarrow> (0, sv))"

subsection \<open>Boot\<close>

lemma boot_runs:
  assumes "redis_ok R" "link_up R" "asSet (kv (r_db R s) chansSet) \<noteq> None"
    and "\<forall>i\<in>channelsIn (r_db R s). kauthIs (r_db R s) i (f i)"
  obtains s2 where "runServe fl R getenv flags s = Inr (NewWithConfig fl
      \<lparr>cfg_lim = DefaultLimits, cfg_allowed = parseOrigins (f_allowedOrigins flags),
       cfg_admin = Some (fst (FromEnv getenv))\<rparr> newBroker
      (Load (\<lambda>i. if i \<in> channelsIn (r_db R s) then Some (f i) else None) NewRegistry) (Some s2))"
proof -
  obtain x s1 where o: "run R storeOpen s = (x, s1)" by (cases "run R storeOpen s")
  have "clean storeOpen (r_db R s) = {(Inr (), r_db R s)}"
    by (simp add: storeOpen_def clean_send det_def cmdDoc.simps)
  from run_cleanE [OF assms(1,2) this] o have x: "x = Inr ()" "r_db R s1 = r_db R s" by simp_all
  obtain y s2 where k: "run R AllChannelKAuth s1 = (y, s2)" by (cases "run R AllChannelKAuth s1")
  have "y = Inr (\<lambda>i. if i \<in> channelsIn (r_db R s) then Some (f i) else None)"
    using boot_keys_exact [OF assms(1,2), of s1 f] assms(3,4) x(2) k by simp
  then show thesis using that by (simp add: runServe_def o x(1) k)
qed





definition kaDb :: "string \<Rightarrow> db" where
  "kaDb ka = put chansSet (RSet [''c'']) (put (chKey ''c'') (RHash [(''k_auth'', ka)]) emptyDb)"


end
