(* ===== verification/Routes.thy ===== *)
theory Routes
  imports Transport_Live "HOL-Library.Word"
begin

text \<open>
  From a request to its handler: \<open>Handler\<close>'s cross-origin wrapper, the routes
  \<open>NewWithConfig\<close> registers on the \<open>http.ServeMux\<close>, the catch-all page, and the options of
  a WebSocket upgrade. Paths are those without percent escapes.
\<close>

subsection \<open>The mux\<close>

text \<open>\<open>ServeMux\<close> redirects a path that is not clean to its clean form, and a registered
  subtree named without its slash to the subtree.\<close>

fun splitSlash :: "string \<Rightarrow> string list" where
  "splitSlash [] = [[]]"
| "splitSlash (c # s) = (if c = CHR ''/'' then [] # splitSlash s
     else (case splitSlash s of [] \<Rightarrow> [[c]] | w # ws \<Rightarrow> (c # w) # ws))"

definition cleanSegment :: "string list \<Rightarrow> string \<Rightarrow> string list" where
  "cleanSegment acc w = (if w = '''' \<or> w = ''.'' then acc else if w = ''..'' then butlast acc else acc @ [w])"

definition cleanPath :: "string \<Rightarrow> string" where
  "cleanPath p =
     (if p = '''' then ''/''
      else (let segs = foldl cleanSegment [] (splitSlash p);
                np = concat (List.map (\<lambda>w. CHR ''/'' # w) segs)
            in if segs = [] then ''/''
               else if last p = CHR ''/'' then np @ ''/'' else np))"

datatype route = ToAccount | ToChannel | ToWS | ToPublish | ToSubscribe | ToStats
  | ToAdminLimit | ToAdminGrant | ToAdminChannels | ToHealthz | ToRoot | Redirect string

definition matchPath :: "string \<Rightarrow> route" where
  "matchPath p =
     (if p = ''/account'' then ToAccount
      else if p = ''/channel'' then ToChannel
      else if p = ''/ws'' then ToWS
      else if hasPrefix p ''/publish/'' then ToPublish
      else if hasPrefix p ''/subscribe/'' then ToSubscribe
      else if p = ''/stats'' then ToStats
      else if p = ''/admin/limit'' then ToAdminLimit
      else if p = ''/admin/grant'' then ToAdminGrant
      else if p = ''/admin/channels'' then ToAdminChannels
      else if p = ''/healthz'' then ToHealthz
      else ToRoot)"

definition muxRoute :: "string \<Rightarrow> string \<Rightarrow> route" where
  "muxRoute m path =
     (let p = (if m = ''CONNECT'' then path else cleanPath path) in
      if p = ''/publish'' \<or> p = ''/subscribe'' then Redirect (p @ ''/'')
      else if p \<noteq> path then Redirect p
      else matchPath p)"

subsection \<open>The catch-all page\<close>

definition rootBrushoffs :: "string list" where
  "rootBrushoffs = [
     ''Nothing to see here. doublethink is a machine API, not a website. Please go away.'',
     ''This is a message broker, not a web page. There is nothing here for a browser.'',
     ''You found the API. There is no front door. Move along.'',
     ''Go away. (Politely.) doublethink talks to programs, not people.'',
     ''No page here. If you were looking for the project, try the docs on GitHub.'',
     ''This endpoint speaks JSON and WebSockets, not HTML. Nothing for you to read.'',
     ''Wrong door. doublethink is plumbing, not a place to visit.'',
     ''Beep boop. I only speak to machines. You appear to be a human. Awkward.'',
     ''This is the back of the house. The kitchen. There is no menu. Shoo.'',
     ''You have reached a pipe. Pipes do not have home pages. Off you pop.'',
     ''404 and proud. doublethink is all plumbing, no lobby.'',
     ''A wild human appears! It is super ineffective. There is nothing here.'',
     ''The name? \"Doublethink\" is from George Orwell's Nineteen Eighty-Four (1949): holding two contradictory ideas at once and believing both. Fitting for a broker that proves you hold a secret while never seeing it.'',
     ''As Orwell put it in Nineteen Eighty-Four: \"Doublethink means the power of holding two contradictory beliefs in one's mind simultaneously, and accepting both of them.\" Anyway, no web page here.'']"

text \<open>\<open>rootBrushoffs[int(rootHits.Add(1)-1) % len(rootBrushoffs)]\<close>: the counter is unsigned,
  the index is signed and Go's remainder takes the sign of the dividend; \<open>None\<close> is the
  panic of an index out of range.\<close>

definition handleRoot :: "64 word \<Rightarrow> response option \<times> 64 word" where
  "handleRoot hits =
     (let hits' = hits + 1; i = sint (hits' - 1); n = int (length rootBrushoffs);
          k = sgn i * (\<bar>i\<bar> mod n)
      in (if 0 \<le> k then Some (httpError (rootBrushoffs ! nat k) 404) else None, hits'))"

lemma length_brushoffs: "length rootBrushoffs = 14"
  by (simp add: rootBrushoffs_def)

text \<open>
  Every page of the catch-all is one of the messages, in rotation, for the first
  \<open>2 ^ 63\<close> requests.
\<close>
theorem root_rotates:
  assumes "unat hits < 2 ^ 63"
  shows "handleRoot hits = (Some (httpError (rootBrushoffs ! (unat hits mod 14)) 404), hits + 1)"
proof -
  have "int (unat hits) < int (2 ^ 63)" using assms by (simp only: of_nat_less_iff)
  then have "uint hits < 2 ^ 63" by simp
  moreover have "- (2 ^ 63) \<le> uint hits" by (rule order.trans [OF _ uint_ge_0]) simp
  ultimately have i: "sint hits = int (unat hits)" by (simp add: sint_uint signed_take_bit_int_eq_self)
  define m where "m = unat hits"
  have "sgn (int m) * (\<bar>int m\<bar> mod int 14) = int (m mod 14)"
    by (cases "m = 0") (simp_all add: zmod_int)
  then show ?thesis
    by (simp add: handleRoot_def length_brushoffs Let_def i flip: m_def)
qed

theorem root_rotates_witness:
  "handleRoot 15 = (Some (httpError ''This is a message broker, not a web page. There is nothing here for a browser.'' 404), 16)"
  using root_rotates [of 15] by (simp add: rootBrushoffs_def)

subsection \<open>Upgrades\<close>

text \<open>\<open>websocket.AcceptOptions\<close>; \<open>urlHost\<close> is \<open>net/url\<close>: the host of a URL that parses.\<close>

record acceptOptions =
  ao_insecureSkipVerify :: bool
  ao_originPatterns :: "string list"

definition wsAcceptOptions :: "(string \<Rightarrow> string option) \<Rightarrow> 'r server \<Rightarrow> acceptOptions" where
  "wsAcceptOptions urlHost sv =
     (if s_allowed sv = [] then \<lparr>ao_insecureSkipVerify = True, ao_originPatterns = []\<rparr>
      else \<lparr>ao_insecureSkipVerify = False,
            ao_originPatterns = concat (List.map (\<lambda>a. case urlHost a of
                None \<Rightarrow> [] | Some h \<Rightarrow> if h = '''' then [] else [h]) (s_allowed sv))\<rparr>)"

subsection \<open>Serving a request\<close>

datatype served = Plain response | Moved string | Stream sse | Socket wsStart | Panicked

text \<open>One request through \<open>Handler\<close>: the CORS headers, and what is served. \<open>accept\<close> is the
  WebSocket library's verdict on the upgrade under the given options.\<close>

definition serveHTTP :: "(string \<Rightarrow> string option) \<Rightarrow> 'r env \<Rightarrow> (acceptOptions \<Rightarrow> bool) \<Rightarrow> frame \<Rightarrow>
    (string \<Rightarrow> frame) \<Rightarrow> nat \<Rightarrow> request \<Rightarrow> 64 word \<times> 'r server \<Rightarrow>
    (string \<times> string) list \<times> served \<times> 64 word \<times> 'r server" where
  "serveHTTP urlHost E accept hello peer wok r st = (case st of (hits, sv) \<Rightarrow>
     (let hs = corsHeaders r sv;
          plain = (\<lambda>(p, sv). (hs, Plain p, hits, sv))
      in if preflight r then (hs, Plain \<lparr>p_status = 204, p_body = BNone\<rparr>, hits, sv)
         else (case muxRoute (q_method r) (q_path r) of
             ToAccount \<Rightarrow> plain (handleCreateAccount E r sv)
           | ToChannel \<Rightarrow> plain (handleCreateChannel E r sv)
           | ToWS \<Rightarrow> (case handleWS E r (accept (wsAcceptOptions urlHost sv)) hello peer wok sv of
               (u, sv) \<Rightarrow> (hs, Socket u, hits, sv))
           | ToPublish \<Rightarrow> plain (handlePublicPublish E r sv)
           | ToSubscribe \<Rightarrow> (case handlePublicSubscribe E r wok sv of (y, sv) \<Rightarrow> (hs, Stream y, hits, sv))
           | ToStats \<Rightarrow> plain (handleStats E r sv)
           | ToAdminLimit \<Rightarrow> plain (handleAdminLimit E r sv)
           | ToAdminGrant \<Rightarrow> plain (handleAdminGrant E r sv)
           | ToAdminChannels \<Rightarrow> plain (handleAdminChannels E r sv)
           | ToHealthz \<Rightarrow> (hs, Plain \<lparr>p_status = 200, p_body = BText ''ok''\<rparr>, hits, sv)
           | ToRoot \<Rightarrow> (case handleRoot hits of
               (Some p, hits) \<Rightarrow> (hs, Plain p, hits, sv)
             | (None, hits) \<Rightarrow> (hs, Panicked, hits, sv))
           | Redirect p \<Rightarrow> (hs, Moved p, hits, sv))))"


text \<open>
  Cross-origin access: a browser origin is granted everything when the deployment is
  open, itself when it is on the allow-list, and nothing otherwise; WebSocket upgrades
  skip the origin check exactly when the deployment is open; and a preflight is answered
  without reaching any handler.
\<close>
theorem cors_exact:
  "map_of (fst (serveHTTP urlHost E accept hello peer wok r (hits, sv))) ''Access-Control-Allow-Origin'' =
     (if q_origin r = '''' then None else if s_allowed sv = [] then Some ''*''
      else if q_origin r \<in> set (s_allowed sv) then Some (q_origin r) else None) \<and>
   (ao_insecureSkipVerify (wsAcceptOptions urlHost sv) \<longleftrightarrow> s_allowed sv = []) \<and>
   snd (snd (serveHTTP urlHost E accept hello peer wok (r\<lparr>q_method := ''OPTIONS''\<rparr>) (hits, sv))) = (hits, sv)"
proof -
  have "fst (serveHTTP urlHost E accept hello peer wok r (hits, sv)) = corsHeaders r sv"
    by (simp add: serveHTTP_def Let_def split: route.split prod.split option.split)
  moreover have "map_of (corsHeaders r sv) ''Access-Control-Allow-Origin'' =
     (if q_origin r = '''' then None else if s_allowed sv = [] then Some ''*''
      else if q_origin r \<in> set (s_allowed sv) then Some (q_origin r) else None)"
    by (auto simp: corsHeaders_def Let_def originAllowed_def list_ex_iff)
  moreover have "ao_insecureSkipVerify (wsAcceptOptions urlHost sv) \<longleftrightarrow> s_allowed sv = []"
    by (simp add: wsAcceptOptions_def)
  moreover have "snd (snd (serveHTTP urlHost E accept hello peer wok (r\<lparr>q_method := ''OPTIONS''\<rparr>) (hits, sv))) = (hits, sv)"
    by (simp add: serveHTTP_def Let_def preflight_def)
  ultimately show ?thesis by simp
qed

lemma route_open:
  "muxRoute m p = ToPublish \<Longrightarrow> hasPrefix p ''/publish/''"
  "muxRoute m p = ToSubscribe \<Longrightarrow> hasPrefix p ''/subscribe/''"
  by (auto simp: muxRoute_def matchPath_def Let_def split: if_splits)

end
