(* ===== verification/Server_Run.thy ===== *)
theory Server_Run
  imports Server_Boot Routes
begin

text \<open>
  The whole program: from boot through any number of requests. Serving a request is a step of
  the server's transition relation, so what holds in every execution holds of the running
  program.
\<close>






end
