(* ===== verification/Client_Commands.thy ===== *)
theory Client_Commands
  imports Transport_Pairing
begin

text \<open>
  The client commands (\<open>src/cmd/doublethink\<close>): what they send to the broker and what they
  print. Flags are taken as parsed; the network is a function from the request to the answer;
  a command yields the error it returns or the text it prints.
\<close>

subsection \<open>Talking to the broker (\<open>clientutil.go\<close>)\<close>

record cliReq =
  c_method :: string
  c_url :: string
  c_headers :: "(string \<times> string) list"
  c_body :: "(string \<times> jout) list option"

datatype netReply = BadURL string | Unreachable string | Answer nat string bytes
  \<comment> \<open>status code, status line, body\<close>

type_synonym net = "cliReq \<Rightarrow> netReply"

definition trimRightSlash :: "string \<Rightarrow> string" where
  "trimRightSlash s = rev (dropWhile (\<lambda>c. c = CHR ''/'') (rev s))"

definition exchange :: "net \<Rightarrow> string \<Rightarrow> cliReq \<Rightarrow> string + bytes" where
  "exchange net server req =
     (case net req of
        BadURL e \<Rightarrow> Inl e
      | Unreachable e \<Rightarrow> Inl (''contacting broker at '' @ server @ '': '' @ e @ '' (is it running?)'')
      | Answer st line body \<Rightarrow>
          if st \<noteq> 200 then Inl (line @ '': '' @ trimSpace body) else Inr body)"

definition getJSONAuth :: "net \<Rightarrow> string \<Rightarrow> string \<Rightarrow> (string \<times> string) list \<Rightarrow> string + bytes" where
  "getJSONAuth net server path headers =
     exchange net server \<lparr>c_method = ''GET'', c_url = trimRightSlash server @ path,
       c_headers = headers, c_body = None\<rparr>"

definition postRequest :: "string \<Rightarrow> string \<Rightarrow> (string \<times> jout) list \<Rightarrow> (string \<times> string) list \<Rightarrow> cliReq" where
  "postRequest server path body headers =
     \<lparr>c_method = ''POST'', c_url = trimRightSlash server @ path,
      c_headers = (''Content-Type'', ''application/json'') # headers, c_body = Some body\<rparr>"

definition postJSONAuth :: "net \<Rightarrow> string \<Rightarrow> string \<Rightarrow> (string \<times> jout) list \<Rightarrow> (string \<times> string) list \<Rightarrow> string + bytes" where
  "postJSONAuth net server path body headers =
     exchange net server (postRequest server path body headers)"

definition postJSON :: "net \<Rightarrow> string \<Rightarrow> string \<Rightarrow> (string \<times> jout) list \<Rightarrow> string + bytes" where
  "postJSON net server path body = postJSONAuth net server path body []"

definition nl :: string where "nl = [char_of (10::nat)]"
definition tab :: string where "tab = [char_of (9::nat)]"

text \<open>\<open>%q\<close>, for text without characters that need escaping.\<close>

definition quoted :: "string \<Rightarrow> string" where
  "quoted s = [char_of (34::nat)] @ s @ [char_of (34::nat)]"

definition wrapErr :: "string \<Rightarrow> string + 'a \<Rightarrow> string + 'a" where
  "wrapErr ctx r = (case r of Inl e \<Rightarrow> Inl (ctx @ '': '' @ e) | Inr v \<Rightarrow> Inr v)"

text \<open>Binding an answer to a struct of the command's.\<close>

definition decodeAnswer :: "json_reader \<Rightarrow> string list \<Rightarrow> (string \<Rightarrow> jval \<Rightarrow> 'r \<Rightarrow> 'r option) \<Rightarrow> 'r \<Rightarrow> bytes \<Rightarrow> string + 'r" where
  "decodeAnswer jr names set1 zero b =
     (case Option.bind (jr b) (bindDoc names set1 zero) of
        None \<Rightarrow> Inl ''invalid JSON'' | Some r \<Rightarrow> Inr r)"

subsection \<open>\<open>account create\<close>\<close>

record accountAnswer =
  an_account :: string
  an_apiKey :: string

definition setAccount :: "string \<Rightarrow> jval \<Rightarrow> accountAnswer \<Rightarrow> accountAnswer option" where
  "setAccount f v r = (if f = ''account'' then bindString an_account_update v r else bindString an_apiKey_update v r)"

definition accountText :: "bool \<Rightarrow> accountAnswer \<Rightarrow> string" where
  "accountText brief r =
     (if brief then an_account r @ tab @ an_apiKey r @ nl
      else ''created account:'' @ nl @
        ''  account: '' @ an_account r @ nl @
        ''  api key: '' @ an_apiKey r @ nl @ nl @
        ''Keep the API key secret; it is shown only once and the broker stores only a'' @ nl @
        ''hash of it. Use it to create retained channels:'' @ nl @
        ''  doublethink channel create --retain --account '' @ an_account r @ '' --api-key '' @ an_apiKey r @ nl)"

definition runAccount :: "json_reader \<Rightarrow> net \<Rightarrow> string list \<Rightarrow> string \<Rightarrow> bool \<Rightarrow> string + string" where
  "runAccount jr net args server brief =
     (if args = [] \<or> hd args \<noteq> ''create'' then Inl ''usage: doublethink account create [flags]''
      else (case wrapErr ''creating account'' (case postJSON net server ''/account'' [] of
              Inl e \<Rightarrow> Inl e
            | Inr b \<Rightarrow> decodeAnswer jr [''account'', ''api_key''] setAccount \<lparr>an_account = '''', an_apiKey = ''''\<rparr> b) of
          Inl e \<Rightarrow> Inl e
        | Inr r \<Rightarrow> Inr (accountText brief r)))"

subsection \<open>\<open>channel create\<close>\<close>

record channelFlags =
  cf_server :: string
  cf_prefix :: string
  cf_channel :: string
  cf_retain :: bool
  cf_account :: string
  cf_apiKey :: string
  cf_ttlSec :: int
  cf_ticket :: string
  cf_quiet :: bool

definition lower :: "char \<Rightarrow> char" where
  "lower c = (if 65 \<le> code c \<and> code c \<le> 90 then char_of (code c + 32) else c)"

definition randomChannelID :: "bytes option \<Rightarrow> string \<Rightarrow> string + string" where
  "randomChannelID rand pre = (case rand of
       None \<Rightarrow> Inl ''entropy''
     | Some raw \<Rightarrow>
         (let enc = List.map lower (b32encode raw)
          in Inr (if pre \<noteq> '''' then pre @ ''/'' @ enc else enc)))"

definition authHeaders :: "channelFlags \<Rightarrow> (string \<times> string) list" where
  "authHeaders f = [(''Authorization'', ''Bearer '' @ cf_apiKey f), (''X-Doublethink-Account'', cf_account f)]"

definition channelBody :: "channelFlags \<Rightarrow> string \<Rightarrow> string \<Rightarrow> (string \<times> jout) list" where
  "channelBody f i authKey =
     [(''channel'', OStr i), (''auth_key'', OStr authKey), (''retain'', OBool (cf_retain f))] @
     (if cf_ticket f \<noteq> '''' then [(''ticket'', OStr (cf_ticket f))]
      else if cf_retain f then [(''ttl_sec'', OInt (cf_ttlSec f))] else [])"

definition channelHeaders :: "channelFlags \<Rightarrow> (string \<times> string) list" where
  "channelHeaders f =
     (if cf_ticket f \<noteq> '''' then (if cf_account f \<noteq> '''' \<and> cf_apiKey f \<noteq> '''' then authHeaders f else [])
      else if cf_retain f then authHeaders f else [])"

definition channelText :: "channelFlags \<Rightarrow> string \<Rightarrow> string \<Rightarrow> string" where
  "channelText f i secret =
     (if cf_quiet f then i @ tab @ secret @ nl
      else (let kind = (if cf_ticket f \<noteq> '''' then ''permanent / admin-granted (retained)''
              else if cf_retain f then ''retained (offline peers can catch up)'' else ''ephemeral (online-only)'')
        in ''created private channel ('' @ kind @ ''):'' @ nl @
          ''  channel: '' @ i @ nl @
          ''  secret:  '' @ secret @ nl @ nl @
          ''Share the secret with the other party over a trusted channel. Anyone who'' @ nl @
          ''holds it can join and read this channel; the broker never sees it and cannot'' @ nl @
          ''read your messages. Both parties connect to the channel using this secret.'' @ nl))"

definition ccText :: "cc_error \<Rightarrow> string" where
  "ccText e = (case e of InvalidSecret \<Rightarrow> ''invalid channel secret'' | _ \<Rightarrow> ''generating channel secret'')"

definition runChannel :: "prims \<Rightarrow> bytes option \<Rightarrow> bytes option \<Rightarrow> net \<Rightarrow> string list \<Rightarrow> channelFlags \<Rightarrow> string + string" where
  "runChannel P idRand secretRand net args f =
     (if args = [] \<or> hd args \<noteq> ''create'' then Inl ''usage: doublethink channel create [flags]''
      else if cf_retain f \<and> cf_ticket f = '''' \<and> (cf_account f = '''' \<or> cf_apiKey f = '''') then
        Inl ''--retain requires --account and --api-key (run 'doublethink account create'), or use --ticket''
      else (case (if cf_channel f \<noteq> '''' then Inr (cf_channel f) else randomChannelID idRand (cf_prefix f)) of
          Inl e \<Rightarrow> Inl e
        | Inr i \<Rightarrow>
            (case GenerateSecret secretRand of
               Inl e \<Rightarrow> Inl (ccText e)
             | Inr secret \<Rightarrow>
                 (case RegistrationKey P secret of
                    Inl e \<Rightarrow> Inl (ccText e)
                  | Inr authKey \<Rightarrow>
                      (case wrapErr ''creating channel'' (postJSONAuth net (cf_server f) ''/channel''
                          (channelBody f i authKey) (channelHeaders f)) of
                         Inl e \<Rightarrow> Inl e
                       | Inr _ \<Rightarrow> Inr (channelText f i secret))))))"

subsection \<open>\<open>admin\<close>\<close>

record adminFlags =
  af_server :: string
  af_adminKey :: string
  af_channel :: string
  af_ttlSec :: int
  af_maxBytes :: int
  af_maxMsgs :: int
  af_expirySec :: int

definition adminKeyFlag :: "(string \<Rightarrow> string) \<Rightarrow> string" where
  "adminKeyFlag getenv = getenv ''DOUBLETHINK_ADMIN_KEY''"

definition bearerHeader :: "string \<Rightarrow> (string \<times> string) list" where
  "bearerHeader key = [(''Authorization'', ''Bearer '' @ key)]"

definition runAdminSetLimit :: "net \<Rightarrow> adminFlags \<Rightarrow> string + string" where
  "runAdminSetLimit net f =
     (if af_channel f = '''' \<or> af_adminKey f = '''' then Inl ''--channel and an admin key are required''
      else (case wrapErr ''setting limit'' (postJSONAuth net (af_server f) ''/admin/limit''
            [(''channel'', OStr (af_channel f)), (''ttl_sec'', OInt (af_ttlSec f)),
             (''max_bytes'', OInt (af_maxBytes f)), (''max_msgs'', OInt (af_maxMsgs f))]
            (bearerHeader (af_adminKey f))) of
          Inl e \<Rightarrow> Inl e
        | Inr _ \<Rightarrow> Inr (''updated limits for channel '' @ af_channel f @ nl)))"

record grantAnswer =
  an_ticket :: string
  an_expirySec :: int

definition setGrantAnswer :: "string \<Rightarrow> jval \<Rightarrow> grantAnswer \<Rightarrow> grantAnswer option" where
  "setGrantAnswer f v r = (if f = ''ticket'' then bindString an_ticket_update v r else bindInt an_expirySec_update v r)"

text \<open>Go's division truncates towards zero.\<close>

definition minutes :: "int \<Rightarrow> int" where
  "minutes n = sgn n * (\<bar>n\<bar> div 60)"

definition grantText :: "adminFlags \<Rightarrow> grantAnswer \<Rightarrow> string" where
  "grantText f r =
     ''grant ticket (single use, valid '' @ itoa (minutes (an_expirySec r)) @ '' minutes to redeem):'' @ nl @
     ''  '' @ an_ticket r @ nl @ nl @
     ''give the ticket to the user. They create the channel with it AND their own secret:'' @ nl @
     ''  doublethink channel create --channel '' @ af_channel f @ '' --ticket '' @ an_ticket r @ nl @
     ''(you, the admin, never see their secret.)'' @ nl"

definition runAdminGrant :: "json_reader \<Rightarrow> net \<Rightarrow> adminFlags \<Rightarrow> string + string" where
  "runAdminGrant jr net f =
     (if af_channel f = '''' \<or> af_adminKey f = '''' then Inl ''--channel (id or prefix/*) and an admin key are required''
      else (case wrapErr ''issuing grant'' (case postJSONAuth net (af_server f) ''/admin/grant''
            [(''channel_match'', OStr (af_channel f)), (''ttl_sec'', OInt (af_ttlSec f)),
             (''max_bytes'', OInt (af_maxBytes f)), (''max_msgs'', OInt (af_maxMsgs f)),
             (''expiry_sec'', OInt (af_expirySec f))]
            (bearerHeader (af_adminKey f)) of
              Inl e \<Rightarrow> Inl e
            | Inr b \<Rightarrow> decodeAnswer jr [''ticket'', ''expiry_sec''] setGrantAnswer \<lparr>an_ticket = '''', an_expirySec = 0\<rparr> b) of
          Inl e \<Rightarrow> Inl e
        | Inr r \<Rightarrow> Inr (grantText f r)))"

text \<open>\<open>indent\<close> is the generic decoding of the answer and its printing with indentation.\<close>

definition runAdminChannels :: "(bytes \<Rightarrow> string + string) \<Rightarrow> net \<Rightarrow> adminFlags \<Rightarrow> string + string" where
  "runAdminChannels indent net f =
     (if af_adminKey f = '''' then Inl ''an admin key is required''
      else (case wrapErr ''listing channels'' (case getJSONAuth net (af_server f) ''/admin/channels''
            (bearerHeader (af_adminKey f)) of Inl e \<Rightarrow> Inl e | Inr b \<Rightarrow> indent b) of
          Inl e \<Rightarrow> Inl e
        | Inr t \<Rightarrow> Inr (t @ nl)))"

definition runAdmin :: "(string list \<Rightarrow> adminFlags) \<Rightarrow> json_reader \<Rightarrow> (bytes \<Rightarrow> string + string) \<Rightarrow> net \<Rightarrow> string list \<Rightarrow> string + string" where
  "runAdmin parse jr indent net args =
     (case args of
        [] \<Rightarrow> Inl ''usage: doublethink admin <set-limit|grant|channels> [flags]''
      | a # rest \<Rightarrow>
          if a = ''set-limit'' then runAdminSetLimit net (parse rest)
          else if a = ''grant'' then runAdminGrant jr net (parse rest)
          else if a = ''channels'' then runAdminChannels indent net (parse rest)
          else Inl (''unknown admin subcommand '' @ quoted a @ '' (set-limit|grant|channels)''))"

subsection \<open>\<open>main\<close>\<close>

text \<open>The disclaimer and the usage text, line by line.\<close>

definition disclaimer :: "string list" where
  "disclaimer = [
     ''doublethink is provided AS IS, WITHOUT WARRANTY OF ANY KIND. It carries other'',
     ''parties' private traffic and enforces access to it; you alone are responsible for'',
     ''how you deploy and secure it and for the data that flows through it. The author'',
     ''and contributors are NOT LIABLE for any harm, data loss, data exposure, or'',
     ''security incident, however caused. No security mechanism is perfect. If you do not'',
     ''accept these terms, do not run this software.'']"

definition usage :: string where
  "usage = concat (List.map (\<lambda>l. l @ nl) ([
     ''doublethink: a secure pub/sub broker, ntfy-easy with real private channels.'',
     '''',
     ''Usage:'',
     ''  doublethink serve [flags]             run the broker'',
     ''  doublethink account create [flags]    create an account; prints an API key (needed for retained channels)'',
     ''  doublethink channel create [flags]    create a private channel; prints its shared secret'',
     ''                                        (--ticket redeems an admin grant for a permanent channel)'',
     ''  doublethink admin grant [flags]       (operator) issue a single-use ticket for a permanent / over-default channel'',
     ''  doublethink admin set-limit [flags]   (operator) raise an existing channel's retention limits'',
     ''  doublethink admin channels [flags]    (operator) list channel metadata (no secrets)'',
     '''',
     ''To use a private channel, both parties connect to it with the shared secret. The'',
     ''secret is the gate: whoever holds it can join, and no one else can. Share it over a'',
     ''trusted channel; the broker never sees it. A retained channel (messages stored for'',
     ''an offline peer to catch up) requires an account API key and counts against quota.'',
     ''A permanent channel is pre-authorized by an operator grant; the user redeems the'',
     ''grant ticket with their own secret, so the operator never sees the secret.'',
     '''',
     ''Run \"doublethink <command> -h\" for command flags.'', ''''] @ disclaimer))"


datatype exit = ExitOk string | ExitFailed nat string

text \<open>\<open>main\<close> with its four commands as arguments; a usage error exits with 2, a command's
  error with 1.\<close>

definition mainRun :: "(string list \<Rightarrow> string + string) \<Rightarrow> (string list \<Rightarrow> string + string) \<Rightarrow>
    (string list \<Rightarrow> string + string) \<Rightarrow> (string list \<Rightarrow> string + string) \<Rightarrow> string list \<Rightarrow> exit" where
  "mainRun serve account channel admin argv =
     (case argv of
        [] \<Rightarrow> ExitFailed 2 usage
      | [_] \<Rightarrow> ExitFailed 2 usage
      | _ # cmd # rest \<Rightarrow>
          (let finish = (\<lambda>r. case r of Inl e \<Rightarrow> ExitFailed 1 (''doublethink: '' @ e @ nl) | Inr t \<Rightarrow> ExitOk t) in
           if cmd = ''serve'' then finish (serve rest)
           else if cmd = ''account'' then finish (account rest)
           else if cmd = ''channel'' then finish (channel rest)
           else if cmd = ''admin'' then finish (admin rest)
           else if cmd \<in> {''-h'', ''--help'', ''help''} then ExitOk usage
           else ExitFailed 2 (''unknown command '' @ quoted cmd @ nl @ nl @ usage)))"


subsection \<open>What the commands do\<close>

lemma generated_secret:
  assumes "GenerateSecret rand = Inr secret" "\<And>raw. rand = Some raw \<Longrightarrow> 16 \<le> length raw"
  shows "\<exists>k. AuthKey P secret = Inr k \<and> RegistrationKey P secret = Inr (b32encode k)"
proof -
  obtain raw where "rand = Some raw" "secret = b32encode raw"
    using assms(1) by (auto simp: GenerateSecret_def split: option.splits)
  then have "decodeSecret secret = Inr raw" using assms(2) by (simp add: decodeSecret_def b32.dec_enc)
  then show ?thesis by (simp add: AuthKey_def RegistrationKey_def)
qed

definition channelIdOf :: "bytes option \<Rightarrow> channelFlags \<Rightarrow> string" where
  "channelIdOf rand f = (if cf_channel f \<noteq> '''' then cf_channel f
     else (case randomChannelID rand (cf_prefix f) of Inl _ \<Rightarrow> '''' | Inr i \<Rightarrow> i))"

lemma runChannel_Inr:
  assumes "runChannel P idRand secretRand net args f = Inr out"
    and "\<And>raw. secretRand = Some raw \<Longrightarrow> 16 \<le> length raw"
  obtains secret k line body where "GenerateSecret secretRand = Inr secret" "AuthKey P secret = Inr k"
    "RegistrationKey P secret = Inr (b32encode k)" "out = channelText f (channelIdOf idRand f) secret"
    "net (postRequest (cf_server f) ''/channel'' (channelBody f (channelIdOf idRand f) (b32encode k)) (channelHeaders f))
       = Answer 200 line body"
proof -
  obtain secret where s: "GenerateSecret secretRand = Inr secret"
    using assms(1) by (auto simp: runChannel_def split: if_splits sum.splits)
  obtain k where k: "AuthKey P secret = Inr k" "RegistrationKey P secret = Inr (b32encode k)"
    using generated_secret [OF s assms(2)] by blast
  have i: "(if cf_channel f \<noteq> '''' then Inr (cf_channel f) else randomChannelID idRand (cf_prefix f)) =
      Inr (channelIdOf idRand f)"
    using assms(1) by (auto simp: runChannel_def channelIdOf_def split: if_splits sum.splits)
  let ?q = "postRequest (cf_server f) ''/channel'' (channelBody f (channelIdOf idRand f) (b32encode k)) (channelHeaders f)"
  have "out = channelText f (channelIdOf idRand f) secret \<and> (\<exists>line body. net ?q = Answer 200 line body)"
    using assms(1) unfolding runChannel_def i
    by (auto simp: s k wrapErr_def postJSONAuth_def exchange_def split: if_splits sum.splits netReply.splits)
  then show thesis using that s k by blast
qed



definition exFlags :: channelFlags where
  "exFlags = \<lparr>cf_server = ''http://h'', cf_prefix = '''', cf_channel = ''t'', cf_retain = False,
     cf_account = '''', cf_apiKey = '''', cf_ttlSec = 0, cf_ticket = '''', cf_quiet = True\<rparr>"


end
