(* ===== verification/Public_Client.thy ===== *)
theory Public_Client
  imports Client_Crypto
begin

text \<open>
  The public client library (\<open>src/pkg/clientcrypto\<close>): aliases of the internal types and
  functions, so that other programs use the one implementation.
\<close>

type_synonym Session = session
type_synonym BoxKeypair = boxKeypair

definition RoleA :: string where "RoleA = ''a''"
definition RoleB :: string where "RoleB = ''b''"
definition KeySize :: nat where "KeySize = keySize"
definition BoxPublicKeySize :: nat where "BoxPublicKeySize = 32"
definition BoxPrivateKeySize :: nat where "BoxPrivateKeySize = 32"

definition pubGenerateSecret :: "bytes option \<Rightarrow> cc_error + string" where
  "pubGenerateSecret rand = GenerateSecret rand"

definition pubRegistrationKey :: "prims \<Rightarrow> string \<Rightarrow> cc_error + string" where
  "pubRegistrationKey P secret = RegistrationKey P secret"

definition pubAuthKey :: "prims \<Rightarrow> string \<Rightarrow> cc_error + bytes" where
  "pubAuthKey P secret = AuthKey P secret"

definition pubChallengeResponse :: "prims \<Rightarrow> string \<Rightarrow> bytes \<Rightarrow> cc_error + bytes" where
  "pubChallengeResponse P secret challenge = ChallengeResponse P secret challenge"

definition pubNewSession :: "prims \<Rightarrow> string \<Rightarrow> string \<Rightarrow> cc_error + Session" where
  "pubNewSession P secret role = NewSession P secret role"

definition pubGenerateBoxKeypair :: "prims \<Rightarrow> bytes option \<Rightarrow> cc_error + BoxKeypair" where
  "pubGenerateBoxKeypair P rand = GenerateBoxKeypair P rand"

definition pubSealTo :: "prims \<Rightarrow> bytes option \<Rightarrow> bytes \<Rightarrow> bytes \<Rightarrow> cc_error + bytes" where
  "pubSealTo P rand recipientPub msg = SealTo P rand recipientPub msg"

definition pubOpenSealed :: "prims \<Rightarrow> BoxKeypair \<Rightarrow> bytes \<Rightarrow> bytes option" where
  "pubOpenSealed P kp blob = OpenSealed P kp blob"

text \<open>
  Sealed boxes of the public library: what anyone seals to a generated public key, the
  holder of the pair opens to the same message, whatever randomness either side used.
\<close>
theorem sealed_box_roundtrip:
  assumes "prims_ok P" "pubGenerateBoxKeypair P (Some r) = Inr kp"
    and "pubSealTo P (Some r') (kp_Public kp) m = Inr c"
  shows "pubOpenSealed P kp c = Some m"
proof -
  obtain pub priv where g: "p_genKey P r = (pub, priv)" by (cases "p_genKey P r")
  have "\<forall>r m r'. case p_genKey P r of (pub, priv) \<Rightarrow> p_openAnon P pub priv (p_sealAnon P pub m r') = Some m"
    using assms(1) by (simp add: prims_ok_def)
  from this [rule_format, of m r' r] g have "p_openAnon P pub priv (p_sealAnon P pub m r') = Some m" by simp
  then show ?thesis using assms(2,3) g
    by (auto simp: pubGenerateBoxKeypair_def GenerateBoxKeypair_def pubSealTo_def SealTo_def
        pubOpenSealed_def OpenSealed_def)
qed

theorem sealed_box_roundtrip_witness:
  "pubOpenSealed xorPrims \<lparr>kp_Public = ''key'', kp_Private = ''key''\<rparr> ''keyhi'' = Some ''hi''"
  by (rule sealed_box_roundtrip [OF xorPrims_ok, of "''key''" _ "''x''"])
    (simp_all add: pubGenerateBoxKeypair_def GenerateBoxKeypair_def pubSealTo_def SealTo_def xorPrims_def)

end
