(* ===== verification/Json_Text.thy ===== *)
theory Json_Text
  imports Envelope
begin

text \<open>
  The strings of \<open>encoding/json\<close>: UTF-8 as \<open>unicode/utf8\<close> reads it, quoting as \<open>json.Marshal\<close>
  writes it (with HTML escaping, the default) and unquoting as the decoder does.
\<close>

subsection \<open>UTF-8\<close>

definition isCont :: "char \<Rightarrow> bool" where
  "isCont c \<longleftrightarrow> 128 \<le> code c \<and> code c \<le> 191"

text \<open>The range of the second byte after a given first byte.\<close>

definition secondLo :: "nat \<Rightarrow> nat" where
  "secondLo x = (if x = 224 then 160 else if x = 240 then 144 else 128)"

definition secondHi :: "nat \<Rightarrow> nat" where
  "secondHi x = (if x = 237 then 159 else if x = 244 then 143 else 191)"

text \<open>How many bytes a rune with the given first byte has, 0 when none begins with it.\<close>

definition runeBytes :: "nat \<Rightarrow> nat" where
  "runeBytes x = (if x < 128 then 1 else if 194 \<le> x \<and> x \<le> 223 then 2
     else if 224 \<le> x \<and> x \<le> 239 then 3 else if 240 \<le> x \<and> x \<le> 244 then 4 else 0)"

text \<open>\<open>utf8.DecodeRune\<close>: the number of bytes of the rune at the front, \<open>None\<close> when it is
  invalid (the decoder then consumes one byte and yields U+FFFD).\<close>

definition secondOk :: "nat \<Rightarrow> bytes \<Rightarrow> bool" where
  "secondOk x t = (case t of [] \<Rightarrow> True | y # _ \<Rightarrow> secondLo x \<le> code y \<and> code y \<le> secondHi x)"

definition runeLen :: "bytes \<Rightarrow> nat option" where
  "runeLen s = (case s of
       [] \<Rightarrow> None
     | c # t \<Rightarrow>
         (let k = runeBytes (code c); u = take (k - 1) t in
          if 0 < k \<and> length u = k - 1 \<and> list_all isCont u \<and> secondOk (code c) u then Some k else None))"

definition replacement :: bytes where
  "replacement = ascii [239, 191, 189]"

text \<open>\<open>utf8.AppendRune\<close>\<close>

definition encodeRune :: "nat \<Rightarrow> bytes" where
  "encodeRune r =
     (if r < 128 then ascii [r]
      else if r < 2048 then ascii [192 + r div 64, 128 + r mod 64]
      else if 55296 \<le> r \<and> r \<le> 57343 \<or> 1114111 < r then replacement
      else if r < 65536 then ascii [224 + r div 4096, 128 + r div 64 mod 64, 128 + r mod 64]
      else ascii [240 + r div 262144, 128 + r div 4096 mod 64, 128 + r div 64 mod 64, 128 + r mod 64])"

text \<open>What a string reads as once invalid bytes are replaced.\<close>

function toValid :: "bytes \<Rightarrow> bytes" where
  "toValid [] = []"
| "toValid (c # s) =
     (case runeLen (c # s) of
        None \<Rightarrow> replacement @ toValid s
      | Some k \<Rightarrow> take k (c # s) @ toValid (drop (k - 1) s))"
  by pat_completeness auto
termination by (relation "measure length") auto

definition validUTF8 :: "bytes \<Rightarrow> bool" where
  "validUTF8 s \<longleftrightarrow> toValid s = s"

lemma runeBytes_le: "runeBytes x \<le> 4"
  by (simp add: runeBytes_def)

lemma runeBytes_1 [simp]: "runeBytes x = Suc 0 \<longleftrightarrow> x < 128"
  by (simp add: runeBytes_def)

lemma runeLen_ascii [simp]: "code c < 128 \<Longrightarrow> runeLen (c # s) = Some 1"
  by (simp add: runeLen_def runeBytes_def secondOk_def)

text \<open>A rune is a first byte and continuation bytes, and nothing beyond them decides it.\<close>

lemma runeLen_SomeD:
  assumes "runeLen (c # s) = Some k"
  shows "0 < k" "k = runeBytes (code c)" "take k (c # s) = c # take (k - 1) s"
    "\<forall>y\<in>set (take (k - 1) s). isCont y" "length (take (k - 1) s) = k - 1"
    "runeLen (c # take (k - 1) s @ t) = Some k"
  using assms by (auto simp: runeLen_def Let_def list_all_iff take_Cons' split: if_splits)

lemma take_all_iff_takeWhile:
  "length (take n s) = n \<and> list_all P (take n s) \<longleftrightarrow> n \<le> length (takeWhile P s)"
proof (induction s arbitrary: n)
  case (Cons a s)
  then show ?case by (cases n) auto
qed auto

lemma take_takeWhile: "n \<le> length (takeWhile P s) \<Longrightarrow> take n s = take n (takeWhile P s)"
  by (metis append_take_drop_id diff_is_0_eq take0 take_append takeWhile_dropWhile_id append_Nil2)

lemma runeLen_Cons:
  "runeLen (c # s) =
     (let k = runeBytes (code c); u = takeWhile isCont s in
      if 0 < k \<and> k - 1 \<le> length u \<and> secondOk (code c) (take (k - 1) u) then Some k else None)"
proof -
  let ?n = "runeBytes (code c) - 1"
  have "length (take ?n s) = ?n \<and> list_all isCont (take ?n s) \<and> secondOk (code c) (take ?n s) \<longleftrightarrow>
      ?n \<le> length (takeWhile isCont s) \<and> secondOk (code c) (take ?n (takeWhile isCont s))"
    using take_all_iff_takeWhile [of ?n s isCont] take_takeWhile [of ?n isCont s] by metis
  then show ?thesis by (simp add: runeLen_def Let_def)
qed

lemma runeLen_cont: "takeWhile isCont s = takeWhile isCont t \<Longrightarrow> runeLen (c # s) = runeLen (c # t)"
  by (simp add: runeLen_Cons)


subsection \<open>Quoting\<close>

abbreviation dq :: char where "dq \<equiv> CHR 0x22"
abbreviation bslash :: char where "bslash \<equiv> CHR 0x5C"

definition hexDigit :: "nat \<Rightarrow> char" where
  "hexDigit n = char_of (if n < 10 then 48 + n else 87 + n)"

definition u00 :: "char \<Rightarrow> bytes" where
  "u00 c = [bslash, CHR ''u'', CHR ''0'', CHR ''0'', hexDigit (code c div 16), hexDigit (code c mod 16)]"

definition htmlUnsafe :: "char \<Rightarrow> bool" where
  "htmlUnsafe c \<longleftrightarrow> c = CHR ''<'' \<or> c = CHR ''>'' \<or> c = CHR ''&''"

text \<open>U+2028 and U+2029, which JavaScript does not take in strings.\<close>

definition isSep :: "bytes \<Rightarrow> bool" where
  "isSep s = (case s of a # b # c # _ \<Rightarrow> code a = 226 \<and> code b = 128 \<and> (code c = 168 \<or> code c = 169)
     | _ \<Rightarrow> False)"

definition u202 :: "bytes \<Rightarrow> bytes" where
  "u202 s = [bslash] @ ''u202'' @ [hexDigit (code (s ! 2) mod 16)]"

definition escAscii :: "char \<Rightarrow> bytes" where
  "escAscii c =
     (if c = bslash \<or> c = dq then [bslash, c]
      else if code c = 8 then [bslash, CHR ''b'']
      else if code c = 12 then [bslash, CHR ''f'']
      else if code c = 10 then [bslash, CHR ''n'']
      else if code c = 13 then [bslash, CHR ''r'']
      else if code c = 9 then [bslash, CHR ''t'']
      else if code c < 32 \<or> htmlUnsafe c then u00 c
      else [c])"

function escBytes :: "bytes \<Rightarrow> bytes" where
  "escBytes [] = []"
| "escBytes (c # s) =
     (if code c < 128 then escAscii c @ escBytes s
      else (case runeLen (c # s) of
          None \<Rightarrow> [bslash] @ ''ufffd'' @ escBytes s
        | Some k \<Rightarrow> (if isSep (c # s) then u202 (c # s) else take k (c # s)) @ escBytes (drop (k - 1) s)))"
  by pat_completeness auto
termination by (relation "measure length") auto

definition quoteJSON :: "bytes \<Rightarrow> bytes" where
  "quoteJSON s = [dq] @ escBytes s @ [dq]"

subsection \<open>Scanning and unquoting\<close>

definition hexVal :: "char \<Rightarrow> nat option" where
  "hexVal c = (let x = code c in
     if 48 \<le> x \<and> x \<le> 57 then Some (x - 48)
     else if 97 \<le> x \<and> x \<le> 102 then Some (x - 87)
     else if 65 \<le> x \<and> x \<le> 70 then Some (x - 55) else None)"

text \<open>The value of the four hexadecimal digits at the front.\<close>

definition hex4 :: "bytes \<Rightarrow> nat option" where
  "hex4 s = (case s of
       a # b # c # d # _ \<Rightarrow>
         (case (hexVal a, hexVal b, hexVal c, hexVal d) of
            (Some x, Some y, Some z, Some w) \<Rightarrow> Some (((x * 16 + y) * 16 + z) * 16 + w)
          | _ \<Rightarrow> None)
     | _ \<Rightarrow> None)"

definition escLetter :: "char \<Rightarrow> char option" where
  "escLetter c =
     (if c = bslash \<or> c = dq \<or> c = CHR ''/'' then Some c
      else if c = CHR ''b'' then Some (char_of (8::nat))
      else if c = CHR ''f'' then Some (char_of (12::nat))
      else if c = CHR ''n'' then Some (char_of (10::nat))
      else if c = CHR ''r'' then Some (char_of (13::nat))
      else if c = CHR ''t'' then Some (char_of (9::nat))
      else None)"

definition prepend :: "bytes \<Rightarrow> (bytes \<times> bytes) option \<Rightarrow> (bytes \<times> bytes) option" where
  "prepend w = map_option (apfst (append w))"

text \<open>The scanner inside a string: the text up to the closing quote, and what follows it.\<close>

function scanStr :: "bytes \<Rightarrow> (bytes \<times> bytes) option" where
  "scanStr [] = None"
| "scanStr (c # s) =
     (if c = dq then Some ([], s)
      else if c = bslash then
        (case s of
           [] \<Rightarrow> None
         | x # t \<Rightarrow>
             if escLetter x \<noteq> None then prepend [c, x] (scanStr t)
             else if x = CHR ''u'' \<and> hex4 t \<noteq> None then prepend (c # x # take 4 t) (scanStr (drop 4 t))
             else None)
      else if code c < 32 then None
      else prepend [c] (scanStr s))"
  by pat_completeness auto
termination by (relation "measure length") auto

text \<open>A low surrogate escape at the front, the second half of a pair.\<close>

definition lowPair :: "bytes \<Rightarrow> nat option" where
  "lowPair s = (case s of
       a # b # t \<Rightarrow>
         if a = bslash \<and> b = CHR ''u'' then
           (case hex4 t of Some r \<Rightarrow> if 56320 \<le> r \<and> r \<le> 57343 then Some r else None | None \<Rightarrow> None)
         else None
     | _ \<Rightarrow> None)"

text \<open>\<open>unquote\<close>, on the text between the quotes.\<close>

function unquote :: "bytes \<Rightarrow> bytes" where
  "unquote [] = []"
| "unquote (c # s) =
     (if c = bslash then
        (case s of
           [] \<Rightarrow> []
         | x # t \<Rightarrow>
             if x = CHR ''u'' then
               (case hex4 t of
                  None \<Rightarrow> []
                | Some r \<Rightarrow>
                    if 55296 \<le> r \<and> r \<le> 57343 then
                      (case (if r \<le> 56319 then lowPair (drop 4 t) else None) of
                         Some r2 \<Rightarrow> encodeRune ((r - 55296) * 1024 + (r2 - 56320) + 65536) @ unquote (drop 10 t)
                       | None \<Rightarrow> replacement @ unquote (drop 4 t))
                    else encodeRune r @ unquote (drop 4 t))
             else (case escLetter x of None \<Rightarrow> [] | Some y \<Rightarrow> y # unquote t))
      else (case runeLen (c # s) of
          None \<Rightarrow> replacement @ unquote s
        | Some k \<Rightarrow> take k (c # s) @ unquote (drop (k - 1) s)))"
  by pat_completeness auto
termination by (relation "measure length") auto

declare escBytes.simps(2) [simp del] scanStr.simps(2) [simp del] unquote.simps(2) [simp del]
  toValid.simps(2) [simp del]


subsection \<open>Quoting and unquoting\<close>

lemma char_of_eqI: "code c = n \<Longrightarrow> char_of n = c"
  by (metis char_of_code)

lemma code_lits [simp]: "code bslash = 92" "code dq = 34" "code (CHR ''u'') = 117"
  by (simp_all add: code_def)

lemma hexVal_hexDigit [simp]: "n < 16 \<Longrightarrow> hexVal (hexDigit n) = Some n"
  by (auto simp: hexVal_def hexDigit_def Let_def)

lemma hexVal_lits [simp]: "hexVal (CHR ''0'') = Some 0" "hexVal (CHR ''2'') = Some 2"
    "hexVal (CHR ''f'') = Some 15" "hexVal (CHR ''d'') = Some 13"
  by (simp_all add: hexVal_def Let_def code_def)

lemma hex4_append: "hex4 s = Some r \<Longrightarrow> hex4 (s @ t) = Some r \<and> 4 \<le> length s"
  by (auto simp: hex4_def split: list.splits option.splits prod.splits)

lemma encodeRune_ascii [simp]: "code c < 128 \<Longrightarrow> encodeRune (code c) = [c]"
  by (simp add: encodeRune_def ascii_def)

lemma unquote_rune:
  assumes "runeLen (c # s) = Some k" "c \<noteq> bslash"
  shows "unquote (take k (c # s) @ t) = take k (c # s) @ unquote t"
proof -
  note r = runeLen_SomeD [OF assms(1)]
  have "runeLen (c # take (k - 1) s @ t) = Some k" by (rule r(6))
  moreover have "take k (c # take (k - 1) s @ t) = c # take (k - 1) s" "drop (k - 1) (take (k - 1) s @ t) = t"
    using r(1,5) by (auto simp: take_Cons')
  ultimately show ?thesis using assms(2) by (simp add: r(3) unquote.simps(2))
qed

lemma unquote_bad: "runeLen (c # s) = None \<Longrightarrow> unquote (c # s) = replacement @ unquote s"
  by (auto simp: unquote.simps(2))

lemma unquote_hex:
  assumes "hex4 t = Some r" "\<not> (55296 \<le> r \<and> r \<le> 57343)"
  shows "unquote (bslash # CHR ''u'' # t) = encodeRune r @ unquote (drop 4 t)"
  using assms by (auto simp: unquote.simps(2))

lemma escAscii_cases:
  assumes "code c < 128"
  obtains (letter) x where "escAscii c = [bslash, x]" "escLetter x = Some c" "x \<noteq> CHR ''u''"
  | (hex) "escAscii c = u00 c"
  | (plainChar) "escAscii c = [c]" "c \<noteq> bslash" "c \<noteq> dq" "32 \<le> code c"
proof -
  have l: "escLetter bslash = Some bslash" "escLetter dq = Some dq"
      "escLetter (CHR ''b'') = Some (char_of (8::nat))" "escLetter (CHR ''f'') = Some (char_of (12::nat))"
      "escLetter (CHR ''n'') = Some (char_of (10::nat))" "escLetter (CHR ''r'') = Some (char_of (13::nat))"
      "escLetter (CHR ''t'') = Some (char_of (9::nat))"
    by (simp_all add: escLetter_def)
  consider "c \<in> {bslash, dq, char_of (8::nat), char_of (12::nat), char_of (10::nat), char_of (13::nat), char_of (9::nat)}"
    | "code c \<noteq> 8" "code c \<noteq> 12" "code c \<noteq> 10" "code c \<noteq> 13" "code c \<noteq> 9" "c \<noteq> bslash" "c \<noteq> dq"
    using char_of_eqI [of c, OF refl] by (metis insertCI)
  then show thesis
  proof cases
    case 1
    then have "\<exists>x. escAscii c = [bslash, x] \<and> escLetter x = Some c \<and> x \<noteq> CHR ''u''"
      using l by (auto simp: escAscii_def)
    then show thesis using letter by blast
  next
    case 2
    then show thesis using hex plainChar by (cases "code c < 32 \<or> htmlUnsafe c") (auto simp: escAscii_def)
  qed
qed

lemma unquote_escAscii:
  assumes "code c < 128" shows "unquote (escAscii c @ t) = c # unquote t"
  using assms
proof (cases rule: escAscii_cases)
  case (letter x)
  then show ?thesis by (simp add: unquote.simps(2))
next
  case hex
  have "code c div 16 < 16" "code c mod 16 < 16" using assms by auto
  then have "hex4 (CHR ''0'' # CHR ''0'' # hexDigit (code c div 16) # hexDigit (code c mod 16) # t) = Some (code c)"
    by (simp add: hex4_def)
  then show ?thesis using assms hex by (simp add: u00_def unquote_hex)
next
  case plainChar
  then show ?thesis using unquote_rune [of c "[]" 1 t] assms by simp
qed

lemma unquote_fffd: "unquote (bslash # CHR ''u'' # CHR ''f'' # CHR ''f'' # CHR ''f'' # CHR ''d'' # t) = replacement @ unquote t"
proof -
  have "hex4 (CHR ''f'' # CHR ''f'' # CHR ''f'' # CHR ''d'' # t) = Some 65533" by (simp add: hex4_def)
  then show ?thesis by (simp add: unquote_hex) (simp add: encodeRune_def replacement_def)
qed

lemma isSepD:
  assumes "isSep s"
  obtains t where "s = ascii [226, 128, 168] @ t" "u202 s = [bslash] @ ''u2028''"
  | t where "s = ascii [226, 128, 169] @ t" "u202 s = [bslash] @ ''u2029''"
proof -
  obtain a b c t where s: "s = a # b # c # t" "code a = 226" "code b = 128" "code c = 168 \<or> code c = 169"
    using assms by (auto simp: isSep_def split: list.splits)
  have h: "hexDigit 8 = CHR ''8''" "hexDigit 9 = CHR ''9''"
    by (simp_all add: hexDigit_def char_of_def bit_simps)
  have a: "a = char_of (226::nat)" "b = char_of (128::nat)" using s(2,3) char_of_eqI by blast+
  from s(4) show thesis
  proof
    assume "code c = 168"
    then show thesis using s(1) a h char_of_eqI [of c] by (intro that(1) [of t]) (auto simp: u202_def ascii_def)
  next
    assume "code c = 169"
    then show thesis using s(1) a h char_of_eqI [of c] by (intro that(2) [of t]) (auto simp: u202_def ascii_def)
  qed
qed


lemma runeLen_sep: "runeLen (ascii [226, 128, 168] @ t) = Some 3" "runeLen (ascii [226, 128, 169] @ t) = Some 3"
  by (simp_all add: ascii_def runeLen_Cons runeBytes_def isCont_def secondOk_def secondLo_def secondHi_def)

lemma sep_len: "isSep (c # s) \<Longrightarrow> runeLen (c # s) = Some k \<Longrightarrow> k = 3"
  using runeLen_sep by (auto elim!: isSepD)

lemma unquote_u202:
  assumes "isSep s" shows "unquote (u202 s @ t) = take 3 s @ unquote t"
proof -
  have h: "hex4 (''2028'' @ t) = Some 8232" "hex4 (''2029'' @ t) = Some 8233"
    by (simp_all add: hex4_def hexVal_def code_def)
  have e: "encodeRune 8232 = ascii [226, 128, 168]" "encodeRune 8233 = ascii [226, 128, 169]"
    by (simp_all add: encodeRune_def)
  from assms show ?thesis
    by (rule isSepD) (use h e in \<open>simp_all add: unquote_hex ascii_def\<close>)
qed

lemma unquote_escBytes: "unquote (escBytes s) = toValid s"
proof (induction s rule: escBytes.induct)
  case (2 c s)
  show ?case
  proof (cases "code c < 128")
    case True
    then have "unquote (escAscii c @ escBytes s) = c # unquote (escBytes s)" by (rule unquote_escAscii)
    with True 2(1) show ?thesis by (simp add: escBytes.simps(2) toValid.simps(2))
  next
    case big: False
    then have nb: "c \<noteq> bslash" by auto
    show ?thesis
    proof (cases "runeLen (c # s)")
      case None
      with big 2(2) show ?thesis by (simp add: escBytes.simps(2) toValid.simps(2) unquote_fffd)
    next
      case (Some k)
      have ih: "unquote (escBytes (drop (k - 1) s)) = toValid (drop (k - 1) s)" by (rule 2(3) [OF big Some])
      show ?thesis
      proof (cases "isSep (c # s)")
        case True
        then have "k = 3" using sep_len Some by blast
        with True big Some ih show ?thesis
          by (simp add: escBytes.simps(2) toValid.simps(2) unquote_u202)
      next
        case False
        with big Some ih show ?thesis
          by (simp add: escBytes.simps(2) toValid.simps(2) unquote_rune [OF Some nb])
      qed
    qed
  qed
qed simp

text \<open>Text the scanner copies: no quote, backslash or control character.\<close>

definition plainChar :: "char \<Rightarrow> bool" where
  "plainChar c \<longleftrightarrow> c \<noteq> dq \<and> c \<noteq> bslash \<and> 32 \<le> code c"

lemma pre_simps [simp]: "prepend w (Some (a, b)) = Some (w @ a, b)" "prepend w None = None"
    "prepend [] r = r" "prepend v (prepend w r) = prepend (v @ w) r"
  by (cases r; auto simp: prepend_def)+

lemma pre_Some: "prepend w r = Some (a, b) \<longleftrightarrow> (\<exists>a'. r = Some (a', b) \<and> a = w @ a')"
  by (auto simp: prepend_def)

lemma scanStr_plain: "list_all plainChar w \<Longrightarrow> scanStr (w @ s) = prepend w (scanStr s)"
  by (induction w) (auto simp: scanStr.simps(2) plainChar_def)

lemma scanStr_escAscii:
  assumes "code c < 128" shows "scanStr (escAscii c @ s) = prepend (escAscii c) (scanStr s)"
  using assms
proof (cases rule: escAscii_cases)
  case (letter x)
  then show ?thesis by (simp add: scanStr.simps(2))
next
  case hex
  have "code c div 16 < 16" "code c mod 16 < 16" using assms by auto
  then have "hex4 (CHR ''0'' # CHR ''0'' # hexDigit (code c div 16) # hexDigit (code c mod 16) # s) = Some (code c)"
    by (simp add: hex4_def)
  then show ?thesis using hex by (simp add: u00_def scanStr.simps(2) [of bslash] escLetter_def)
next
  case plainChar
  then show ?thesis using scanStr_plain [of "[c]" s] by (simp add: plainChar_def)
qed

lemma scanStr_hex: "hex4 t \<noteq> None \<Longrightarrow> scanStr (bslash # CHR ''u'' # t) = prepend (bslash # CHR ''u'' # take 4 t) (scanStr (drop 4 t))"
  by (simp add: scanStr.simps(2) [of bslash] escLetter_def)

lemma scanStr_fffd: "scanStr ([bslash] @ ''ufffd'' @ s) = prepend ([bslash] @ ''ufffd'') (scanStr s)"
  by (simp add: scanStr_hex hex4_def)

lemma scanStr_u202: "isSep s \<Longrightarrow> scanStr (u202 s @ t) = prepend (u202 s) (scanStr t)"
  by (erule isSepD; simp add: scanStr_hex hex4_def hexVal_def code_def)

lemma plain_high: "128 \<le> code c \<Longrightarrow> plainChar c"
  by (auto simp: plainChar_def)

lemma plain_rune:
  assumes "runeLen (c # s) = Some k" "128 \<le> code c" shows "list_all plainChar (take k (c # s))"
  using runeLen_SomeD [OF assms(1)] assms(2) by (auto simp: list_all_iff isCont_def intro: plain_high)

lemma scanStr_escBytes: "scanStr (escBytes s @ t) = prepend (escBytes s) (scanStr t)"
proof (induction s rule: escBytes.induct)
  case (2 c s)
  show ?case
  proof (cases "code c < 128")
    case True
    with 2(1) show ?thesis by (simp add: escBytes.simps(2) scanStr_escAscii)
  next
    case big: False
    show ?thesis
    proof (cases "runeLen (c # s)")
      case None
      with big 2(2) scanStr_fffd [of "escBytes s @ t"] show ?thesis by (simp add: escBytes.simps(2))
    next
      case (Some k)
      with big 2(3) [OF big Some] show ?thesis
        by (simp add: escBytes.simps(2) scanStr_u202 scanStr_plain plain_rune)
    qed
  qed
qed simp

lemma scanStr_quoteJSON: "quoteJSON s @ t = dq # escBytes s @ dq # t"
    "scanStr (escBytes s @ dq # t) = Some (escBytes s, t)"
  by (simp_all add: quoteJSON_def scanStr_escBytes scanStr.simps(2))


subsection \<open>What the decoder yields is valid\<close>

definition isRune :: "bytes \<Rightarrow> bool" where
  "isRune w \<longleftrightarrow> w \<noteq> [] \<and> runeLen w = Some (length w)"

lemma toValid_rune: "isRune w \<Longrightarrow> toValid (w @ t) = w @ toValid t"
proof (cases w)
  case (Cons c u)
  assume "isRune w"
  then have "runeLen (c # u) = Some (Suc (length u))" by (simp add: isRune_def Cons)
  from runeLen_SomeD(6) [OF this, of t] show ?thesis by (simp add: Cons toValid.simps(2))
qed (simp add: isRune_def)

lemma isRune_ascii [simp]: "code c < 128 \<Longrightarrow> isRune [c]"
  by (simp add: isRune_def)

lemma isRune_take: "runeLen (c # s) = Some k \<Longrightarrow> isRune (take k (c # s))"
  using runeLen_SomeD [of c s k] runeLen_SomeD(6) [of c s k "[]"] by (auto simp: isRune_def)

lemma isRune_replacement: "isRune replacement"
  by (simp add: isRune_def replacement_def ascii_def runeLen_Cons runeBytes_def isCont_def secondOk_def
      secondLo_def secondHi_def)

lemma isRune_ascii2:
  "194 \<le> a \<Longrightarrow> a \<le> 223 \<Longrightarrow> b < 64 \<Longrightarrow> isRune (ascii [a, 128 + b])"
  by (simp add: isRune_def ascii_def runeLen_Cons runeBytes_def isCont_def secondOk_def secondLo_def secondHi_def)

lemma isRune_ascii3:
  "224 \<le> a \<Longrightarrow> a \<le> 239 \<Longrightarrow> secondLo a \<le> 128 + b \<Longrightarrow> 128 + b \<le> secondHi a \<Longrightarrow> b < 64 \<Longrightarrow> c < 64 \<Longrightarrow>
    isRune (ascii [a, 128 + b, 128 + c])"
  by (simp add: isRune_def ascii_def runeLen_Cons runeBytes_def isCont_def secondOk_def)

lemma isRune_ascii4:
  "240 \<le> a \<Longrightarrow> a \<le> 244 \<Longrightarrow> secondLo a \<le> 128 + b \<Longrightarrow> 128 + b \<le> secondHi a \<Longrightarrow> b < 64 \<Longrightarrow> c < 64 \<Longrightarrow> d < 64 \<Longrightarrow>
    isRune (ascii [a, 128 + b, 128 + c, 128 + d])"
  by (simp add: isRune_def ascii_def runeLen_Cons runeBytes_def isCont_def secondOk_def)

lemma isRune_encodeRune: "isRune (encodeRune r)"
proof -
  consider "r < 128" | "128 \<le> r" "r < 2048" | "2048 \<le> r" "55296 \<le> r \<and> r \<le> 57343 \<or> 1114111 < r"
    | "2048 \<le> r" "r < 65536" "\<not> (55296 \<le> r \<and> r \<le> 57343)" | "65536 \<le> r" "r \<le> 1114111" by linarith
  then show ?thesis
  proof cases
    case 1
    then show ?thesis using isRune_ascii [of "char_of r"] by (simp add: encodeRune_def ascii_def)
  next
    case 2
    then have "isRune (ascii [192 + r div 64, 128 + r mod 64])" by (intro isRune_ascii2) linarith+
    with 2 show ?thesis by (simp add: encodeRune_def)
  next
    case 3
    then have "encodeRune r = replacement" by (auto simp: encodeRune_def)
    then show ?thesis by (simp add: isRune_replacement)
  next
    case 4
    have d: "r div 4096 = r div 64 div 64" by (simp add: div_mult2_eq [symmetric])
    then have m: "r div 64 = 64 * (r div 4096) + r div 64 mod 64" by simp
    have "isRune (ascii [224 + r div 4096, 128 + r div 64 mod 64, 128 + r mod 64])"
    proof (rule isRune_ascii3)
      show "secondLo (224 + r div 4096) \<le> 128 + r div 64 mod 64"
        using 4 m by (auto simp: secondLo_def)
      show "128 + r div 64 mod 64 \<le> secondHi (224 + r div 4096)"
      proof (cases "r div 4096 = 13")
        case True
        with 4(3) have "r < 55296" by linarith
        then have "r div 64 < 864" by linarith
        with m True show ?thesis by (simp add: secondHi_def)
      next
        case False
        have "r div 64 mod 64 < 64" by simp
        then have "r div 64 mod 64 \<le> 63" by linarith
        with False show ?thesis using 4(2) by (simp add: secondHi_def)
      qed
    qed (use 4 in \<open>simp_all add: less_mult_imp_div_less\<close>)
    with 4 show ?thesis by (auto simp: encodeRune_def)
  next
    case 5
    have q: "r div 262144 \<le> 4" using 5 by linarith
    have d: "r div 262144 = r div 4096 div 64" by (simp add: div_mult2_eq [symmetric])
    then have m: "r div 4096 = 64 * (r div 262144) + r div 4096 mod 64" by simp
    have "isRune (ascii [240 + r div 262144, 128 + r div 4096 mod 64, 128 + r div 64 mod 64, 128 + r mod 64])"
    proof (rule isRune_ascii4)
      show "secondLo (240 + r div 262144) \<le> 128 + r div 4096 mod 64"
        using 5 m by (auto simp: secondLo_def)
      have "r div 4096 \<le> 271" using 5 by linarith
      moreover have "r div 4096 mod 64 < 64" by simp
      ultimately show "128 + r div 4096 mod 64 \<le> secondHi (240 + r div 262144)"
        using m by (auto simp: secondHi_def)
    qed (use 5 q in simp_all)
    with 5 show ?thesis by (simp add: encodeRune_def)
  qed
qed

lemma escLetter_ascii: "escLetter x = Some y \<Longrightarrow> code y < 128"
  by (auto simp: escLetter_def code_def split: if_splits)

lemma toValid_ascii: "code y < 128 \<Longrightarrow> toValid (y # t) = y # toValid t"
  using toValid_rune [of "[y]" t] by simp

lemma unquote_valid [simp]: "toValid (unquote s) = unquote s"
proof (induction s rule: unquote.induct)
  case (2 c s)
  show ?case
  proof (cases "c = bslash")
    case True
    show ?thesis
    proof (cases s)
      case (Cons x t)
      show ?thesis
      proof (cases "x = CHR ''u''")
        case u: True
        with True Cons 2(1-3) show ?thesis
          by (auto simp: unquote.simps(2) toValid_rune isRune_encodeRune isRune_replacement split: option.splits)
      next
        case False
        show ?thesis
        proof (cases "escLetter x")
          case (Some y)
          with True Cons False 2(4) escLetter_ascii [OF Some] show ?thesis
            by (simp add: unquote.simps(2) toValid_ascii)
        qed (simp add: unquote.simps(2) True Cons False)
      qed
    qed (simp add: unquote.simps(2) True)
  next
    case False
    with 2(5-) show ?thesis
      by (auto simp: unquote.simps(2) toValid_rune isRune_replacement isRune_take split: option.splits)
  qed
qed simp

end
