(* ===== verification/Json.thy ===== *)
theory Json
  imports Json_Text
begin

text \<open>
  \<open>encoding/json\<close> as the program uses it: the scanner with its grammar and nesting bound, the
  documents the struct binder sees, compaction of raw values, and printing.
\<close>

subsection \<open>Values\<close>

datatype jtree =
    TNull
  | TBool bool
  | TNum string
  | TStr string
  | TArr "jtree list"
  | TObj "(string \<times> jtree) list"

definition isWs :: "char \<Rightarrow> bool" where
  "isWs c \<longleftrightarrow> code c = 32 \<or> code c = 9 \<or> code c = 13 \<or> code c = 10"

definition skipWs :: "bytes \<Rightarrow> bytes" where
  "skipWs s = dropWhile isWs s"

text \<open>\<open>maxNestingDepth\<close> of the scanner.\<close>

definition maxDepth :: nat where "maxDepth = 10000"

text \<open>A number literal: sign, integer part without a leading zero, fraction, exponent; the
  longest one at the front, \<open>None\<close> when the text breaks off inside.\<close>

definition digitsOf :: "bytes \<Rightarrow> bytes \<times> bytes" where
  "digitsOf s = (takeWhile isDigit s, dropWhile isDigit s)"

definition scanInt :: "bytes \<Rightarrow> (bytes \<times> bytes) option" where
  "scanInt s = (case s of
       c # t \<Rightarrow> if c = CHR ''0'' then Some ([c], t)
               else if isDigit c then Some (digitsOf s) else None
     | [] \<Rightarrow> None)"

definition scanFrac :: "bytes \<Rightarrow> (bytes \<times> bytes) option" where
  "scanFrac s = (case s of
       c # t \<Rightarrow> if c = CHR ''.'' then
                 (if fst (digitsOf t) = [] then None else prepend [c] (Some (digitsOf t)))
               else Some ([], s)
     | [] \<Rightarrow> Some ([], s))"

definition scanSign :: "bytes \<Rightarrow> bytes \<times> bytes" where
  "scanSign s = (case s of
       c # t \<Rightarrow> if c = CHR ''+'' \<or> c = CHR ''-'' then ([c], t) else ([], s)
     | [] \<Rightarrow> ([], s))"

definition scanExp :: "bytes \<Rightarrow> (bytes \<times> bytes) option" where
  "scanExp s = (case s of
       c # t \<Rightarrow> if c = CHR ''e'' \<or> c = CHR ''E'' then
                 (case scanSign t of (sg, u) \<Rightarrow>
                   if fst (digitsOf u) = [] then None else prepend (c # sg) (Some (digitsOf u)))
               else Some ([], s)
     | [] \<Rightarrow> Some ([], s))"

definition scanNum :: "bytes \<Rightarrow> (bytes \<times> bytes) option" where
  "scanNum s =
     (let (sg, t) = (case s of c # t \<Rightarrow> if c = CHR ''-'' then ([c], t) else ([], s) | [] \<Rightarrow> ([], s)) in
      case scanInt t of None \<Rightarrow> None
      | Some (i, t) \<Rightarrow> (case scanFrac t of None \<Rightarrow> None
      | Some (f, t) \<Rightarrow> (case scanExp t of None \<Rightarrow> None
      | Some (e, t) \<Rightarrow> Some (sg @ i @ f @ e, t))))"

definition litWord :: "bytes \<Rightarrow> jtree \<Rightarrow> bytes \<Rightarrow> (jtree \<times> bytes) option" where
  "litWord w v s = (if prefix w s then Some (v, drop (length w) s) else None)"

text \<open>A value that is no array or object, from its first byte on.\<close>

definition scalar :: "bytes \<Rightarrow> (jtree \<times> bytes) option" where
  "scalar s = (case s of
       [] \<Rightarrow> None
     | c # t \<Rightarrow>
         if c = dq then map_option (apfst (\<lambda>raw. TStr (unquote raw))) (scanStr t)
         else if c = CHR ''t'' then litWord ''true'' (TBool True) s
         else if c = CHR ''f'' then litWord ''false'' (TBool False) s
         else if c = CHR ''n'' then litWord ''null'' TNull s
         else map_option (apfst TNum) (scanNum s))"

text \<open>
  Reading a value, the elements of an array, the members of an object. The first argument
  is fuel, the second the nesting that is left. Each yields what follows the value; a
  member comes with the raw bytes of its value.
\<close>

definition memberKey :: "bytes \<Rightarrow> (string \<times> bytes) option" where
  "memberKey s = (case skipWs s of
       c # t \<Rightarrow> if c = dq then
           (case scanStr t of None \<Rightarrow> None
            | Some (raw, u) \<Rightarrow> (case skipWs u of
                c # v \<Rightarrow> if c = CHR '':'' then Some (unquote raw, skipWs v) else None
              | [] \<Rightarrow> None))
         else None
     | [] \<Rightarrow> None)"

definition rawOf :: "bytes \<Rightarrow> bytes \<Rightarrow> bytes" where
  "rawOf s r = take (length s - length r) s"

text \<open>After an item: the separator, and whether the list goes on.\<close>

definition itemEnd :: "char \<Rightarrow> bytes \<Rightarrow> (bool \<times> bytes) option" where
  "itemEnd close s = (case skipWs s of
       c # t \<Rightarrow> if c = close then Some (False, t) else if c = CHR '','' then Some (True, t) else None
     | [] \<Rightarrow> None)"

fun
  parseV :: "nat \<Rightarrow> nat \<Rightarrow> bytes \<Rightarrow> (jtree \<times> bytes) option" and
  parseElems :: "nat \<Rightarrow> nat \<Rightarrow> bytes \<Rightarrow> (jtree list \<times> bytes) option" and
  parseMembers :: "nat \<Rightarrow> nat \<Rightarrow> bytes \<Rightarrow> ((string \<times> bytes \<times> jtree) list \<times> bytes) option"
where
  "parseV 0 d s = None"
| "parseV (Suc n) d s =
     (case skipWs s of
        [] \<Rightarrow> None
      | c # t \<Rightarrow>
          if c = CHR ''['' then
            (if d = 0 then None
             else (case skipWs t of
                 [] \<Rightarrow> None
               | x # u \<Rightarrow> if x = CHR '']'' then Some (TArr [], u)
                          else map_option (apfst TArr) (parseElems n (d - 1) t)))
          else if c = CHR ''{'' then
            (if d = 0 then None
             else (case skipWs t of
                 [] \<Rightarrow> None
               | x # u \<Rightarrow> if x = CHR ''}'' then Some (TObj [], u)
                          else map_option (apfst (\<lambda>ms. TObj (List.map (\<lambda>(k, _, v). (k, v)) ms)))
                                 (parseMembers n (d - 1) t)))
          else scalar (c # t))"
| "parseElems 0 d s = None"
| "parseElems (Suc n) d s =
     (case parseV n d s of
        None \<Rightarrow> None
      | Some (v, r) \<Rightarrow>
          (case itemEnd (CHR '']'') r of
             None \<Rightarrow> None
           | Some (again, r') \<Rightarrow>
               if again then map_option (apfst (Cons v)) (parseElems n d r') else Some ([v], r')))"
| "parseMembers 0 d s = None"
| "parseMembers (Suc n) d s =
     (case memberKey s of
        None \<Rightarrow> None
      | Some (k, t) \<Rightarrow>
          (case parseV n d t of
             None \<Rightarrow> None
           | Some (v, r) \<Rightarrow>
               (case itemEnd (CHR ''}'') r of
                  None \<Rightarrow> None
                | Some (again, r') \<Rightarrow>
                    if again then map_option (apfst (Cons (k, rawOf t r, v))) (parseMembers n d r')
                    else Some ([(k, rawOf t r, v)], r'))))"

definition fuelFor :: "bytes \<Rightarrow> nat" where
  "fuelFor s = 2 * length s + 2"

subsection \<open>Documents\<close>

fun valueKind :: "jtree \<Rightarrow> jval" where
  "valueKind TNull = JNull"
| "valueKind (TBool b) = JBool b"
| "valueKind (TNum s) = JNum s"
| "valueKind (TStr s) = JStr s"
| "valueKind (TArr vs) = JCompound"
| "valueKind (TObj ms) = JCompound"

text \<open>The first value of the input as the struct binder sees it, and what follows it.\<close>

definition parseDoc :: "bytes \<Rightarrow> (jdoc \<times> bytes) option" where
  "parseDoc s =
     (case skipWs s of
        [] \<Rightarrow> None
      | c # t \<Rightarrow>
          if c = CHR ''{'' then
            (case skipWs t of
               [] \<Rightarrow> None
             | x # u \<Rightarrow> if x = CHR ''}'' then Some (JDObject [], u)
                        else map_option (apfst (\<lambda>ms. JDObject (List.map (\<lambda>(k, raw, v). (k, raw, valueKind v)) ms)))
                               (parseMembers (fuelFor t) (maxDepth - 1) t))
          else map_option (apfst (\<lambda>v. if v = TNull then JDNull else JDOther))
                 (parseV (fuelFor s) maxDepth s))"

text \<open>\<open>json.Decoder.Decode\<close> takes the first value and leaves the rest; \<open>json.Unmarshal\<close> wants
  nothing but white space after it.\<close>

definition jsonStream :: json_reader where
  "jsonStream s = map_option fst (parseDoc s)"

definition jsonWhole :: json_reader where
  "jsonWhole s = (case parseDoc s of
       Some (d, r) \<Rightarrow> if skipWs r = [] then Some d else None
     | None \<Rightarrow> None)"

subsection \<open>Compaction\<close>

definition jsonValue :: "bytes \<Rightarrow> jtree option" where
  "jsonValue s = (case parseV (fuelFor s) maxDepth s of
       Some (v, r) \<Rightarrow> if skipWs r = [] then Some v else None
     | None \<Rightarrow> None)"

text \<open>\<open>appendCompact\<close> with HTML escaping: inside strings the escapes, outside no white space.
  The flag says whether the position is inside a string.\<close>

function compactBytes :: "bool \<Rightarrow> bytes \<Rightarrow> bytes" where
  "compactBytes q [] = []"
| "compactBytes q (c # s) =
     (if q \<and> c = bslash then
        (case s of [] \<Rightarrow> [c] | x # t \<Rightarrow> c # x # compactBytes q t)
      else if htmlUnsafe c then u00 c @ compactBytes q s
      else if isSep (c # s) then u202 (c # s) @ compactBytes q (drop 2 s)
      else if \<not> q \<and> isWs c then compactBytes q s
      else c # compactBytes (if c = dq then \<not> q else q) s)"
  by pat_completeness auto
termination by (relation "measure (length \<circ> snd)") auto

definition compactJSON :: "bytes \<Rightarrow> bytes option" where
  "compactJSON s = (if jsonValue s = None then None else Some (compactBytes False s))"

declare parseV.simps(2) [simp del] parseElems.simps(2) [simp del] parseMembers.simps(2) [simp del]
  compactBytes.simps(2) [simp del]

end
