(* ===== verification/Json_Scan.thy ===== *)
theory Json_Scan
  imports Json
begin

text \<open>
  The scanner: what it accepts inside a string, that it splits its input, and that fuel and
  nesting beyond what a value needs change nothing.
\<close>

subsection \<open>The text of a string\<close>

inductive rawText :: "bytes \<Rightarrow> bool" where
  raw_Nil: "rawText []"
| raw_letter: "escLetter x = Some y \<Longrightarrow> rawText w \<Longrightarrow> rawText (bslash # x # w)"
| raw_hex: "length h = 4 \<Longrightarrow> hex4 h = Some n \<Longrightarrow> rawText w \<Longrightarrow> rawText (bslash # CHR ''u'' # h @ w)"
| raw_plain: "plainChar c \<Longrightarrow> rawText w \<Longrightarrow> rawText (c # w)"

declare rawText.intros [intro]

lemma not_plain [simp]: "\<not> plainChar bslash" "\<not> plainChar dq"
  by (simp_all add: plainChar_def)

inductive_simps rawText_Nil [simp]: "rawText []"
inductive_cases rawText_ConsE: "rawText (c # w)"

lemma rawText_plainD: "rawText (c # w) \<Longrightarrow> c \<noteq> bslash \<Longrightarrow> plainChar c \<and> rawText w"
  by (erule rawText_ConsE) auto

lemma hex4_take: "hex4 t = Some n \<Longrightarrow> hex4 (take 4 t) = Some n \<and> length (take 4 t) = 4"
  by (auto simp: hex4_def split: list.splits option.splits prod.splits)

lemma scanStr_iff: "scanStr s = Some (w, r) \<longleftrightarrow> s = w @ dq # r \<and> rawText w"
proof
  show "s = w @ dq # r \<and> rawText w" if "scanStr s = Some (w, r)"
    using that
  proof (induction s arbitrary: w rule: scanStr.induct)
    case (2 c s)
    show ?case
    proof (cases "c = bslash")
      case True
      with 2(4) obtain x t where s: "s = x # t" by (cases s) (auto simp: scanStr.simps(2))
      show ?thesis
      proof (cases "escLetter x")
        case None
        with 2(4) True s obtain n w' where h: "x = CHR ''u''" "hex4 t = Some n"
          "scanStr (drop 4 t) = Some (w', r)" "w = bslash # x # take 4 t @ w'"
          by (auto simp: scanStr.simps(2) pre_Some split: if_splits)
        with 2(2) [OF _ True s, of w'] True None have "drop 4 t = w' @ dq # r \<and> rawText w'" by auto
        moreover have "t = take 4 t @ drop 4 t" by simp
        ultimately have "t = take 4 t @ w' @ dq # r" "rawText w'" by metis+
        with h True s hex4_take [OF h(2)] show ?thesis
          using raw_hex [of "take 4 t" n w'] by simp
      next
        case (Some y)
        with 2(4) True s obtain w' where "scanStr t = Some (w', r)" "w = bslash # x # w'"
          by (auto simp: scanStr.simps(2) pre_Some split: if_splits)
        with 2(1) [OF _ True s] Some True s show ?thesis by auto
      qed
    next
      case False
      with 2 show ?thesis
        by (auto simp: scanStr.simps(2) pre_Some plainChar_def split: if_splits)
    qed
  qed simp
next
  assume "s = w @ dq # r \<and> rawText w"
  then have "rawText w" "s = w @ dq # r" by auto
  then show "scanStr s = Some (w, r)"
  proof (induction w arbitrary: s)
    case (raw_hex h n w)
    have "hex4 (h @ w @ dq # r) = Some n" using hex4_append [OF raw_hex(2)] by blast
    with raw_hex show ?case by (simp add: scanStr_hex)
  qed (auto simp: scanStr.simps(2) plainChar_def)
qed

subsection \<open>Numbers\<close>

definition numChar :: "char \<Rightarrow> bool" where
  "numChar c \<longleftrightarrow> isDigit c \<or> c = CHR ''-'' \<or> c = CHR ''+'' \<or> c = CHR ''.'' \<or> c = CHR ''e'' \<or> c = CHR ''E''"

text \<open>Text that ends whatever value stands before it.\<close>

definition stops :: "bytes \<Rightarrow> bool" where
  "stops r \<longleftrightarrow> (case r of [] \<Rightarrow> True | c # _ \<Rightarrow> \<not> numChar c)"

lemma stops_simps [simp]: "stops []" "stops (c # r) \<longleftrightarrow> \<not> numChar c"
  by (simp_all add: stops_def)

lemma digit_chars [simp]: "\<not> isDigit (CHR ''-'')" "\<not> isDigit (CHR ''+'')" "\<not> isDigit (CHR ''.'')"
    "\<not> isDigit (CHR ''e'')" "\<not> isDigit (CHR ''E'')" "isDigit (CHR ''0'')"
  by (simp_all add: isDigit_def code_def)

lemma digitsOf_split: "digitsOf s = (w, r) \<Longrightarrow> s = w @ r \<and> list_all isDigit w"
  by (auto simp: digitsOf_def list_all_iff dest: set_takeWhileD)

lemma digitsOf_append:
  "list_all isDigit w \<Longrightarrow> (case r of [] \<Rightarrow> True | c # _ \<Rightarrow> \<not> isDigit c) \<Longrightarrow> digitsOf (w @ r) = (w, r)"
  by (induction w) (auto simp: digitsOf_def split: list.splits)

lemma scanInt_split:
  assumes "scanInt s = Some (w, r)"
  shows "s = w @ r" "list_all isDigit w" "w \<noteq> []"
    "(case r' of [] \<Rightarrow> True | c # _ \<Rightarrow> \<not> isDigit c) \<Longrightarrow> scanInt (w @ r') = Some (w, r')"
proof -
  obtain c t where s: "s = c # t" using assms by (cases s) (auto simp: scanInt_def)
  have "(s = w @ r \<and> list_all isDigit w \<and> w \<noteq> []) \<and>
    ((case r' of [] \<Rightarrow> True | c # _ \<Rightarrow> \<not> isDigit c) \<longrightarrow> scanInt (w @ r') = Some (w, r'))"
  proof (cases "c = CHR ''0''")
    case True
    then show ?thesis using assms s by (auto simp: scanInt_def)
  next
    case False
    then have d: "isDigit c" "digitsOf s = (w, r)" using assms s by (auto simp: scanInt_def split: if_splits)
    then obtain w' where w: "w = c # w'" by (auto simp: s digitsOf_def)
    have "scanInt (w @ r') = Some (w, r')" if "(case r' of [] \<Rightarrow> True | c # _ \<Rightarrow> \<not> isDigit c)"
      using digitsOf_append [of w r'] digitsOf_split [OF d(2)] that d(1) False w by (simp add: scanInt_def)
    then show ?thesis using digitsOf_split [OF d(2)] w by blast
  qed
  then show "s = w @ r" "list_all isDigit w" "w \<noteq> []"
    "(case r' of [] \<Rightarrow> True | c # _ \<Rightarrow> \<not> isDigit c) \<Longrightarrow> scanInt (w @ r') = Some (w, r')" by blast+
qed

lemma numChar_digit: "list_all isDigit w \<Longrightarrow> list_all numChar w"
  by (auto simp: list_all_iff numChar_def)

lemma scanFrac_split:
  assumes "scanFrac s = Some (w, r)"
  shows "s = w @ r" "list_all numChar w" "w = [] \<or> hd w = CHR ''.''"
    "(case r' of [] \<Rightarrow> True | c # _ \<Rightarrow> \<not> isDigit c \<and> c \<noteq> CHR ''.'') \<Longrightarrow> scanFrac (w @ r') = Some (w, r')"
proof -
  have "(s = w @ r \<and> list_all numChar w \<and> (w = [] \<or> hd w = CHR ''.'')) \<and>
    ((case r' of [] \<Rightarrow> True | c # _ \<Rightarrow> \<not> isDigit c \<and> c \<noteq> CHR ''.'') \<longrightarrow> scanFrac (w @ r') = Some (w, r'))"
  proof (cases "\<exists>t. s = CHR ''.'' # t")
    case True
    then obtain t where s: "s = CHR ''.'' # t" by blast
    obtain d u where d: "digitsOf t = (d, u)" by (cases "digitsOf t")
    with assms s have w: "w = CHR ''.'' # d" "d \<noteq> []" "u = r"
      by (auto simp: scanFrac_def split: if_splits)
    have "scanFrac (w @ r') = Some (w, r')" if "(case r' of [] \<Rightarrow> True | c # _ \<Rightarrow> \<not> isDigit c \<and> c \<noteq> CHR ''.'')"
    proof -
      have "digitsOf (d @ r') = (d, r')"
        using digitsOf_append [of d r'] digitsOf_split [OF d] that by (auto split: list.splits)
      then show ?thesis using w by (simp add: scanFrac_def)
    qed
    then show ?thesis using digitsOf_split [OF d] w s numChar_digit [of d] by (auto simp: numChar_def)
  next
    case False
    with assms have "w = []" "s = r" by (auto simp: scanFrac_def split: list.splits if_splits)
    then show ?thesis by (auto simp: scanFrac_def split: list.splits)
  qed
  then show "s = w @ r" "list_all numChar w" "w = [] \<or> hd w = CHR ''.''"
    "(case r' of [] \<Rightarrow> True | c # _ \<Rightarrow> \<not> isDigit c \<and> c \<noteq> CHR ''.'') \<Longrightarrow> scanFrac (w @ r') = Some (w, r')"
    by blast+
qed

lemma scanSign_split:
  assumes "scanSign s = (w, r)" "d \<noteq> []" "list_all isDigit d"
  shows "s = w @ r" "list_all numChar w" "scanSign (w @ d @ r') = (w, d @ r')"
proof -
  obtain x d' where "d = x # d'" using assms(2) by (cases d) auto
  then have "x \<noteq> CHR ''+''" "x \<noteq> CHR ''-''" using assms(3) by auto
  then show "s = w @ r" "list_all numChar w" "scanSign (w @ d @ r') = (w, d @ r')"
    using assms(1) \<open>d = x # d'\<close> by (auto simp: scanSign_def numChar_def split: list.splits if_splits)
qed

lemma scanExp_split:
  assumes "scanExp s = Some (w, r)"
  shows "s = w @ r" "list_all numChar w" "w = [] \<or> hd w = CHR ''e'' \<or> hd w = CHR ''E''"
    "stops r' \<Longrightarrow> scanExp (w @ r') = Some (w, r')"
proof -
  have "(s = w @ r \<and> list_all numChar w \<and> (w = [] \<or> hd w = CHR ''e'' \<or> hd w = CHR ''E'')) \<and>
    (stops r' \<longrightarrow> scanExp (w @ r') = Some (w, r'))"
  proof (cases "\<exists>c t. s = c # t \<and> (c = CHR ''e'' \<or> c = CHR ''E'')")
    case True
    then obtain c t where s: "s = c # t" "c = CHR ''e'' \<or> c = CHR ''E''" by blast
    obtain sg u where sg: "scanSign t = (sg, u)" by (cases "scanSign t")
    obtain d v where d: "digitsOf u = (d, v)" by (cases "digitsOf u")
    from assms s sg d have w: "w = c # sg @ d" "d \<noteq> []" "v = r"
      by (auto simp: scanExp_def split: if_splits)
    note sp = digitsOf_split [OF d]
    note sn = scanSign_split [OF sg w(2) conjunct2 [OF sp]]
    have "scanExp (w @ r') = Some (w, r')" if "stops r'"
    proof -
      have "digitsOf (d @ r') = (d, r')"
        using digitsOf_append [of d r'] sp that by (cases r') (auto simp: numChar_def)
      then show ?thesis using w s(2) sn(3) [of r'] by (simp add: scanExp_def)
    qed
    then show ?thesis using sp w s sn(1,2) numChar_digit [of d] by (auto simp: numChar_def)
  next
    case False
    with assms have "w = []" "s = r" by (auto simp: scanExp_def split: list.splits if_splits)
    then show ?thesis by (auto simp: scanExp_def numChar_def split: list.splits)
  qed
  then show "s = w @ r" "list_all numChar w" "w = [] \<or> hd w = CHR ''e'' \<or> hd w = CHR ''E''"
    "stops r' \<Longrightarrow> scanExp (w @ r') = Some (w, r')"
    by blast+
qed

lemma hd_append_case: "(case w @ r of [] \<Rightarrow> True | c # _ \<Rightarrow> P c) \<longleftrightarrow>
    (if w = [] then (case r of [] \<Rightarrow> True | c # _ \<Rightarrow> P c) else P (hd w))"
  by (cases w) simp_all

lemma scanNum_split:
  assumes "scanNum s = Some (w, r)"
  shows "s = w @ r" "list_all numChar w" "w \<noteq> []" "stops r' \<Longrightarrow> scanNum (w @ r') = Some (w, r')"
proof -
  obtain sg t where sg: "(case s of c # t \<Rightarrow> if c = CHR ''-'' then ([c], t) else ([], s) | [] \<Rightarrow> ([], s)) = (sg, t)"
    by fastforce
  obtain i t1 where i: "scanInt t = Some (i, t1)"
    using assms sg by (auto simp: scanNum_def split: option.splits)
  obtain f t2 where f: "scanFrac t1 = Some (f, t2)"
    using assms sg i by (auto simp: scanNum_def split: option.splits)
  obtain e where e: "scanExp t2 = Some (e, r)" and w: "w = sg @ i @ f @ e"
    using assms sg i f by (auto simp: scanNum_def split: option.splits)
  have s: "s = sg @ t" and sgn: "sg = [] \<or> sg = ''-''"
    using sg by (auto split: list.splits if_splits)
  show "s = w @ r" using scanInt_split(1) [OF i] scanFrac_split(1) [OF f] scanExp_split(1) [OF e] w s by simp
  show "list_all numChar w"
    using numChar_digit [OF scanInt_split(2) [OF i]] scanFrac_split(2) [OF f] scanExp_split(2) [OF e] w sgn
    by (auto simp: numChar_def)
  show "w \<noteq> []" using scanInt_split(3) [OF i] w by simp
  show "scanNum (w @ r') = Some (w, r')" if st: "stops r'"
  proof -
    have 1: "scanExp (e @ r') = Some (e, r')" by (rule scanExp_split(4) [OF e st])
    have "(case e @ r' of [] \<Rightarrow> True | c # _ \<Rightarrow> \<not> isDigit c \<and> c \<noteq> CHR ''.'')"
      using scanExp_split(3) [OF e] st by (auto simp: hd_append_case numChar_def split: list.splits)
    then have 2: "scanFrac (f @ e @ r') = Some (f, e @ r')" by (rule scanFrac_split(4) [OF f])
    have "(case f @ e @ r' of [] \<Rightarrow> True | c # _ \<Rightarrow> \<not> isDigit c)"
      using scanExp_split(3) [OF e] scanFrac_split(3) [OF f] st
      by (auto simp: hd_append_case numChar_def split: list.splits)
    then have 3: "scanInt (i @ f @ e @ r') = Some (i, f @ e @ r')" by (rule scanInt_split(4) [OF i])
    have "isDigit (hd i)" using scanInt_split(2,3) [OF i] by (cases i) auto
    then have "hd i \<noteq> CHR ''-''" by auto
    then have "(case w @ r' of c # t \<Rightarrow> if c = CHR ''-'' then ([c], t) else ([], w @ r') | [] \<Rightarrow> ([], w @ r'))
        = (sg, i @ f @ e @ r')"
      using sgn w scanInt_split(3) [OF i] by (cases i) auto
    then show ?thesis unfolding scanNum_def by (simp add: 1 2 3) (simp add: w)
  qed
qed


subsection \<open>What is left after a value\<close>

lemma suffix_skipWs: "suffix (skipWs s) s"
  by (simp add: skipWs_def suffix_dropWhile)

lemma strict_suffix_tl: "suffix (c # t) s \<Longrightarrow> strict_suffix t s"
  by (auto simp: suffix_def strict_suffix_def)

lemma strict_suffix_append: "s = w @ r \<Longrightarrow> w \<noteq> [] \<Longrightarrow> strict_suffix r s"
  by (auto simp: strict_suffix_def suffix_def)

lemma skipWs_Cons: "skipWs s = c # t \<Longrightarrow> strict_suffix t s"
  using suffix_skipWs [of s] by (auto intro: strict_suffix_tl)

lemma scalar_split:
  assumes "scalar s = Some (v, r)" obtains w where "s = w @ r" "w \<noteq> []"
proof -
  from assms consider raw t where "s = dq # t" "scanStr t = Some (raw, r)"
    | w v' where "w \<noteq> []" "litWord w v' s = Some (v, r)"
    | w where "scanNum s = Some (w, r)"
    by (fastforce simp: scalar_def split: list.splits if_splits)
  then show thesis
  proof cases
    case 1
    then show thesis using that [of "dq # raw @ [dq]"] by (simp add: scanStr_iff)
  next
    case 2
    then show thesis using that [of w] by (auto simp: litWord_def prefix_def split: if_splits)
  next
    case 3
    then show thesis using that [OF scanNum_split(1,3)] by blast
  qed
qed

lemma scalar_suffix: "scalar s = Some (v, r) \<Longrightarrow> strict_suffix r s"
  by (elim scalar_split strict_suffix_append)

lemma itemEnd_suffix: "itemEnd c s = Some (b, r) \<Longrightarrow> strict_suffix r s"
  by (auto simp: itemEnd_def split: list.splits if_splits dest: skipWs_Cons)

lemma memberKey_suffix: "memberKey s = Some (k, t) \<Longrightarrow> strict_suffix t s"
proof -
  assume "memberKey s = Some (k, t)"
  then obtain c u raw v d x where "skipWs s = c # u" "scanStr u = Some (raw, v)" "skipWs v = d # x" "t = skipWs x"
    by (auto simp: memberKey_def split: list.splits if_splits option.splits)
  then have "strict_suffix u s" "strict_suffix v u" "strict_suffix x v" "suffix t x"
    using skipWs_Cons suffix_skipWs by (auto simp: scanStr_iff intro: strict_suffix_append [of _ "_ @ [dq]"])
  then show ?thesis by (metis suffix_order.le_less_trans suffix_order.less_trans)
qed

subsection \<open>The grammar\<close>

text \<open>The parser without fuel, as a derivation.\<close>

abbreviation lbrack :: char where "lbrack \<equiv> CHR ''[''"
abbreviation rbrack :: char where "rbrack \<equiv> CHR '']''"
abbreviation lbrace :: char where "lbrace \<equiv> CHR ''{''"
abbreviation rbrace :: char where "rbrace \<equiv> CHR ''}''"

abbreviation keyVals :: "(string \<times> bytes \<times> jtree) list \<Rightarrow> (string \<times> jtree) list" where
  "keyVals ms \<equiv> List.map (\<lambda>(k, _, v). (k, v)) ms"

inductive
  isValue :: "nat \<Rightarrow> bytes \<Rightarrow> jtree \<Rightarrow> bytes \<Rightarrow> bool" and
  isElems :: "nat \<Rightarrow> bytes \<Rightarrow> jtree list \<Rightarrow> bytes \<Rightarrow> bool" and
  isMembers :: "nat \<Rightarrow> bytes \<Rightarrow> (string \<times> bytes \<times> jtree) list \<Rightarrow> bytes \<Rightarrow> bool"
where
  v_scalar: "skipWs s = c # t \<Longrightarrow> c \<noteq> lbrack \<Longrightarrow> c \<noteq> lbrace \<Longrightarrow> scalar (c # t) = Some (v, r) \<Longrightarrow> isValue d s v r"
| v_arr0: "skipWs s = lbrack # t \<Longrightarrow> skipWs t = rbrack # r \<Longrightarrow> isValue (Suc d) s (TArr []) r"
| v_arr: "skipWs s = lbrack # t \<Longrightarrow> skipWs t = x # u \<Longrightarrow> x \<noteq> rbrack \<Longrightarrow> isElems d t vs r \<Longrightarrow>
    isValue (Suc d) s (TArr vs) r"
| v_obj0: "skipWs s = lbrace # t \<Longrightarrow> skipWs t = rbrace # r \<Longrightarrow> isValue (Suc d) s (TObj []) r"
| v_obj: "skipWs s = lbrace # t \<Longrightarrow> skipWs t = x # u \<Longrightarrow> x \<noteq> rbrace \<Longrightarrow> isMembers d t ms r \<Longrightarrow>
    isValue (Suc d) s (TObj (keyVals ms)) r"
| e_last: "isValue d s v r0 \<Longrightarrow> itemEnd rbrack r0 = Some (False, r) \<Longrightarrow> isElems d s [v] r"
| e_more: "isValue d s v r0 \<Longrightarrow> itemEnd rbrack r0 = Some (True, r1) \<Longrightarrow> isElems d r1 vs r \<Longrightarrow>
    isElems d s (v # vs) r"
| m_last: "memberKey s = Some (k, t) \<Longrightarrow> isValue d t v r0 \<Longrightarrow> itemEnd rbrace r0 = Some (False, r) \<Longrightarrow>
    isMembers d s [(k, rawOf t r0, v)] r"
| m_more: "memberKey s = Some (k, t) \<Longrightarrow> isValue d t v r0 \<Longrightarrow> itemEnd rbrace r0 = Some (True, r1) \<Longrightarrow>
    isMembers d r1 ms r \<Longrightarrow> isMembers d s ((k, rawOf t r0, v) # ms) r"

lemmas grammar_intros = isValue_isElems_isMembers.intros
lemmas grammar_induct = isValue_isElems_isMembers.inducts

lemma parse_sound:
  "(\<forall>d s v r. parseV n d s = Some (v, r) \<longrightarrow> isValue d s v r) \<and>
   (\<forall>d s vs r. parseElems n d s = Some (vs, r) \<longrightarrow> isElems d s vs r) \<and>
   (\<forall>d s ms r. parseMembers n d s = Some (ms, r) \<longrightarrow> isMembers d s ms r)"
proof (induction n)
  case (Suc n)
  have "isValue d s v r" if p: "parseV (Suc n) d s = Some (v, r)" for d s v r
  proof -
    obtain c t where w: "skipWs s = c # t" using p by (auto simp: parseV.simps(2) split: list.splits)
    show ?thesis
    proof (cases "c = lbrack \<or> c = lbrace")
      case True
      then obtain e x u where "d = Suc e" "skipWs t = x # u"
        using p w by (cases d) (auto simp: parseV.simps(2) split: list.splits)
      with True p w Suc.IH show ?thesis
        by (auto simp: parseV.simps(2) split: if_splits intro: grammar_intros)
    next
      case False
      with p w show ?thesis by (auto simp: parseV.simps(2) intro: v_scalar)
    qed
  qed
  moreover have "isElems d s vs r" if p: "parseElems (Suc n) d s = Some (vs, r)" for d s vs r
  proof -
    obtain v0 r0 b r1 where "parseV n d s = Some (v0, r0)" "itemEnd rbrack r0 = Some (b, r1)"
      using p by (auto simp: parseElems.simps(2) split: option.splits)
    moreover from this have "isValue d s v0 r0" using Suc.IH by blast
    moreover have "isElems d r1 vs' r" if "parseElems n d r1 = Some (vs', r)" for vs'
      using that Suc.IH by blast
    ultimately show ?thesis
      using p by (cases b) (auto simp: parseElems.simps(2) intro: e_last e_more)
  qed
  moreover have "isMembers d s ms r" if p: "parseMembers (Suc n) d s = Some (ms, r)" for d s ms r
  proof -
    obtain k t v0 r0 b r1 where "memberKey s = Some (k, t)" "parseV n d t = Some (v0, r0)"
      "itemEnd rbrace r0 = Some (b, r1)"
      using p by (auto simp: parseMembers.simps(2) split: option.splits)
    moreover from this have "isValue d t v0 r0" using Suc.IH by blast
    moreover have "isMembers d r1 ms' r" if "parseMembers n d r1 = Some (ms', r)" for ms'
      using that Suc.IH by blast
    ultimately show ?thesis
      using p by (cases b) (auto simp: parseMembers.simps(2) intro: m_last m_more)
  qed
  ultimately show ?case by blast
qed simp

lemma grammar_suffix:
  "isValue d s v r \<Longrightarrow> strict_suffix r s"
  "isElems d s vs r \<Longrightarrow> strict_suffix r s"
  "isMembers d s ms r \<Longrightarrow> strict_suffix r s"
proof (induction rule: grammar_induct)
  case (v_scalar s c t v r d)
  then show ?case using suffix_skipWs [of s] scalar_suffix by (metis suffix_order.less_le_trans)
qed (auto dest!: skipWs_Cons itemEnd_suffix memberKey_suffix intro: suffix_order.less_trans)

lemma strict_suffix_len: "strict_suffix r s \<Longrightarrow> Suc (length r) \<le> length s"
  using suffix_length_less by fastforce

text \<open>With twice the length of the input, fuel never runs out.\<close>

lemma parse_complete:
  "isValue d s v r \<Longrightarrow> 2 * length s + 1 \<le> n \<Longrightarrow> parseV n d s = Some (v, r)"
  "isElems d s vs r \<Longrightarrow> 2 * length s + 2 \<le> n \<Longrightarrow> parseElems n d s = Some (vs, r)"
  "isMembers d s ms r \<Longrightarrow> 2 * length s + 2 \<le> n \<Longrightarrow> parseMembers n d s = Some (ms, r)"
proof (induction arbitrary: n and n and n rule: grammar_induct)
  case (v_arr s t x u d vs r)
  then obtain m where n: "n = Suc m" by (cases n) auto
  with v_arr strict_suffix_len [OF skipWs_Cons [OF v_arr(1)]] show ?case by (simp add: parseV.simps(2))
next
  case (v_obj s t x u d ms r)
  then obtain m where n: "n = Suc m" by (cases n) auto
  with v_obj strict_suffix_len [OF skipWs_Cons [OF v_obj(1)]] show ?case by (simp add: parseV.simps(2))
next
  case (e_last d s v r0 r)
  then show ?case by (cases n) (simp_all add: parseElems.simps(2))
next
  case (e_more d s v r0 r1 vs r)
  then obtain m where n: "n = Suc m" by (cases n) auto
  have "2 * length r1 + 2 \<le> m"
    using n e_more(6) strict_suffix_len [OF itemEnd_suffix [OF e_more(2)]]
      strict_suffix_len [OF grammar_suffix(1) [OF e_more(1)]] by simp
  with n e_more show ?case by (simp add: parseElems.simps(2))
next
  case (m_last s k t d v r0 r)
  then obtain m where n: "n = Suc m" by (cases n) auto
  with m_last strict_suffix_len [OF memberKey_suffix [OF m_last(1)]] show ?case
    by (simp add: parseMembers.simps(2))
next
  case (m_more s k t d v r0 r1 ms r)
  then obtain m where n: "n = Suc m" by (cases n) auto
  have "2 * length t + 1 \<le> m" "2 * length r1 + 2 \<le> m"
    using n m_more(7) strict_suffix_len [OF itemEnd_suffix [OF m_more(3)]]
      strict_suffix_len [OF grammar_suffix(1) [OF m_more(2)]]
      strict_suffix_len [OF memberKey_suffix [OF m_more(1)]] by simp_all
  with n m_more show ?case by (simp add: parseMembers.simps(2))
next
  case (v_scalar s c t v r d)
  then show ?case by (cases n) (simp_all add: parseV.simps(2))
next
  case (v_arr0 s t r d)
  then show ?case by (cases n) (simp_all add: parseV.simps(2))
next
  case (v_obj0 s t r d)
  then show ?case by (cases n) (simp_all add: parseV.simps(2))
qed

lemma grammar_depth:
  "isValue d s v r \<Longrightarrow> d \<le> e \<Longrightarrow> isValue e s v r"
  "isElems d s vs r \<Longrightarrow> d \<le> e \<Longrightarrow> isElems e s vs r"
  "isMembers d s ms r \<Longrightarrow> d \<le> e \<Longrightarrow> isMembers e s ms r"
proof (induction arbitrary: e and e and e rule: grammar_induct)
  case (v_arr0 s t r d)
  then show ?case by (cases e) (auto intro: grammar_intros(2))
next
  case (v_arr s t x u d vs r)
  then show ?case by (cases e) (auto intro: grammar_intros(3))
next
  case (v_obj0 s t r d)
  then show ?case by (cases e) (auto intro: grammar_intros(4))
next
  case (v_obj s t x u d ms r)
  then show ?case by (cases e) (auto intro: grammar_intros(5))
next
  case (e_more d s v r0 r1 vs r)
  then show ?case by (blast intro: grammar_intros(7))
next
  case (m_more s k t d v r0 r1 ms r)
  then show ?case by (blast intro: grammar_intros(9))
qed (blast intro: grammar_intros)+

lemma parseV_iff: "parseV (fuelFor s) d s = Some (v, r) \<longleftrightarrow> isValue d s v r"
  using parse_sound [of "fuelFor s"] parse_complete(1) [of d s v r "fuelFor s"] by (auto simp: fuelFor_def)

lemma parseMembers_iff: "parseMembers (fuelFor s) d s = Some (ms, r) \<longleftrightarrow> isMembers d s ms r"
  using parse_sound [of "fuelFor s"] parse_complete(3) [of d s ms r "fuelFor s"] by (auto simp: fuelFor_def)

end
