(* ===== verification/Json_Compact.thy ===== *)
theory Json_Compact
  imports Json_Scan
begin

text \<open>
  What compaction does to a document: the same value in fewer or escaped bytes. First inside
  strings, then for whole values.
\<close>

subsection \<open>Bytes compaction leaves alone\<close>

definition fixedChar :: "char \<Rightarrow> bool" where
  "fixedChar c \<longleftrightarrow> c \<noteq> bslash \<and> c \<noteq> dq \<and> \<not> htmlUnsafe c \<and> code c \<noteq> 226 \<and> \<not> isWs c"

lemma isSep_Cons: "isSep (c # s) \<Longrightarrow> code c = 226"
  by (auto simp: isSep_def split: list.splits)

lemma compact_fixed: "list_all fixedChar w \<Longrightarrow> compactBytes q (w @ s) = w @ compactBytes q s"
  by (induction w) (auto simp: compactBytes.simps(2) fixedChar_def dest: isSep_Cons)

lemma fixed_cont: "isCont c \<Longrightarrow> code c \<noteq> 226 \<Longrightarrow> fixedChar c"
  by (auto simp: fixedChar_def isCont_def htmlUnsafe_def isWs_def code_def)

lemma fixed_hex: "hexVal c \<noteq> None \<Longrightarrow> fixedChar c"
  by (auto simp: fixedChar_def htmlUnsafe_def isWs_def hexVal_def Let_def code_def split: if_splits)

lemma hex4_fixed: "hex4 h = Some n \<Longrightarrow> length h = 4 \<Longrightarrow> list_all fixedChar h"
  by (auto simp: hex4_def length_Suc_conv numeral_eq_Suc split: option.splits prod.splits intro!: fixed_hex)

lemma isSep_append: "isSep (w @ dq # r) \<longleftrightarrow> isSep w"
  by (cases w; cases "tl w"; cases "tl (tl w)") (auto simp: isSep_def split: list.splits)

lemma isSep_plain: "isSep (c # s) \<Longrightarrow> \<exists>x y t. s = x # y # t \<and> c \<noteq> bslash \<and> x \<noteq> bslash \<and> y \<noteq> bslash \<and> c \<noteq> dq \<and> \<not> htmlUnsafe c"
  by (auto simp: isSep_def htmlUnsafe_def code_def split: list.splits)

lemma compact_sep: "isSep (c # s) \<Longrightarrow> compactBytes q (c # s) = u202 (c # s) @ compactBytes q (drop 2 s)"
  using isSep_plain [of c s] by (auto simp: compactBytes.simps(2))

lemma takeWhile_compact: "takeWhile isCont (compactBytes True w) = takeWhile isCont w"
proof (induction True w rule: compactBytes.induct)
  case (2 c s)
  have b: "\<not> isCont bslash" by (simp add: isCont_def)
  have h: "\<not> isCont c" if "htmlUnsafe c" using that by (auto simp: htmlUnsafe_def isCont_def code_def)
  have q: "\<not> isCont dq" by (simp add: isCont_def)
  have s: "\<not> isCont c" if "isSep (c # s)" using isSep_Cons [OF that] by (simp add: isCont_def)
  show ?case
    using 2 b h q s by (auto simp: compactBytes.simps(2) u00_def u202_def split: list.splits)
qed simp

subsection \<open>Strings\<close>

lemma lowPair_not: "(case s of a # b # _ \<Rightarrow> a \<noteq> bslash \<or> b \<noteq> CHR ''u'' | _ \<Rightarrow> True) \<Longrightarrow> lowPair s = None"
  by (auto simp: lowPair_def split: list.splits)

lemma lowPair_u00: "code c < 128 \<Longrightarrow> lowPair (u00 c @ s) = None"
  by (simp add: lowPair_def u00_def hex4_def)

lemma lowPair_u202: "isSep s \<Longrightarrow> lowPair (u202 s @ t) = None"
  by (erule isSepD) (simp_all add: lowPair_def hex4_def hexVal_def code_def)

lemma html_ascii: "htmlUnsafe c \<Longrightarrow> code c < 128 \<and> c \<noteq> bslash \<and> c \<noteq> dq"
  by (auto simp: htmlUnsafe_def code_def)

lemma raw_u00: "code c < 128 \<Longrightarrow> rawText w \<Longrightarrow> rawText (u00 c @ w)"
  using raw_hex [of "[CHR ''0'', CHR ''0'', hexDigit (code c div 16), hexDigit (code c mod 16)]" "code c" w]
  by (simp add: u00_def hex4_def)

lemma raw_u202: "isSep s \<Longrightarrow> rawText w \<Longrightarrow> rawText (u202 s @ w)"
  by (erule isSepD; simp; rule raw_hex [where h = "''2028''", simplified] raw_hex [where h = "''2029''", simplified])
    (simp_all add: hex4_def hexVal_def code_def)

lemma unquote_u00: "code c < 128 \<Longrightarrow> unquote (u00 c @ s) = c # unquote s"
proof -
  assume c: "code c < 128"
  then have "code c div 16 < 16" "code c mod 16 < 16" by auto
  then have "hex4 (CHR ''0'' # CHR ''0'' # hexDigit (code c div 16) # hexDigit (code c mod 16) # s) = Some (code c)"
    by (simp add: hex4_def)
  then show ?thesis using c by (simp add: u00_def unquote_hex)
qed

lemma compact_lowPair:
  assumes "rawText w" shows "lowPair (compactBytes True w) = lowPair w"
  using assms
proof cases
  case (raw_letter x y v)
  then have "x \<noteq> CHR ''u''" by (auto simp: escLetter_def)
  with raw_letter show ?thesis by (simp add: compactBytes.simps(2) [of True bslash] lowPair_not)
next
  case (raw_hex h n v)
  then obtain a b c d where h: "h = [a, b, c, d]" by (auto simp: length_Suc_conv numeral_eq_Suc)
  have "compactBytes True w = bslash # CHR ''u'' # h @ compactBytes True v"
    using raw_hex compact_fixed [OF hex4_fixed [OF raw_hex(3,2)], of True v]
    by (simp add: compactBytes.simps(2) [of True bslash])
  then show ?thesis using raw_hex h by (simp add: lowPair_def hex4_def)
next
  case (raw_plain c v)
  then have c: "c \<noteq> bslash" by auto
  have "lowPair w = None" using raw_plain(1) c by (simp add: lowPair_not split: list.split)
  moreover have "lowPair (compactBytes True (c # v)) = None"
  proof (cases "htmlUnsafe c")
    case True
    then show ?thesis using c html_ascii [of c] by (simp add: compactBytes.simps(2) [of True c] lowPair_u00)
  next
    case False
    show ?thesis
    proof (cases "isSep (c # v)")
      case True
      then show ?thesis by (simp add: compact_sep lowPair_u202)
    next
      case nosep: False
      have "lowPair (c # t) = None" for t using c by (simp add: lowPair_not split: list.split)
      with False nosep c show ?thesis by (simp add: compactBytes.simps(2) [of True c])
    qed
  qed
  ultimately show ?thesis using raw_plain(1) by simp
qed simp

lemma raw_app_plain: "rawText (u @ w) \<Longrightarrow> list_all (\<lambda>c. c \<noteq> bslash) u \<Longrightarrow> rawText w"
  by (induction u) (auto dest: rawText_plainD)

lemma compact_string:
  "rawText w \<Longrightarrow> unquote (compactBytes True w) = unquote w \<and> rawText (compactBytes True w) \<and>
     compactBytes True (w @ dq # r) = compactBytes True w @ dq # compactBytes False r"
proof (induction "length w" arbitrary: w rule: less_induct)
  case less
  from less.prems show ?case
  proof cases
    case raw_Nil
    then show ?thesis by (auto simp: compactBytes.simps(2) htmlUnsafe_def dest: isSep_Cons)
  next
    case (raw_letter x y v)
    then have "x \<noteq> CHR ''u''" by (auto simp: escLetter_def)
    with raw_letter less.hyps [of v] show ?thesis
      by (auto simp: compactBytes.simps(2) [of True bslash] unquote.simps(2) [of bslash])
  next
    case (raw_hex h n v)
    let ?E = "compactBytes True"
    have E: "?E (bslash # CHR ''u'' # h @ t) = bslash # CHR ''u'' # h @ ?E t" for t
      using compact_fixed [OF hex4_fixed [OF raw_hex(3,2)], of True t]
      by (simp add: compactBytes.simps(2) [of True bslash])
    have ih: "unquote (?E v) = unquote v" "rawText (?E v)" "?E (v @ dq # r) = ?E v @ dq # compactBytes False r"
      using less.hyps [of v] raw_hex by auto
    have h4: "hex4 (h @ t) = Some n" "drop 4 (h @ t) = t" "drop 10 (h @ t) = drop 6 t" for t
      using hex4_append [OF raw_hex(3)] raw_hex(2) by auto
    have "unquote (drop 6 (?E v)) = unquote (drop 6 v)" if low: "lowPair v \<noteq> None"
    proof -
      obtain t where v: "v = bslash # CHR ''u'' # t" "hex4 t \<noteq> None"
        using low by (auto simp: lowPair_def split: list.splits if_splits option.splits)
      obtain h' n' v' where t: "t = h' @ v'" "length h' = 4" "hex4 h' = Some n'" "rawText v'"
        using raw_hex(4) unfolding v(1)
        by (rule rawText_ConsE) (auto simp: escLetter_def)
      have "?E v = bslash # CHR ''u'' # h' @ ?E v'"
        using compact_fixed [OF hex4_fixed [OF t(3,2)], of True v'] v t
        by (simp add: compactBytes.simps(2) [of True bslash])
      moreover have "unquote (?E v') = unquote v'" using less.hyps [of v'] raw_hex v t by auto
      ultimately show ?thesis using v t by simp
    qed
    then have "unquote (bslash # CHR ''u'' # h @ ?E v) = unquote (bslash # CHR ''u'' # h @ v)"
      by (auto simp: unquote.simps(2) [of bslash] h4 ih(1) raw_hex(2) compact_lowPair [OF raw_hex(4)] split: option.splits)
    then show ?thesis using raw_hex ih E by (auto intro: rawText.raw_hex)
  next
    case (raw_plain c v)
    let ?E = "compactBytes True"
    have c: "c \<noteq> bslash" "c \<noteq> dq" "rawText v" using raw_plain by auto
    have ih: "unquote (?E v) = unquote v" "rawText (?E v)" "?E (v @ dq # r) = ?E v @ dq # compactBytes False r"
      using less.hyps [of v] raw_plain by auto
    consider (html) "htmlUnsafe c" | (sep) "\<not> htmlUnsafe c" "isSep (c # v)" | (copy) "\<not> htmlUnsafe c" "\<not> isSep (c # v)"
      by blast
    then show ?thesis
    proof cases
      case html
      then have a: "code c < 128" using html_ascii by blast
      have "unquote w = c # unquote v" using unquote_rune [of c v 1 v] a c raw_plain(1) by simp
      moreover have "?E w = u00 c @ ?E v" "?E (w @ dq # r) = u00 c @ ?E (v @ dq # r)"
        using html c raw_plain(1) by (simp_all add: compactBytes.simps(2) [of True c])
      ultimately show ?thesis using ih a by (simp add: unquote_u00 raw_u00)
    next
      case sep
      obtain x y t where v: "v = x # y # t" "x \<noteq> bslash" "y \<noteq> bslash" using isSep_plain [OF sep(2)] by blast
      have t: "rawText t" using raw_app_plain [of "[x, y]" t] c(3) v by simp
      then have iht: "unquote (?E t) = unquote t" "rawText (?E t)" "?E (t @ dq # r) = ?E t @ dq # compactBytes False r"
        using less.hyps [of t] raw_plain v by auto
      have s: "isSep ((c # v) @ dq # r)" using sep(2) by (simp only: isSep_append)
      have "?E w = u202 w @ ?E t" "?E (w @ dq # r) = u202 w @ ?E (t @ dq # r)"
        using compact_sep [OF sep(2)] compact_sep [of c "v @ dq # r" True] s v raw_plain(1)
        by (simp_all add: u202_def)
      moreover have "unquote w = take 3 w @ unquote t"
      proof -
        have "runeLen (c # v) = Some 3" using sep(2) runeLen_sep by (auto elim!: isSepD)
        from unquote_rune [OF this c(1), of t] show ?thesis using v raw_plain(1) by simp
      qed
      ultimately show ?thesis using iht unquote_u202 [of w "?E t"] sep(2) raw_plain(1) by (simp add: raw_u202)
    next
      case copy
      have E: "?E w = c # ?E v" "?E (w @ dq # r) = c # ?E (v @ dq # r)"
        using copy c isSep_append [of "c # v" r] raw_plain(1) by (simp_all add: compactBytes.simps(2) [of True c])
      have "unquote (c # ?E v) = unquote (c # v)"
      proof (cases "runeLen (c # v)")
        case None
        then have "runeLen (c # ?E v) = None" using runeLen_cont [OF takeWhile_compact, of c v] by simp
        with None ih(1) show ?thesis by (simp add: unquote_bad)
      next
        case (Some k)
        note rl = runeLen_SomeD [OF this]
        let ?u = "take (k - 1) v" and ?t = "drop (k - 1) v"
        have vt: "v = ?u @ ?t" by simp
        have "list_all fixedChar ?u"
          using rl(4) by (auto simp: list_all_iff isCont_def intro!: fixed_cont)
        then have Ev: "?E v = ?u @ ?E ?t" using compact_fixed [of ?u True ?t] vt by simp
        have "\<not> isCont bslash" by (simp add: isCont_def)
        then have "list_all (\<lambda>c. c \<noteq> bslash) ?u" using rl(4) by (auto simp: list_all_iff)
        then have "rawText ?t" using raw_app_plain [of ?u ?t] c(3) by simp
        then have "unquote (?E ?t) = unquote ?t" using less.hyps [of ?t] raw_plain by auto
        moreover have "unquote (c # ?u @ t) = c # ?u @ unquote t" for t
          using unquote_rune [OF Some c(1), of t] rl(3) by simp
        ultimately show ?thesis using Ev vt by metis
      qed
      then show ?thesis using E ih raw_plain by (auto intro: rawText.raw_plain)
    qed
  qed
qed

subsection \<open>Values\<close>

text \<open>No control character, in particular no line break.\<close>

definition oneLine :: "bytes \<Rightarrow> bool" where
  "oneLine w \<longleftrightarrow> (\<forall>c\<in>set w. 32 \<le> code c)"

lemma oneLine_simps [simp]: "oneLine []" "oneLine (c # w) \<longleftrightarrow> 32 \<le> code c \<and> oneLine w"
    "oneLine (v @ w) \<longleftrightarrow> oneLine v \<and> oneLine w"
  by (auto simp: oneLine_def)

lemma hexVal_code: "hexVal c = Some x \<Longrightarrow> 32 \<le> code c"
  by (auto simp: hexVal_def Let_def split: if_splits)

lemma oneLine_hex: "hex4 h = Some n \<Longrightarrow> length h = 4 \<Longrightarrow> oneLine h"
proof -
  assume h: "hex4 h = Some n" "length h = 4"
  then obtain a b c d where "h = [a, b, c, d]" by (auto simp: length_Suc_conv numeral_eq_Suc)
  with h(1) show "oneLine h" by (auto simp: hex4_def dest: hexVal_code split: option.splits)
qed

lemma oneLine_raw: "rawText w \<Longrightarrow> oneLine w"
proof (induction w rule: rawText.induct)
  case (raw_letter x y w)
  have "32 \<le> code x" using raw_letter(1) by (auto simp: escLetter_def code_def split: if_splits)
  then show ?case using raw_letter by simp
next
  case (raw_hex h n w)
  then show ?case using oneLine_hex by simp
qed (simp_all add: plainChar_def)

abbreviation cz :: "bytes \<Rightarrow> bytes" where "cz \<equiv> compactBytes False"

lemma ws_chars: "isWs c \<Longrightarrow> \<not> htmlUnsafe c \<and> code c \<noteq> 226 \<and> c \<noteq> bslash"
  by (auto simp: isWs_def htmlUnsafe_def code_def)

lemma cz_skipWs: "cz (skipWs s) = cz s"
  by (induction s) (auto simp: skipWs_def compactBytes.simps(2) dest: ws_chars isSep_Cons)

lemma skipWs_hd: "skipWs s = c # t \<Longrightarrow> \<not> isWs c"
  by (simp add: skipWs_def dropWhile_eq_Cons_conv)

lemma skipWs_id [simp]: "\<not> isWs c \<Longrightarrow> skipWs (c # t) = c # t"
  by (simp add: skipWs_def)

lemma ws_lits [simp]: "\<not> isWs dq" "\<not> isWs lbrack" "\<not> isWs rbrack" "\<not> isWs lbrace" "\<not> isWs rbrace"
    "\<not> isWs (CHR '','')" "\<not> isWs (CHR '':'')"
  by (simp_all add: isWs_def code_def)

lemma num_lits [simp]: "\<not> numChar rbrack" "\<not> numChar rbrace" "\<not> numChar (CHR '','')"
  by (simp_all add: numChar_def isDigit_def code_def)

lemma fixed_lits: "fixedChar lbrack" "fixedChar rbrack" "fixedChar lbrace" "fixedChar rbrace" "fixedChar (CHR '','')" "fixedChar (CHR '':'')"
  by (simp_all add: fixedChar_def htmlUnsafe_def isWs_def code_def)

lemma cz_fixed: "fixedChar c \<Longrightarrow> cz (c # s) = c # cz s"
  using compact_fixed [of "[c]" False s] by simp

lemma fixed_num: "numChar c \<Longrightarrow> fixedChar c"
  by (auto simp: numChar_def isDigit_def fixedChar_def htmlUnsafe_def isWs_def code_def)

lemma cz_string: "rawText w \<Longrightarrow> cz (dq # w @ dq # r) = dq # compactBytes True w @ dq # cz r"
  using compact_string [of w r] by (auto simp: compactBytes.simps(2) [of False dq] htmlUnsafe_def dest: isSep_Cons)

lemma scanStr_raw: "rawText w \<Longrightarrow> scanStr (w @ dq # r) = Some (w, r)"
  by (simp add: scanStr_iff)

lemma cz_itemEnd:
  assumes "itemEnd c s = Some (b, r)" "c = rbrack \<or> c = rbrace"
  obtains x where "cz s = x # cz r" "\<not> numChar x" "\<And>r'. itemEnd c (x # r') = Some (b, r')" "32 \<le> code x"
proof -
  obtain x where x: "skipWs s = x # r" "x = c \<and> \<not> b \<or> x = CHR '','' \<and> x \<noteq> c \<and> b"
    using assms(1) by (auto simp: itemEnd_def split: list.splits if_splits)
  then have "fixedChar x" "\<not> numChar x" "\<not> isWs x" using assms(2) by (auto simp: fixed_lits)
  moreover have "32 \<le> code x" using x(2) assms(2) by (auto simp: code_def)
  moreover have "cz s = x # cz r" using cz_skipWs [of s] x(1) cz_fixed [OF \<open>fixedChar x\<close>] by simp
  moreover have "itemEnd c (x # r') = Some (b, r')" for r'
    using x(2) \<open>\<not> isWs x\<close> by (auto simp: itemEnd_def)
  ultimately show thesis using that by blast
qed

lemma cz_memberKey:
  assumes "memberKey s = Some (k, t)"
  obtains out where "cz s = dq # out @ cz t" "oneLine out"
    "\<And>t'. skipWs t' = t' \<Longrightarrow> memberKey (dq # out @ t') = Some (k, t')"
proof -
  obtain w u v where w: "skipWs s = dq # w @ dq # u" "rawText w" "skipWs u = CHR '':'' # v"
    "k = unquote w" "t = skipWs v"
    using assms by (auto simp: memberKey_def scanStr_iff split: list.splits if_splits option.splits)
  let ?E = "compactBytes True w"
  have "cz s = dq # ?E @ dq # cz u" using cz_skipWs [of s] w(1) cz_string [OF w(2)] by simp
  also have "cz u = CHR '':'' # cz t" using cz_skipWs [of u] cz_skipWs [of v] w(3,5) cz_fixed fixed_lits by simp
  finally have "cz s = dq # (?E @ [dq, CHR '':'']) @ cz t" by simp
  moreover have "oneLine (?E @ [dq, CHR '':''])"
    using oneLine_raw [of ?E] compact_string [OF w(2), of u] by (simp add: code_def)
  moreover have "memberKey (dq # (?E @ [dq, CHR '':'']) @ t') = Some (k, t')" if "skipWs t' = t'" for t'
    using that compact_string [OF w(2), of u] w(4) by (simp add: memberKey_def scanStr_raw)
  ultimately show thesis using that by blast
qed

lemma fixed_word: "list_all fixedChar ''true''" "list_all fixedChar ''false''" "list_all fixedChar ''null''"
  by (simp_all add: fixedChar_def htmlUnsafe_def isWs_def code_def)

lemma oneLine_word: "oneLine ''true''" "oneLine ''false''" "oneLine ''null''"
  by (simp_all add: code_def)

lemma oneLine_num: "list_all numChar w \<Longrightarrow> oneLine w"
  by (auto simp: oneLine_def list_all_iff numChar_def isDigit_def code_def)

lemma cz_scalar:
  assumes "scalar (c # t) = Some (v, r)"
  obtains out where "cz (c # t) = c # out @ cz r" "oneLine (c # out)" "\<And>r'. stops r' \<Longrightarrow> scalar (c # out @ r') = Some (v, r')"
proof -
  from assms consider (str) w where "c = dq" "t = w @ dq # r" "rawText w" "v = TStr (unquote w)"
    | (word) w where "list_all fixedChar (c # w)" "oneLine (c # w)" "t = w @ r" "\<And>r'. scalar (c # w @ r') = Some (v, r')"
    | (num) w where "c \<noteq> dq" "c \<noteq> CHR ''t''" "c \<noteq> CHR ''f''" "c \<noteq> CHR ''n''" "scanNum (c # t) = Some (w, r)" "v = TNum w"
  proof (cases "c = dq")
    case True
    with assms that(1) show ?thesis by (auto simp: scalar_def scanStr_iff)
  next
    case False
    show ?thesis
    proof (cases "c = CHR ''t'' \<or> c = CHR ''f'' \<or> c = CHR ''n''")
      case True
      then show ?thesis
        using assms False that(2) [of "''rue''"] that(2) [of "''alse''"] that(2) [of "''ull''"] fixed_word oneLine_word
        by (auto simp: scalar_def litWord_def prefix_def split: if_splits)
    next
      case nl: False
      with assms False that(3) show ?thesis by (auto simp: scalar_def)
    qed
  qed
  then show thesis
  proof cases
    case str
    let ?E = "compactBytes True w"
    have "scalar (c # (?E @ [dq]) @ r') = Some (v, r')" for r'
      using str compact_string [OF str(3), of r] by (simp add: scalar_def scanStr_raw)
    moreover have "cz (c # t) = c # (?E @ [dq]) @ cz r" using str cz_string [OF str(3)] by simp
    moreover have "oneLine (c # ?E @ [dq])" using str oneLine_raw [of ?E] compact_string [OF str(3), of r] by simp
    ultimately show thesis using that by blast
  next
    case word
    then show thesis using that [of w] compact_fixed [OF word(1), of False r] word by simp
  next
    case num
    note sp = scanNum_split [OF num(5)]
    then obtain w' where w: "w = c # w'" "t = w' @ r" by (cases w) auto
    have "list_all fixedChar w" using sp(2) by (auto simp: list_all_iff intro: fixed_num)
    then have "cz (c # t) = c # w' @ cz r" using compact_fixed [of w False r] w by simp
    moreover have "scalar (c # w' @ r') = Some (v, r')" if "stops r'" for r'
      using sp(4) [OF that] num w by (simp add: scalar_def)
    moreover have "oneLine (c # w')" using oneLine_num [OF sp(2)] w by simp
    ultimately show thesis using that by blast
  qed
qed

text \<open>Compaction of a value, wherever it stands: the bytes it becomes read as the same value
  in front of anything that ends a value.\<close>

lemma stops_x: "\<not> numChar x \<Longrightarrow> stops (x # r)"
  by simp

lemma hd_scalar: "scalar (c # t) = Some x \<Longrightarrow> c \<noteq> rbrack \<and> c \<noteq> rbrace"
proof -
  have "\<not> isDigit rbrack" "\<not> isDigit rbrace" by (simp_all add: isDigit_def code_def)
  then have "scalar (rbrack # t) = None" "scalar (rbrace # t) = None"
    by (simp_all add: scalar_def scanNum_def scanInt_def)
  then show "scalar (c # t) = Some x \<Longrightarrow> c \<noteq> rbrack \<and> c \<noteq> rbrace" by auto
qed

lemma rawOf_append [simp]: "rawOf (w @ r) r = w"
  by (simp add: rawOf_def)

lemma rawOf_Cons [simp]: "rawOf (c # w @ r) r = c # w"
  using rawOf_append [of "c # w" r] by simp

lemma code_lbr: "code lbrack = 91" "code lbrace = 123" "code rbrack = 93" "code rbrace = 125"
  by (simp_all add: code_def)

lemma compact_grammar:
  "isValue d s v r \<Longrightarrow> \<exists>c out. cz s = c # out @ cz r \<and> oneLine (c # out) \<and> \<not> isWs c \<and> c \<noteq> rbrack \<and>
     (\<forall>r'. stops r' \<longrightarrow> isValue d (c # out @ r') v r')"
  "isElems d s vs r \<Longrightarrow> \<exists>c out. cz s = c # out @ cz r \<and> oneLine (c # out) \<and> \<not> isWs c \<and> c \<noteq> rbrack \<and>
     (\<forall>r'. isElems d (c # out @ r') vs r')"
  "isMembers d s ms r \<Longrightarrow> \<exists>out ms'. cz s = dq # out @ cz r \<and> oneLine out \<and> keyVals ms' = keyVals ms \<and>
     (\<forall>r'. isMembers d (dq # out @ r') ms' r')"
proof (induction rule: grammar_induct)
  case (v_scalar s c t v r d)
  obtain out where o: "cz (c # t) = c # out @ cz r" "oneLine (c # out)" "\<And>r'. stops r' \<Longrightarrow> scalar (c # out @ r') = Some (v, r')"
    by (rule cz_scalar [OF v_scalar(4)]) blast
  have "isValue d (c # out @ r') v r'" if "stops r'" for r'
    using grammar_intros(1) [of "c # out @ r'" c "out @ r'" v r' d] v_scalar(2,3) o(3) [OF that]
      skipWs_hd [OF v_scalar(1)] by simp
  then show ?case
    using o(1,2) cz_skipWs [of s] v_scalar(1) skipWs_hd [OF v_scalar(1)] hd_scalar [OF v_scalar(4)] by metis
next
  case (v_arr0 s t r d)
  have "cz s = lbrack # rbrack # cz r"
    using cz_skipWs [of s] cz_skipWs [of t] v_arr0 by (simp add: cz_fixed fixed_lits)
  moreover have "isValue (Suc d) (lbrack # rbrack # r') (TArr []) r'" for r'
    by (rule grammar_intros(2) [where t = "rbrack # r'"]) (simp_all only: skipWs_id ws_lits not_False_eq_True)
  ultimately show ?case by (intro exI [of _ lbrack] exI [of _ "[rbrack]"]) (simp add: code_lbr)
next
  case (v_arr s t x u d vs r)
  then obtain c out where o: "cz t = c # out @ cz r" "\<not> isWs c" "c \<noteq> rbrack" "oneLine (c # out)" "\<forall>r'. isElems d (c # out @ r') vs r'"
    by blast
  have "cz s = lbrack # (c # out) @ cz r"
    using cz_skipWs [of s] v_arr(1) o(1) by (simp add: cz_fixed fixed_lits)
  moreover have "isValue (Suc d) (lbrack # (c # out) @ r') (TArr vs) r'" for r'
    using o by (intro grammar_intros(3) [of _ "c # out @ r'" c "out @ r'"]) simp_all
  ultimately show ?case using o(4) by (intro exI [of _ lbrack] exI [of _ "c # out"]) (simp add: code_lbr)
next
  case (v_obj0 s t r d)
  have "cz s = lbrace # rbrace # cz r"
    using cz_skipWs [of s] cz_skipWs [of t] v_obj0 by (simp add: cz_fixed fixed_lits)
  moreover have "isValue (Suc d) (lbrace # rbrace # r') (TObj []) r'" for r'
    by (rule grammar_intros(4) [where t = "rbrace # r'"]) (simp_all only: skipWs_id ws_lits not_False_eq_True)
  ultimately show ?case by (intro exI [of _ lbrace] exI [of _ "[rbrace]"]) (simp add: code_lbr)
next
  case (v_obj s t x u d ms r)
  then obtain out ms' where o: "cz t = dq # out @ cz r" "keyVals ms' = keyVals ms" "oneLine out"
    "\<forall>r'. isMembers d (dq # out @ r') ms' r'" by blast
  have "cz s = lbrace # (dq # out) @ cz r"
    using cz_skipWs [of s] v_obj(1) o(1) by (simp add: cz_fixed fixed_lits)
  moreover have "isValue (Suc d) (lbrace # (dq # out) @ r') (TObj (keyVals ms)) r'" for r'
    unfolding o(2) [symmetric]
    using o by (intro grammar_intros(5) [of _ "dq # out @ r'" dq "out @ r'"]) simp_all
  ultimately show ?case using o(3) by (intro exI [of _ lbrace] exI [of _ "dq # out"]) (simp add: code_lbr)
next
  case (e_last d s v r0 r)
  then obtain c out where o: "cz s = c # out @ cz r0" "\<not> isWs c" "c \<noteq> rbrack" "oneLine (c # out)"
    "\<And>r'. stops r' \<Longrightarrow> isValue d (c # out @ r') v r'" by blast
  obtain x where x: "cz r0 = x # cz r" "\<not> numChar x" "\<And>r'. itemEnd rbrack (x # r') = Some (False, r')" "32 \<le> code x"
    by (rule cz_itemEnd [OF e_last(2)]) auto
  have "isElems d (c # (out @ [x]) @ r') [v] r'" for r'
    using grammar_intros(6) [OF o(5) x(3)] x(2) by simp
  then show ?case using o x by (intro exI [of _ c] exI [of _ "out @ [x]"]) simp
next
  case (e_more d s v r0 r1 vs r)
  then obtain c out where o: "cz s = c # out @ cz r0" "\<not> isWs c" "c \<noteq> rbrack" "oneLine (c # out)"
    "\<And>r'. stops r' \<Longrightarrow> isValue d (c # out @ r') v r'" by blast
  obtain c2 out2 where e: "cz r1 = c2 # out2 @ cz r" "\<And>r'. isElems d (c2 # out2 @ r') vs r'" "oneLine (c2 # out2)"
    using e_more by blast
  obtain x where x: "cz r0 = x # cz r1" "\<not> numChar x" "\<And>r'. itemEnd rbrack (x # r') = Some (True, r')" "32 \<le> code x"
    by (rule cz_itemEnd [OF e_more(2)]) auto
  have "isElems d (c # (out @ x # c2 # out2) @ r') (v # vs) r'" for r'
    using grammar_intros(7) [OF o(5) x(3) e(2)] x(2) by simp
  then show ?case using o x e by (intro exI [of _ c] exI [of _ "out @ x # c2 # out2"]) simp
next
  case (m_last s k t d v r0 r)
  then obtain c out where o: "cz t = c # out @ cz r0" "\<not> isWs c" "oneLine (c # out)"
    "\<And>r'. stops r' \<Longrightarrow> isValue d (c # out @ r') v r'" by blast
  obtain ko where k: "cz s = dq # ko @ cz t" "oneLine ko" "\<And>t'. skipWs t' = t' \<Longrightarrow> memberKey (dq # ko @ t') = Some (k, t')"
    by (rule cz_memberKey [OF m_last(1)]) blast
  obtain x where x: "cz r0 = x # cz r" "\<not> numChar x" "\<And>r'. itemEnd rbrace (x # r') = Some (False, r')" "32 \<le> code x"
    by (rule cz_itemEnd [OF m_last(3)]) auto
  have "isMembers d (dq # ko @ c # out @ x # r') [(k, c # out, v)] r'" for r'
    by (metis rawOf_Cons skipWs_id o(2) stops_x x(2) k(3) grammar_intros(8) o(4) x(3))
  then show ?case using o x k
    by (intro exI [of _ "ko @ c # out @ [x]"] exI [of _ "[(k, c # out, v)]"]) simp
next
  case (m_more s k t d v r0 r1 ms r)
  then obtain c out where o: "cz t = c # out @ cz r0" "\<not> isWs c" "oneLine (c # out)"
    "\<And>r'. stops r' \<Longrightarrow> isValue d (c # out @ r') v r'" by blast
  obtain out2 ms' where e: "cz r1 = dq # out2 @ cz r" "keyVals ms' = keyVals ms" "oneLine out2"
    "\<And>r'. isMembers d (dq # out2 @ r') ms' r'" using m_more by blast
  obtain ko where k: "cz s = dq # ko @ cz t" "oneLine ko" "\<And>t'. skipWs t' = t' \<Longrightarrow> memberKey (dq # ko @ t') = Some (k, t')"
    by (rule cz_memberKey [OF m_more(1)]) blast
  obtain x where x: "cz r0 = x # cz r1" "\<not> numChar x" "\<And>r'. itemEnd rbrace (x # r') = Some (True, r')" "32 \<le> code x"
    by (rule cz_itemEnd [OF m_more(3)]) auto
  have "isMembers d (dq # ko @ c # out @ x # dq # out2 @ r') ((k, c # out, v) # ms') r'" for r'
    by (metis rawOf_Cons skipWs_id o(2) stops_x x(2) k(3) grammar_intros(9) o(4) x(3) e(4))
  then show ?case using o x k e
    by (intro exI [of _ "ko @ c # out @ x # dq # out2"] exI [of _ "(k, c # out, v) # ms'"]) simp
qed

end
