(* ===== verification/Json_Print.thy ===== *)
theory Json_Print
  imports Json_Compact
begin

text \<open>
  Printing JSON and reading it back: a text denotes a value when it reads as that value in
  front of anything that ends it; objects printed from texts that denote values read as their
  members.
\<close>

subsection \<open>A value does not depend on what follows it\<close>

lemma scalar_local:
  assumes "scalar (c # t) = Some (v, r)"
  obtains w where "t = w @ r" "\<And>r'. stops r' \<Longrightarrow> scalar (c # w @ r') = Some (v, r')"
proof (cases "c \<noteq> dq \<and> c \<noteq> CHR ''t'' \<and> c \<noteq> CHR ''f'' \<and> c \<noteq> CHR ''n''")
  case True
  then obtain n where n: "scanNum (c # t) = Some (n, r)" "v = TNum n" using assms by (auto simp: scalar_def)
  then obtain w where w: "n = c # w" "t = w @ r" using scanNum_split(1,3) [OF n(1)] by (cases n) auto
  have "scalar (c # w @ r') = Some (v, r')" if "stops r'" for r'
    using scanNum_split(4) [OF n(1) that] True n w by (simp add: scalar_def)
  with w that show thesis by blast
next
  case False
  show thesis
  proof (cases "c = dq")
    case True
    then obtain raw where "t = (raw @ [dq]) @ r" "rawText raw" "v = TStr (unquote raw)"
      using assms by (auto simp: scalar_def scanStr_iff)
    then show thesis using that True by (simp add: scalar_def scanStr_raw)
  next
    case nq: False
    with False assms show thesis
      using that [of "''rue''"] that [of "''alse''"] that [of "''ull''"]
      by (auto simp: scalar_def litWord_def prefix_def split: if_splits)
  qed
qed

lemma skipWs_split:
  assumes "skipWs s = c # t" obtains w where "s = w @ c # t" "\<And>t'. skipWs (w @ c # t') = c # t'"
proof -
  have "s = takeWhile isWs s @ c # t" using assms by (metis skipWs_def takeWhile_dropWhile_id)
  moreover have "skipWs (takeWhile isWs s @ c # t') = c # t'" for t'
    using skipWs_hd [OF assms] unfolding skipWs_def
    by (subst dropWhile_append2) (auto dest: set_takeWhileD)
  ultimately show thesis using that by blast
qed

lemma itemEnd_local:
  assumes "itemEnd c s = Some (b, r)" "c = rbrack \<or> c = rbrace"
  obtains w where "s = w @ r" "stops w" "w \<noteq> []" "\<And>r'. itemEnd c (w @ r') = Some (b, r')"
proof -
  obtain x where x: "skipWs s = x # r" "x = c \<and> \<not> b \<or> x = CHR '','' \<and> x \<noteq> c \<and> b"
    using assms(1) by (auto simp: itemEnd_def split: list.splits if_splits)
  obtain w where w: "s = w @ x # r" "\<And>t'. skipWs (w @ x # t') = x # t'" using skipWs_split [OF x(1)] by blast
  have ws: "\<not> numChar y" if "isWs y" for y
    using that by (auto simp: isWs_def numChar_def isDigit_def code_def)
  have "stops (w @ [x])"
  proof (cases w)
    case Nil
    then show ?thesis using x(2) assms(2) by auto
  next
    case (Cons y w')
    then have "isWs y" using w(2) [of r] by (auto simp: skipWs_def split: if_splits)
    then show ?thesis using Cons ws by simp
  qed
  moreover have "itemEnd c ((w @ [x]) @ r') = Some (b, r')" for r'
    using w(2) [of r'] x(2) by (auto simp: itemEnd_def)
  ultimately show thesis using that [of "w @ [x]"] w(1) by simp
qed

lemma memberKey_local:
  assumes "memberKey s = Some (k, t)"
  obtains w where "s = w @ t" "\<And>t'. skipWs t' = t' \<Longrightarrow> memberKey (w @ t') = Some (k, t')" "skipWs t = t"
proof -
  obtain raw u v where m: "skipWs s = dq # raw @ dq # u" "rawText raw" "skipWs u = CHR '':'' # v"
    "k = unquote raw" "t = skipWs v"
    using assms by (auto simp: memberKey_def scanStr_iff split: list.splits if_splits option.splits)
  obtain w1 where w1: "s = w1 @ dq # raw @ dq # u" "\<And>t'. skipWs (w1 @ dq # t') = dq # t'"
    using skipWs_split [OF m(1)] by blast
  obtain w2 where w2: "u = w2 @ CHR '':'' # v" "\<And>t'. skipWs (w2 @ CHR '':'' # t') = CHR '':'' # t'"
    using skipWs_split [OF m(3)] by blast
  obtain w3 where w3: "v = w3 @ t" "list_all isWs w3"
    using m(5) by (metis skipWs_def takeWhile_dropWhile_id list_all_iff set_takeWhileD)
  have t: "skipWs t = t" using m(5) by (simp add: skipWs_def dropWhile_idem)
  have "skipWs (w3 @ t') = t'" if "skipWs t' = t'" for t'
    using w3(2) that by (induction w3) (auto simp: skipWs_def)
  then have "memberKey ((w1 @ dq # raw @ dq # w2 @ CHR '':'' # w3) @ t') = Some (k, t')" if "skipWs t' = t'" for t'
    using that w1(2) w2(2) m(2,4) by (simp add: memberKey_def scanStr_raw)
  then show thesis using that [OF _ _ t] w1(1) w2(1) w3(1) by simp
qed


lemma stops_append: "stops w \<Longrightarrow> w \<noteq> [] \<Longrightarrow> stops (w @ r)"
  by (cases w) auto

lemma skipWs_same: "skipWs (c # t) = c # t \<longleftrightarrow> \<not> isWs c"
proof -
  have "length (skipWs t) \<le> length t" by (simp add: skipWs_def length_dropWhile_le)
  then have "skipWs t \<noteq> c # t" by auto
  then show ?thesis by (simp add: skipWs_def)
qed

lemma skipWs_app: "skipWs (w @ r) = w @ r \<Longrightarrow> w \<noteq> [] \<Longrightarrow> skipWs (w @ r') = w @ r'"
  by (cases w) (simp_all add: skipWs_same)

lemma grammar_local:
  "isValue d s v r \<Longrightarrow> \<exists>w. s = w @ r \<and> (\<forall>r'. stops r' \<longrightarrow> isValue d (w @ r') v r')"
  "isElems d s vs r \<Longrightarrow> \<exists>w. s = w @ r \<and> (\<forall>r'. isElems d (w @ r') vs r')"
  "isMembers d s ms r \<Longrightarrow> \<exists>w. s = w @ r \<and> (\<forall>r'. isMembers d (w @ r') ms r')"
proof (induction rule: grammar_induct)
  case (v_scalar s c t v r d)
  obtain w1 where w1: "s = w1 @ c # t" "\<And>t'. skipWs (w1 @ c # t') = c # t'" using skipWs_split [OF v_scalar(1)] by blast
  obtain w where w: "t = w @ r" "\<And>r'. stops r' \<Longrightarrow> scalar (c # w @ r') = Some (v, r')"
    using scalar_local [OF v_scalar(4)] by blast
  have "isValue d ((w1 @ c # w) @ r') v r'" if "stops r'" for r'
    using grammar_intros(1) [OF _ v_scalar(2,3) w(2) [OF that]] w1(2) by simp
  then show ?case using w1 w by (intro exI [of _ "w1 @ c # w"]) simp
next
  case (v_arr0 s t r d)
  obtain w1 where w1: "s = w1 @ lbrack # t" "\<And>t'. skipWs (w1 @ lbrack # t') = lbrack # t'"
    using skipWs_split [OF v_arr0(1)] by blast
  obtain w2 where w2: "t = w2 @ rbrack # r" "\<And>t'. skipWs (w2 @ rbrack # t') = rbrack # t'"
    using skipWs_split [OF v_arr0(2)] by blast
  show ?case using w1 w2 grammar_intros(2) [OF w1(2) w2(2)]
    by (intro exI [of _ "w1 @ lbrack # w2 @ [rbrack]"]) simp
next
  case (v_arr s t x u d vs r)
  obtain w1 where w1: "s = w1 @ lbrack # t" "\<And>t'. skipWs (w1 @ lbrack # t') = lbrack # t'"
    using skipWs_split [OF v_arr(1)] by blast
  obtain w where w: "t = w @ r" "\<And>r'. isElems d (w @ r') vs r'" using v_arr.IH by blast
  have "isValue (Suc d) (w1 @ lbrack # w @ r') (TArr vs) r'" for r'
  proof -
    have "strict_suffix r (w @ r)" using grammar_suffix(2) [OF v_arr(4)] w(1) by simp
    then have "w \<noteq> []" by auto
    obtain x' u' where "skipWs (w @ r') = x' # u'" "x' \<noteq> rbrack"
    proof -
      obtain v0 r0 where "isValue d (w @ r') v0 r0" using w(2) [of r'] by (cases rule: isElems.cases) auto
      then obtain c u' where c: "skipWs (w @ r') = c # u'" "c = lbrack \<or> c = lbrace \<or> scalar (c # u') \<noteq> None"
        by (cases rule: isValue.cases) auto
      then have "c \<noteq> rbrack" using hd_scalar by auto
      with c(1) that show thesis by blast
    qed
    then show ?thesis using grammar_intros(3) [OF w1(2) _ _ w(2)] by blast
  qed
  then show ?case using w1(1) w(1) by (intro exI [of _ "w1 @ lbrack # w"]) simp
next
  case (v_obj0 s t r d)
  obtain w1 where w1: "s = w1 @ lbrace # t" "\<And>t'. skipWs (w1 @ lbrace # t') = lbrace # t'"
    using skipWs_split [OF v_obj0(1)] by blast
  obtain w2 where w2: "t = w2 @ rbrace # r" "\<And>t'. skipWs (w2 @ rbrace # t') = rbrace # t'"
    using skipWs_split [OF v_obj0(2)] by blast
  show ?case using w1 w2 grammar_intros(4) [OF w1(2) w2(2)]
    by (intro exI [of _ "w1 @ lbrace # w2 @ [rbrace]"]) simp
next
  case (v_obj s t x u d ms r)
  obtain w1 where w1: "s = w1 @ lbrace # t" "\<And>t'. skipWs (w1 @ lbrace # t') = lbrace # t'"
    using skipWs_split [OF v_obj(1)] by blast
  obtain w where w: "t = w @ r" "\<And>r'. isMembers d (w @ r') ms r'" using v_obj.IH by blast
  have "isValue (Suc d) (w1 @ lbrace # w @ r') (TObj (keyVals ms)) r'" for r'
  proof -
    obtain k t0 where "memberKey (w @ r') = Some (k, t0)" using w(2) [of r'] by (cases rule: isMembers.cases) auto
    then obtain u' where "skipWs (w @ r') = dq # u'" by (auto simp: memberKey_def split: list.splits if_splits)
    then show ?thesis using grammar_intros(5) [OF w1(2) _ _ w(2)] by simp
  qed
  then show ?case using w1(1) w(1) by (intro exI [of _ "w1 @ lbrace # w"]) simp
next
  case (e_last d s v r0 r)
  obtain w where w: "s = w @ r0" "\<And>r'. stops r' \<Longrightarrow> isValue d (w @ r') v r'" using e_last by blast
  obtain x where x: "r0 = x @ r" "stops x" "x \<noteq> []" "\<And>r'. itemEnd rbrack (x @ r') = Some (False, r')"
    using itemEnd_local [OF e_last(2)] by blast
  show ?case using w x grammar_intros(6) [OF w(2) x(4)] stops_append [OF x(2,3)]
    by (intro exI [of _ "w @ x"]) simp
next
  case (e_more d s v r0 r1 vs r)
  obtain w where w: "s = w @ r0" "\<And>r'. stops r' \<Longrightarrow> isValue d (w @ r') v r'" using e_more by blast
  obtain w2 where w2: "r1 = w2 @ r" "\<And>r'. isElems d (w2 @ r') vs r'" using e_more by blast
  obtain x where x: "r0 = x @ r1" "stops x" "x \<noteq> []" "\<And>r'. itemEnd rbrack (x @ r') = Some (True, r')"
    using itemEnd_local [OF e_more(2)] by blast
  show ?case using w x w2 grammar_intros(7) [OF w(2) x(4) w2(2)] stops_append [OF x(2,3)]
    by (intro exI [of _ "w @ x @ w2"]) simp
next
  case (m_last s k t d v r0 r)
  obtain wk where k: "s = wk @ t" "\<And>t'. skipWs t' = t' \<Longrightarrow> memberKey (wk @ t') = Some (k, t')" "skipWs t = t"
    using memberKey_local [OF m_last(1)] by blast
  obtain w where w: "t = w @ r0" "\<And>r'. stops r' \<Longrightarrow> isValue d (w @ r') v r'" using m_last by blast
  obtain x where x: "r0 = x @ r" "stops x" "x \<noteq> []" "\<And>r'. itemEnd rbrace (x @ r') = Some (False, r')"
    using itemEnd_local [OF m_last(3)] by blast
  have "w \<noteq> []" using grammar_suffix(1) [OF m_last(2)] w(1) by auto
  then have "skipWs (w @ r') = w @ r'" for r' using skipWs_app [of w r0] k(3) w(1) by simp
  then have "isMembers d (wk @ w @ x @ r') [(k, rawOf (w @ x @ r') (x @ r'), v)] r'" for r'
    by (rule grammar_intros(8) [OF k(2) w(2) x(4)]) (rule stops_append [OF x(2,3)])
  then have "isMembers d ((wk @ w @ x) @ r') [(k, w, v)] r'" for r' by simp
  then show ?case using w x k by (intro exI [of _ "wk @ w @ x"]) simp
next
  case (m_more s k t d v r0 r1 ms r)
  obtain wk where k: "s = wk @ t" "\<And>t'. skipWs t' = t' \<Longrightarrow> memberKey (wk @ t') = Some (k, t')" "skipWs t = t"
    using memberKey_local [OF m_more(1)] by blast
  obtain w where w: "t = w @ r0" "\<And>r'. stops r' \<Longrightarrow> isValue d (w @ r') v r'" using m_more by blast
  obtain w2 where w2: "r1 = w2 @ r" "\<And>r'. isMembers d (w2 @ r') ms r'" using m_more by blast
  obtain x where x: "r0 = x @ r1" "stops x" "x \<noteq> []" "\<And>r'. itemEnd rbrace (x @ r') = Some (True, r')"
    using itemEnd_local [OF m_more(3)] by blast
  have "w \<noteq> []" using grammar_suffix(1) [OF m_more(2)] w(1) by auto
  then have "skipWs (w @ r') = w @ r'" for r' using skipWs_app [of w r0] k(3) w(1) by simp
  then have "isMembers d (wk @ w @ x @ w2 @ r') ((k, rawOf (w @ x @ w2 @ r') (x @ w2 @ r'), v) # ms) r'" for r'
    by (rule grammar_intros(9) [OF k(2) w(2) x(4) w2(2)]) (rule stops_append [OF x(2,3)])
  then have "isMembers d ((wk @ w @ x @ w2) @ r') ((k, w, v) # ms) r'" for r' by simp
  then show ?case using w x w2 k by (intro exI [of _ "wk @ w @ x @ w2"]) simp
qed


subsection \<open>Texts that denote values\<close>

definition denotes :: "nat \<Rightarrow> bytes \<Rightarrow> jtree \<Rightarrow> bool" where
  "denotes d w v \<longleftrightarrow> w \<noteq> [] \<and> skipWs w = w \<and> (\<forall>r. stops r \<longrightarrow> isValue d (w @ r) v r)"

lemma denotes_skip: "denotes d w v \<Longrightarrow> skipWs (w @ r) = w @ r"
  using skipWs_app [of w "[]" r] by (simp add: denotes_def)

lemma denotes_value: "denotes d w v \<Longrightarrow> isValue d w v []"
  by (auto simp: denotes_def dest!: spec [of _ "[]"])

lemma denotes_jsonValue:
  assumes "denotes d w v" "d \<le> maxDepth" shows "jsonValue w = Some v"
proof -
  have "parseV (fuelFor w) maxDepth w = Some (v, [])"
    using grammar_depth(1) [OF denotes_value [OF assms(1)] assms(2)] by (simp add: parseV_iff)
  then show ?thesis by (simp add: jsonValue_def skipWs_def)
qed

lemma denotes_compact:
  assumes "denotes d w v" "d \<le> maxDepth"
  shows "compactJSON w = Some (cz w)" "denotes d (cz w) v" "oneLine (cz w)"
proof -
  show "compactJSON w = Some (cz w)" using denotes_jsonValue [OF assms] by (simp add: compactJSON_def)
  obtain c out where "cz w = c # out" "oneLine (c # out)" "\<not> isWs c"
    "\<And>r'. stops r' \<Longrightarrow> isValue d (c # out @ r') v r'"
    using compact_grammar(1) [OF denotes_value [OF assms(1)]] by auto
  then show "denotes d (cz w) v" "oneLine (cz w)" by (simp_all add: denotes_def)
qed

lemma rawOf_denotes:
  assumes "memberKey s = Some (k, t)" "isValue d t v r0" shows "denotes d (rawOf t r0) v"
proof -
  obtain w where w: "t = w @ r0" "\<And>r'. stops r' \<Longrightarrow> isValue d (w @ r') v r'"
    using grammar_local(1) [OF assms(2)] by blast
  have "skipWs t = t" using memberKey_local [OF assms(1)] by blast
  moreover have "w \<noteq> []" using grammar_suffix(1) [OF assms(2)] w(1) by auto
  ultimately have "skipWs w = w" using skipWs_app [of w r0 "[]"] w(1) by simp
  then show ?thesis using w \<open>w \<noteq> []\<close> by (simp add: denotes_def)
qed

lemma members_denote:
  "isValue d s v r \<Longrightarrow> True"
  "isElems d s vs r \<Longrightarrow> True"
  "isMembers d s ms r \<Longrightarrow> \<forall>(k, w, v)\<in>set ms. denotes d w v"
  by (induction rule: grammar_induct) (auto intro: rawOf_denotes)

subsection \<open>Scalars\<close>

lemma denotes_scalar:
  assumes "c \<noteq> lbrack" "c \<noteq> lbrace" "\<not> isWs c" "\<And>r. stops r \<Longrightarrow> scalar (c # w @ r) = Some (v, r)"
  shows "denotes d (c # w) v"
  using grammar_intros(1) [OF _ assms(1,2) assms(4)] assms(3) by (simp add: denotes_def)

lemma rawText_escBytes: "rawText (escBytes s)"
  using scanStr_quoteJSON(2) [of s "[]"] by (simp add: scanStr_iff)

lemma denotes_quote: "denotes d (quoteJSON s) (TStr (toValid s))"
  unfolding quoteJSON_def append_Cons append_Nil
  by (rule denotes_scalar) (simp_all add: scalar_def scanStr_raw rawText_escBytes unquote_escBytes)

lemma denotes_words: "denotes d ''true'' (TBool True)" "denotes d ''false'' (TBool False)" "denotes d ''null'' TNull"
  by (rule denotes_scalar; simp add: scalar_def litWord_def isWs_def code_def)+

lemma natDigits_hd: "n \<noteq> 0 \<Longrightarrow> hd (natDigits n) \<noteq> CHR ''0''"
proof (induction n rule: natDigits.induct)
  case (1 n)
  show ?case
  proof (cases "n < 10")
    case True
    have "code (CHR ''0'') = 48" by (simp add: code_def)
    moreover have "code (char_of (48 + n)) = 48 + n" using True by simp
    ultimately have "char_of (48 + n) \<noteq> CHR ''0''" using 1(2) by (metis add_cancel_right_right)
    then show ?thesis using True by (simp add: natDigits.simps [of n])
  next
    case False
    then show ?thesis using 1 natDigits_digits [of "n div 10"] by (simp add: natDigits.simps [of n])
  qed
qed

lemma scanInt_natDigits:
  assumes "case r of [] \<Rightarrow> True | c # _ \<Rightarrow> \<not> isDigit c"
  shows "scanInt (natDigits n @ r) = Some (natDigits n, r)"
proof (cases "n = 0")
  case True
  have "char_of (48::nat) = CHR ''0''" by (simp add: char_of_def bit_simps)
  then show ?thesis using True by (simp add: scanInt_def natDigits.simps [of 0])
next
  case False
  obtain c t where c: "natDigits n = c # t" using natDigits_digits [of n] by (cases "natDigits n") auto
  then have "c \<noteq> CHR ''0''" "isDigit c" using natDigits_hd [OF False] natDigits_digits [of n] by auto
  moreover have "digitsOf (natDigits n @ r) = (natDigits n, r)"
    using digitsOf_append natDigits_digits assms by blast
  ultimately show ?thesis by (simp add: scanInt_def c)
qed

lemma scanNum_itoa:
  assumes "stops r" shows "scanNum (itoa n @ r) = Some (itoa n, r)"
proof -
  have r: "case r of [] \<Rightarrow> True | c # _ \<Rightarrow> \<not> isDigit c" "scanFrac r = Some ([], r)" "scanExp r = Some ([], r)"
    using assms by (auto simp: scanFrac_def scanExp_def numChar_def split: list.splits)
  obtain c t where c: "natDigits (nat \<bar>n\<bar>) = c # t" "isDigit c"
    using natDigits_digits [of "nat \<bar>n\<bar>"] by (cases "natDigits (nat \<bar>n\<bar>)") auto
  then have "c \<noteq> CHR ''-''" by auto
  then show ?thesis
    using scanInt_natDigits [OF r(1), of "nat \<bar>n\<bar>"] r(2,3) c by (auto simp: itoa_def scanNum_def)
qed

lemma denotes_itoa: "denotes d (itoa n) (TNum (itoa n))"
proof -
  obtain c t where c: "itoa n = c # t" "c = CHR ''-'' \<or> isDigit c"
  proof (cases "n < 0")
    case False
    then show ?thesis using that natDigits_digits [of "nat n"] by (cases "natDigits (nat n)") (auto simp: itoa_def)
  qed (simp add: itoa_def that)
  then have "numChar c" by (auto simp: numChar_def)
  then have n: "c \<noteq> lbrack" "c \<noteq> lbrace" "\<not> isWs c" "c \<noteq> dq" "c \<noteq> CHR ''t''" "c \<noteq> CHR ''f''" "c \<noteq> CHR ''n''"
    using fixed_num [of c] by (auto simp: fixedChar_def numChar_def isDigit_def code_def)
  show ?thesis unfolding c(1)
    by (rule denotes_scalar) (use n scanNum_itoa [of _ n] c in \<open>auto simp: scalar_def\<close>)
qed

subsection \<open>Objects\<close>

fun commaJoin :: "bytes list \<Rightarrow> bytes" where
  "commaJoin [] = []"
| "commaJoin [w] = w"
| "commaJoin (w # ws) = w @ CHR '','' # commaJoin ws"

definition memberText :: "string \<times> bytes \<Rightarrow> bytes" where
  "memberText m = (case m of (k, w) \<Rightarrow> quoteJSON k @ CHR '':'' # w)"

definition objectText :: "(string \<times> bytes) list \<Rightarrow> bytes" where
  "objectText ms = lbrace # commaJoin (List.map memberText ms) @ [rbrace]"

definition arrayText :: "bytes list \<Rightarrow> bytes" where
  "arrayText ws = lbrack # commaJoin ws @ [rbrack]"

lemma memberText_simp [simp]: "memberText (k, w) = quoteJSON k @ CHR '':'' # w"
  by (simp add: memberText_def)

text \<open>A list of members with the values they denote.\<close>

definition fieldsDenote :: "nat \<Rightarrow> (string \<times> bytes \<times> jtree) list \<Rightarrow> bool" where
  "fieldsDenote d fs \<longleftrightarrow> (\<forall>(k, w, v)\<in>set fs. denotes d w v)"

abbreviation keyTexts :: "(string \<times> bytes \<times> jtree) list \<Rightarrow> (string \<times> bytes) list" where
  "keyTexts fs \<equiv> List.map (\<lambda>(k, w, _). (k, w)) fs"

abbreviation readFields :: "(string \<times> bytes \<times> jtree) list \<Rightarrow> (string \<times> bytes \<times> jtree) list" where
  "readFields fs \<equiv> List.map (\<lambda>(k, w, v). (toValid k, w, v)) fs"

lemma memberKey_text:
  assumes "skipWs t = t" shows "memberKey (quoteJSON k @ CHR '':'' # t) = Some (toValid k, t)"
  using assms by (simp add: memberKey_def quoteJSON_def scanStr_raw rawText_escBytes unquote_escBytes)

lemma itemEnd_simps [simp]:
  "itemEnd rbrace (rbrace # r) = Some (False, r)" "itemEnd rbrace (CHR '','' # r) = Some (True, r)"
  "itemEnd rbrack (rbrack # r) = Some (False, r)" "itemEnd rbrack (CHR '','' # r) = Some (True, r)"
  by (simp_all add: itemEnd_def)

lemma members_text:
  assumes "fieldsDenote d fs" "fs \<noteq> []"
  shows "isMembers d (commaJoin (List.map memberText (keyTexts fs)) @ rbrace # r) (readFields fs) r"
  using assms
proof (induction fs)
  case (Cons f fs)
  obtain k w v where f: "f = (k, w, v)" by (cases f)
  then have w: "denotes d w v" using Cons.prems(1) by (simp add: fieldsDenote_def)
  then have i: "isValue d (w @ x # r') v (x # r')" if "\<not> numChar x" for x r'
    using that by (simp add: denotes_def)
  have k: "memberKey (quoteJSON k @ CHR '':'' # w @ r') = Some (toValid k, w @ r')" for r'
    by (rule memberKey_text [OF denotes_skip [OF w]])
  show ?case
  proof (cases fs)
    case Nil
    have "isMembers d (quoteJSON k @ CHR '':'' # w @ rbrace # r) [(toValid k, rawOf (w @ rbrace # r) (rbrace # r), v)] r"
      by (rule grammar_intros(8) [OF k i]) simp_all
    then show ?thesis using Nil f by simp
  next
    case (Cons g gs)
    let ?r = "commaJoin (List.map memberText (keyTexts fs)) @ rbrace # r"
    have "isMembers d ?r (readFields fs) r"
      using Cons.IH Cons.prems Cons by (simp add: fieldsDenote_def)
    then have "isMembers d (quoteJSON k @ CHR '':'' # w @ CHR '','' # ?r)
        ((toValid k, rawOf (w @ CHR '','' # ?r) (CHR '','' # ?r), v) # readFields fs) r"
      by (intro grammar_intros(9) [OF k i]) simp_all
    then show ?thesis using Cons f by simp
  qed
qed simp


lemma hd_commaJoin:
  assumes "fs \<noteq> []"
  obtains u where "commaJoin (List.map memberText (keyTexts fs)) @ r = dq # u"
proof (cases fs)
  case (Cons f gs)
  then show thesis using that by (cases f; cases gs) (auto simp: quoteJSON_def)
qed (use assms in simp)

lemma denotes_object:
  assumes "fieldsDenote d fs"
  shows "denotes (Suc d) (objectText (keyTexts fs)) (TObj (keyVals (readFields fs)))"
proof (cases "fs = []")
  case True
  have "isValue (Suc d) (lbrace # rbrace # r) (TObj []) r" for r
    by (rule grammar_intros(4) [where t = "rbrace # r"]) (simp_all only: skipWs_id ws_lits not_False_eq_True)
  then show ?thesis by (simp add: True denotes_def objectText_def)
next
  case False
  have "isValue (Suc d) (objectText (keyTexts fs) @ r) (TObj (keyVals (readFields fs))) r" for r
  proof -
    obtain u where "commaJoin (List.map memberText (keyTexts fs)) @ rbrace # r = dq # u"
      using hd_commaJoin [OF False] by blast
    then show ?thesis
      using grammar_intros(5) [OF _ _ _ members_text [OF assms False, of r], of _ dq u]
      by (simp add: objectText_def)
  qed
  then show ?thesis by (simp add: denotes_def objectText_def)
qed

lemma denotes_array:
  assumes "list_all2 (denotes d) ws vs"
  shows "denotes (Suc d) (arrayText ws) (TArr vs)"
proof (cases "ws = []")
  case True
  have "isValue (Suc d) (lbrack # rbrack # r) (TArr []) r" for r
    by (rule grammar_intros(2) [where t = "rbrack # r"]) (simp_all only: skipWs_id ws_lits not_False_eq_True)
  then show ?thesis using True assms by (simp add: denotes_def arrayText_def)
next
  case False
  have e: "isElems d (commaJoin ws @ rbrack # r) vs r" if "list_all2 (denotes d) ws vs" "ws \<noteq> []" for ws vs r
    using that
  proof (induction ws arbitrary: vs)
    case (Cons w ws)
    then obtain v vs' where v: "vs = v # vs'" "denotes d w v" "list_all2 (denotes d) ws vs'"
      by (auto simp: list_all2_Cons1)
    then have i: "isValue d (w @ x # r') v (x # r')" if "\<not> numChar x" for x r'
      using that by (simp add: denotes_def)
    show ?case
    proof (cases ws)
      case Nil
      then show ?thesis using v grammar_intros(6) [OF i [of rbrack r], of r] by simp
    next
      case (Cons w' ws')
      then have "isElems d (commaJoin ws @ rbrack # r) vs' r" using Cons.IH v(3) by simp
      then show ?thesis using Cons v(1) grammar_intros(7) [OF i [of "CHR '',''"]] by simp
    qed
  qed simp
  have "isValue (Suc d) (arrayText ws @ r) (TArr vs) r" for r
  proof -
    obtain w ws' v where w: "ws = w # ws'" "denotes d w v" using False assms by (cases ws) (auto simp: list_all2_Cons1)
    then obtain c u where c: "w = c # u" "\<not> isWs c" by (cases w) (auto simp: denotes_def skipWs_same)
    have "isValue d (c # u) v []" using denotes_value [OF w(2)] c by simp
    then have "c \<noteq> rbrack" using c(2) hd_scalar by (cases rule: isValue.cases) auto
    moreover obtain u' where "commaJoin ws @ rbrack # r = c # u'" using w c by (cases ws') auto
    ultimately show ?thesis
      using grammar_intros(3) [OF _ _ _ e [OF assms False, of r], of _ c u'] c(2)
      by (simp add: arrayText_def)
  qed
  then show ?thesis by (simp add: denotes_def arrayText_def)
qed

text \<open>Both readers see a printed object as its members.\<close>

lemma parseDoc_object:
  assumes "fieldsDenote (maxDepth - 1) fs"
  shows "parseDoc (objectText (keyTexts fs) @ r) =
    Some (JDObject (List.map (\<lambda>(k, w, v). (toValid k, w, valueKind v)) fs), r)"
proof (cases "fs = []")
  case True
  then show ?thesis by (simp add: parseDoc_def objectText_def)
next
  case False
  define t where "t = commaJoin (List.map memberText (keyTexts fs)) @ rbrace # r"
  obtain u where u: "t = dq # u" using hd_commaJoin [OF False] unfolding t_def by blast
  have "parseMembers (fuelFor t) (maxDepth - 1) t = Some (readFields fs, r)"
    using members_text [OF assms False, of r] by (simp add: parseMembers_iff t_def)
  moreover have "objectText (keyTexts fs) @ r = lbrace # t" by (simp add: objectText_def t_def)
  moreover have "skipWs t = dq # u" unfolding u by simp
  ultimately show ?thesis by (simp add: parseDoc_def case_prod_unfold comp_def)
qed

lemma read_object:
  assumes "fieldsDenote (maxDepth - 1) fs"
  shows "jsonStream (objectText (keyTexts fs) @ r) = Some (JDObject (List.map (\<lambda>(k, w, v). (toValid k, w, valueKind v)) fs))"
    "skipWs r = [] \<Longrightarrow> jsonWhole (objectText (keyTexts fs) @ r) = Some (JDObject (List.map (\<lambda>(k, w, v). (toValid k, w, valueKind v)) fs))"
  by (simp_all add: jsonStream_def jsonWhole_def parseDoc_object [OF assms])

text \<open>A printed object that is cut short is not a value.\<close>

lemma object_cut:
  assumes "fieldsDenote (maxDepth - 1) fs" "n < length (objectText (keyTexts fs))"
  shows "jsonStream (take n (objectText (keyTexts fs))) = None"
proof (rule ccontr)
  let ?T = "objectText (keyTexts fs)"
  assume "jsonStream (take n ?T) \<noteq> None"
  then obtain d r where p: "parseDoc (take n ?T) = Some (d, r)" by (auto simp: jsonStream_def)
  have whole: "\<exists>d. parseDoc ?T = Some (d, [])" using parseDoc_object [OF assms(1), of "[]"] by simp
  obtain t where t: "?T = lbrace # t" by (simp add: objectText_def)
  obtain m where n: "n = Suc m" using p by (cases n) (auto simp: parseDoc_def skipWs_def)
  define a where "a = take m t"
  define u where "u = drop m t"
  have au: "t = a @ u" "u \<noteq> []" using assms(2) by (simp_all add: a_def u_def t n)
  have p: "parseDoc (lbrace # a) = Some (d, r)" using p by (simp add: t n a_def)
  have "parseDoc (lbrace # a @ u) = Some (d, r @ u)"
  proof (cases "skipWs a")
    case Nil
    then show ?thesis using p by (simp add: parseDoc_def)
  next
    case (Cons x y)
    then have "\<not> (\<forall>x\<in>set a. isWs x)" by (auto simp: skipWs_def simp flip: dropWhile_eq_Nil_conv)
    then have s: "skipWs (a @ u) = x # y @ u" using Cons by (auto simp: skipWs_def dropWhile_append)
    show ?thesis
    proof (cases "x = rbrace")
      case True
      then show ?thesis using p Cons s by (simp add: parseDoc_def)
    next
      case False
      then obtain ms where ms: "isMembers (maxDepth - 1) a ms r" "d = JDObject (List.map (\<lambda>(k, raw, v). (k, raw, valueKind v)) ms)"
        using p Cons by (auto simp: parseDoc_def parseMembers_iff)
      obtain w where "a = w @ r" "isMembers (maxDepth - 1) (w @ r @ u) ms (r @ u)"
        using grammar_local(3) [OF ms(1)] by blast
      then have "parseMembers (fuelFor (a @ u)) (maxDepth - 1) (a @ u) = Some (ms, r @ u)"
        by (simp add: parseMembers_iff)
      then show ?thesis using False s ms(2) by (simp add: parseDoc_def)
    qed
  qed
  then show False using whole au by (simp add: t)
qed

end
