(* ===== verification/Envelope_Json.thy ===== *)
theory Envelope_Json
  imports Json_Print
begin

text \<open>
  The bytes of an envelope: \<open>Encode\<close>, and what becomes of an envelope on its way through the
  broker, which decodes what a sender wrote and encodes it again for every live subscriber.
\<close>

subsection \<open>Encoding\<close>

definition payloadText :: "bytes option \<Rightarrow> bytes option" where
  "payloadText p = (case p of None \<Rightarrow> Some ''null'' | Some raw \<Rightarrow> compactJSON raw)"

definition Encode :: "envelope \<Rightarrow> bytes option" where
  "Encode e = map_option (\<lambda>p. objectText
     [(''channel'', quoteJSON (e_channel e)), (''type'', quoteJSON (e_type e)), (''id'', quoteJSON (e_id e)),
      (''payload'', p), (''ts'', quoteJSON (e_ts e))]) (payloadText (e_payload e))"

subsection \<open>What the decoder yields\<close>

lemma toValid_empty [simp]: "toValid s = [] \<longleftrightarrow> s = []"
proof (cases s)
  case (Cons c t)
  have "runeLen (c # t) = Some k \<Longrightarrow> k \<noteq> 0" for k by (auto simp: runeLen_def Let_def split: if_splits list.splits)
  then show ?thesis by (cases "runeLen (c # t)") (auto simp: Cons replacement_def toValid.simps(2) ascii_def)
qed simp

text \<open>Valid strings, and a payload that is a JSON value.\<close>

definition payloadIs :: "bytes option \<Rightarrow> jtree \<Rightarrow> bool" where
  "payloadIs p v \<longleftrightarrow> (case p of None \<Rightarrow> v = TNull | Some raw \<Rightarrow> denotes (maxDepth - 1) raw v)"

definition readable :: "envelope \<Rightarrow> bool" where
  "readable e \<longleftrightarrow> validUTF8 (e_channel e) \<and> validUTF8 (e_type e) \<and> validUTF8 (e_id e) \<and> validUTF8 (e_ts e) \<and>
     (\<exists>v. payloadIs (e_payload e) v)"

lemma value_string: "isValue d s (TStr t) r \<Longrightarrow> validUTF8 t"
  by (cases rule: isValue.cases) (auto simp: scalar_def litWord_def validUTF8_def split: if_splits)

lemma doc_members:
  assumes "parseDoc b = Some (JDObject ms, r)" "(k, raw, v) \<in> set ms"
  shows "\<exists>t. denotes (maxDepth - 1) raw t \<and> v = valueKind t \<and> (\<forall>s. v = JStr s \<longrightarrow> validUTF8 s)"
proof -
  obtain t ts where ts: "isMembers (maxDepth - 1) t ts r" "ms = List.map (\<lambda>(k, raw, v). (k, raw, valueKind v)) ts"
    using assms by (auto simp: parseDoc_def parseMembers_iff split: list.splits if_splits)
  then obtain tr where tr: "(k, raw, tr) \<in> set ts" "v = valueKind tr" using assms(2) by auto
  then have d: "denotes (maxDepth - 1) raw tr" using members_denote(3) [OF ts(1)] by blast
  have "validUTF8 s" if "v = JStr s" for s
  proof -
    have "tr = TStr s" using that tr(2) by (cases tr) auto
    then show ?thesis using value_string denotes_value [OF d] by blast
  qed
  with d tr show ?thesis by blast
qed

lemma bindMembers_readable:
  assumes "bindMembers ms e = Some e'" "readable e"
    and "\<forall>(k, raw, v)\<in>set ms. (\<exists>t. denotes (maxDepth - 1) raw t) \<and> (\<forall>s. v = JStr s \<longrightarrow> validUTF8 s)"
  shows "readable e'"
  using assms
proof (induction ms arbitrary: e)
  case (Cons m ms)
  obtain k raw v where m: "m = (k, raw, v)" by (cases m)
  obtain e1 where e1: "bindMember m e = Some e1" "bindMembers ms e1 = Some e'"
    using Cons.prems(1) by (auto split: option.splits)
  have "readable e1"
    using e1(1) Cons.prems(2) Cons.prems(3) m
    by (auto simp: bindMember_def bindString_def readable_def payloadIs_def
        split: option.splits if_splits jval.splits)
  with Cons e1(2) show ?case by simp
qed simp

lemma Decode_readable:
  assumes "Decode jsonStream b = Inr e" shows "readable e" "e_type e \<in> set validTypes"
    "e_channel e \<noteq> ''''" "e_id e \<noteq> ''''" "e_ts e \<noteq> ''''"
proof -
  obtain d where d: "jsonStream b = Some d" "bindEnvelope d = Some e" "Validate e = Inr ()"
    using assms by (rule Decode_InrD)
  show "e_type e \<in> set validTypes" "e_channel e \<noteq> ''''" "e_id e \<noteq> ''''" "e_ts e \<noteq> ''''"
    using d(3) by simp_all
  have z: "readable zeroEnvelope" by (simp add: readable_def zeroEnvelope_def validUTF8_def payloadIs_def)
  show "readable e"
  proof (cases d)
    case (JDObject ms)
    then obtain r where r: "parseDoc b = Some (JDObject ms, r)" using d(1) by (auto simp: jsonStream_def)
    have "bindMembers ms zeroEnvelope = Some e" using d(2) JDObject by (simp add: bindEnvelope_def)
    moreover have "\<forall>(k, raw, v)\<in>set ms. (\<exists>t. denotes (maxDepth - 1) raw t) \<and> (\<forall>s. v = JStr s \<longrightarrow> validUTF8 s)"
      using doc_members [OF r] by blast
    ultimately show ?thesis using bindMembers_readable z by blast
  qed (use d z in \<open>auto simp: bindEnvelope_def\<close>)
qed

subsection \<open>Encoding and decoding\<close>

lemma payload_text:
  assumes "payloadIs p v"
  obtains w where "payloadText p = Some w" "denotes (maxDepth - 1) w v" "oneLine w"
proof (cases p)
  case None
  then show thesis using assms that [of "''null''"] denotes_words(3) oneLine_word(3)
    by (simp add: payloadText_def payloadIs_def)
next
  case (Some raw)
  then have "denotes (maxDepth - 1) raw v" using assms by (simp add: payloadIs_def)
  from denotes_compact [OF this] that [of "cz raw"] Some show thesis by (simp add: payloadText_def)
qed

lemma oneLine_quote: "oneLine (quoteJSON s)"
  using oneLine_raw [OF rawText_escBytes] by (simp add: quoteJSON_def)

lemma Encode_binds:
  assumes "payloadIs (e_payload e) v"
  obtains b w where "Encode e = Some b" "oneLine b" "denotes (maxDepth - 1) w v"
    "\<And>rest. Option.bind (jsonStream (b @ rest)) bindEnvelope = Some \<lparr>e_channel = toValid (e_channel e), e_type = toValid (e_type e),
       e_id = toValid (e_id e), e_payload = Some w, e_ts = toValid (e_ts e)\<rparr>"
    "jsonWhole b = jsonStream b"
proof -
  obtain w where w: "payloadText (e_payload e) = Some w" "denotes (maxDepth - 1) w v" "oneLine w"
    using payload_text [OF assms(1)] by blast
  define fs where "fs = [(''channel'', quoteJSON (e_channel e), TStr (toValid (e_channel e))),
      (''type'', quoteJSON (e_type e), TStr (toValid (e_type e))), (''id'', quoteJSON (e_id e), TStr (toValid (e_id e))),
      (''payload'', w, v), (''ts'', quoteJSON (e_ts e), TStr (toValid (e_ts e)))]"
  define b where "b = objectText (keyTexts fs)"
  have k: "toValid k = k" if "k \<in> set envFields" for k
    using that by (auto simp: envFields_def toValid_ascii code_def)
  have d: "fieldsDenote (maxDepth - 1) fs" using w(2) denotes_quote by (simp add: fs_def fieldsDenote_def)
  from read_object(1) [OF d] have r: "jsonStream (b @ rest) = Some (JDObject (List.map (\<lambda>(k, w, v). (toValid k, w, valueKind v)) fs))" for rest
    by (simp add: b_def)
  have s: "skipWs [] = []" by (simp add: skipWs_def)
  from read_object(2) [OF d s] r [of "[]"] have "jsonWhole b = jsonStream b" by (simp add: b_def)
  moreover have "Option.bind (jsonStream (b @ rest)) bindEnvelope = Some \<lparr>e_channel = toValid (e_channel e), e_type = toValid (e_type e),
       e_id = toValid (e_id e), e_payload = Some w, e_ts = toValid (e_ts e)\<rparr>" for rest
    using k by (simp add: r bindEnvelope_def fs_def bindMember_def fieldOf_def envFields_def bindString_def zeroEnvelope_def)
  moreover have "Encode e = Some b" by (simp add: Encode_def w(1) b_def fs_def)
  moreover have "oneLine b"
    using w(3) oneLine_quote by (simp add: b_def fs_def objectText_def code_lbr) (simp add: code_def)
  ultimately show thesis using that w(2) by blast
qed

lemma Encode_Decode:
  assumes "payloadIs (e_payload e) v"
    and "toValid (e_channel e) \<noteq> ''''" "toValid (e_type e) \<in> set validTypes" "toValid (e_id e) \<noteq> ''''" "toValid (e_ts e) \<noteq> ''''"
  obtains b w where "Encode e = Some b" "oneLine b" "denotes (maxDepth - 1) w v"
    "\<And>rest. Decode jsonStream (b @ rest) = Inr \<lparr>e_channel = toValid (e_channel e), e_type = toValid (e_type e),
       e_id = toValid (e_id e), e_payload = Some w, e_ts = toValid (e_ts e)\<rparr>"
proof (rule Encode_binds [OF assms(1)])
  fix b w
  assume e: "Encode e = Some b" "oneLine b" "denotes (maxDepth - 1) w v" "\<And>rest. Option.bind (jsonStream (b @ rest)) bindEnvelope =
    Some \<lparr>e_channel = toValid (e_channel e), e_type = toValid (e_type e), e_id = toValid (e_id e), e_payload = Some w, e_ts = toValid (e_ts e)\<rparr>"
  have "Decode jsonStream (b @ rest) = Inr \<lparr>e_channel = toValid (e_channel e), e_type = toValid (e_type e),
       e_id = toValid (e_id e), e_payload = Some w, e_ts = toValid (e_ts e)\<rparr>" for rest
    using e(4) [of rest] assms(2-5) by (auto simp: Decode_def Validate_def Valid_def split: option.splits bind_splits)
  then show thesis using that e(1-3) by blast
qed

lemma envelope_payload:
  "\<lparr>e_channel = e_channel e, e_type = e_type e, e_id = e_id e, e_payload = p, e_ts = e_ts e\<rparr> = e\<lparr>e_payload := p\<rparr>"
  by (cases e) simp

lemma decoded_encodes:
  assumes "Decode jsonStream sent = Inr e"
  obtains b p where "Encode e = Some b" "oneLine b" "\<And>rest. Decode jsonStream (b @ rest) = Inr (e\<lparr>e_payload := Some p\<rparr>)"
    "jsonValue p = (case e_payload e of None \<Rightarrow> Some TNull | Some q \<Rightarrow> jsonValue q)" "jsonValue p \<noteq> None"
proof -
  note r = Decode_readable [OF assms]
  obtain v where v: "payloadIs (e_payload e) v" using r(1) by (auto simp: readable_def)
  have t: "toValid (e_channel e) = e_channel e" "toValid (e_type e) = e_type e" "toValid (e_id e) = e_id e"
    "toValid (e_ts e) = e_ts e" using r(1) by (auto simp: readable_def validUTF8_def)
  obtain b w where b: "Encode e = Some b" "oneLine b" "denotes (maxDepth - 1) w v"
    "\<And>rest. Decode jsonStream (b @ rest) = Inr (e\<lparr>e_payload := Some w\<rparr>)"
    by (rule Encode_Decode [OF v, unfolded t envelope_payload]) (use r(2-5) in simp_all)
  have d: "denotes (maxDepth - 1) u x \<Longrightarrow> jsonValue u = Some x" for u x by (rule denotes_jsonValue) (assumption, rule diff_le_self)
  have "jsonValue w = (case e_payload e of None \<Rightarrow> Some TNull | Some q \<Rightarrow> jsonValue q)"
    using v d b(3) by (auto simp: payloadIs_def split: option.splits)
  then show thesis using that b d [OF b(3)] by blast
qed

text \<open>
  C13. What a subscriber reads is what the sender wrote: an envelope the broker accepted is
  always encoded, to bytes that decode to the same channel, type, id and time stamp and to
  a payload that is the same JSON value; and the bytes hold no control character, so they
  are a single line wherever they are embedded.
\<close>
theorem relay_faithful:
  assumes "Decode jsonStream sent = Inr e"
  shows "\<exists>b p'. Encode e = Some b \<and> oneLine b \<and> Decode jsonStream b = Inr (e\<lparr>e_payload := Some p'\<rparr>) \<and>
    jsonValue p' = (case e_payload e of None \<Rightarrow> Some TNull | Some p \<Rightarrow> jsonValue p) \<and> jsonValue p' \<noteq> None"
  using decoded_encodes [OF assms] append_Nil2 by metis

definition exFields :: "(string \<times> bytes \<times> jtree) list" where
  "exFields = [(''channel'', quoteJSON ''c'', TStr ''c''), (''type'', quoteJSON ''request'', TStr ''request''),
     (''id'', quoteJSON ''1'', TStr ''1''), (''payload'', quoteJSON ''hi'', TStr ''hi''), (''ts'', quoteJSON ''t'', TStr ''t'')]"

definition exWire :: bytes where "exWire = objectText (keyTexts exFields)"

lemma toValid_lit: "list_all (\<lambda>c. code c < 128) s \<Longrightarrow> toValid s = s"
  by (induction s) (simp_all add: toValid_ascii)

lemma exWire_decode:
  "Decode jsonStream exWire = Inr \<lparr>e_channel = ''c'', e_type = ''request'', e_id = ''1'',
     e_payload = Some (quoteJSON ''hi''), e_ts = ''t''\<rparr>"
proof -
  have t: "toValid k = k" if "k \<in> {''channel'', ''type'', ''id'', ''payload'', ''ts'', ''c'', ''request'', ''1'', ''t'', ''hi''}" for k
    using that by (auto simp: toValid_lit code_def)
  have "fieldsDenote (maxDepth - 1) exFields"
    using denotes_quote [of _ "''c''"] denotes_quote [of _ "''request''"] denotes_quote [of _ "''1''"]
      denotes_quote [of _ "''hi''"] denotes_quote [of _ "''t''"] t
    by (simp add: fieldsDenote_def exFields_def)
  from read_object(1) [OF this, of "[]"]
  have r: "jsonStream exWire = Some (JDObject (List.map (\<lambda>(k, w, v). (toValid k, w, valueKind v)) exFields))"
    by (simp add: exWire_def)
  show ?thesis
    using t by (simp add: Decode_def r bindEnvelope_def exFields_def bindMember_def fieldOf_def envFields_def
        bindString_def zeroEnvelope_def Validate_def Valid_def validTypes_def)
qed

theorem relay_faithful_witness:
  "\<exists>b p'. Encode \<lparr>e_channel = ''c'', e_type = ''request'', e_id = ''1'', e_payload = Some (quoteJSON ''hi''), e_ts = ''t''\<rparr> = Some b \<and>
     Decode jsonStream b = Inr \<lparr>e_channel = ''c'', e_type = ''request'', e_id = ''1'', e_payload = Some p', e_ts = ''t''\<rparr>"
  using relay_faithful [OF exWire_decode] by auto

text \<open>
  The payload is not passed through byte for byte, as the comments of \<open>envelope.go\<close> say: it
  is compacted and escaped for HTML.
\<close>
lemma payload_reshaped:
  "payloadText (Some [dq, CHR ''<'', dq]) = Some ([dq, bslash] @ ''u003c'' @ [dq])"
proof -
  have "rawText ''<''" by (auto simp: plainChar_def code_def)
  then have "denotes (maxDepth - 1) [dq, CHR ''<'', dq] (TStr (unquote ''<''))"
    using denotes_scalar [of dq "[CHR ''<'', dq]"] scanStr_raw [of "''<''"] by (simp add: scalar_def)
  note d = this
  have "char_of (51::nat) = CHR ''3''" "char_of (99::nat) = CHR ''c''"
    by (simp_all add: char_of_def bit_simps)
  then show ?thesis using denotes_compact(1) [OF d]
    by (simp add: payloadText_def compactBytes.simps(2) htmlUnsafe_def u00_def hexDigit_def code_def isSep_def isWs_def)
qed

end
