(* ===== verification/Http_Text.thy ===== *)
theory Http_Text
  imports Client_Commands Envelope_Json "HOL-Library.List_Lexorder" "HOL-Library.Char_ord"
begin

text \<open>
  The bodies of requests and answers as JSON text: how \<open>encoding/json\<close> prints the maps and
  structs the handlers and commands give it, and what the other side decodes from it.
\<close>

subsection \<open>Printing values\<close>

text \<open>\<open>json.Marshal\<close> prints the members of a map in the order of their names and those of a
  struct in the order of its fields.\<close>

fun outText :: "jout \<Rightarrow> bytes" where
  "outText (OStr s) = quoteJSON s"
| "outText (OInt n) = itoa n"
| "outText (OBool b) = (if b then ''true'' else ''false'')"
| "outText (OList os) = arrayText (List.map (\<lambda>fs. objectText (List.map (\<lambda>(k, v). (k, outText v)) fs)) os)"

definition structText :: "(string \<times> jout) list \<Rightarrow> bytes" where
  "structText fs = objectText (List.map (\<lambda>(k, v). (k, outText v)) fs)"

definition mapText :: "(string \<times> jout) list \<Rightarrow> bytes" where
  "mapText fs = structText (sort_key fst fs)"

fun outTree :: "jout \<Rightarrow> jtree" where
  "outTree (OStr s) = TStr (toValid s)"
| "outTree (OInt n) = TNum (itoa n)"
| "outTree (OBool b) = TBool b"
| "outTree (OList os) = TArr (List.map (\<lambda>fs. TObj (List.map (\<lambda>(k, v). (toValid k, outTree v)) fs)) os)"

text \<open>Everything that is printed is a scalar or a list of records of scalars.\<close>

fun scalarOut :: "jout \<Rightarrow> bool" where
  "scalarOut (OList os) = False"
| "scalarOut _ = True"

fun printed :: "jout \<Rightarrow> bool" where
  "printed (OList os) = list_all (list_all (\<lambda>(k, v). scalarOut v)) os"
| "printed _ = True"

lemma denotes_scalarOut: "scalarOut v \<Longrightarrow> denotes d (outText v) (outTree v)"
  by (cases v) (simp_all add: denotes_quote denotes_itoa denotes_words)

lemma denotes_struct:
  assumes "\<And>k v. (k, v) \<in> set fs \<Longrightarrow> denotes d (outText v) (outTree v)"
  shows "denotes (Suc d) (structText fs) (TObj (List.map (\<lambda>(k, v). (toValid k, outTree v)) fs))"
proof -
  let ?fs = "List.map (\<lambda>(k, v). (k, outText v, outTree v)) fs"
  have "fieldsDenote d ?fs" using assms by (auto simp: fieldsDenote_def)
  from denotes_object [OF this] show ?thesis
    by (simp add: structText_def comp_def case_prod_unfold)
qed

lemma denotes_printed: "printed v \<Longrightarrow> denotes (Suc (Suc d)) (outText v) (outTree v)"
proof (cases v)
  case (OList os)
  assume "printed v"
  then have "denotes (Suc d) (structText fs) (TObj (List.map (\<lambda>(k, v). (toValid k, outTree v)) fs))" if "fs \<in> set os" for fs
    using that by (intro denotes_struct denotes_scalarOut) (fastforce simp: OList list_all_iff)
  then have "list_all2 (denotes (Suc d)) (List.map structText os)
      (List.map (\<lambda>fs. TObj (List.map (\<lambda>(k, v). (toValid k, outTree v)) fs)) os)"
    by (simp add: list_all2_conv_all_nth)
  from denotes_array [OF this] show ?thesis by (simp add: OList structText_def [abs_def])
qed (simp_all add: denotes_quote denotes_itoa denotes_words)

lemma printed_fields:
  assumes "\<forall>(k, v)\<in>set fs. printed v"
  shows "fieldsDenote (maxDepth - 1) (List.map (\<lambda>(k, v). (k, outText v, outTree v)) fs)"
proof -
  have "denotes (Suc (Suc 9997)) (outText v) (outTree v)" if "(k, v) \<in> set fs" for k v
    using that assms by (intro denotes_printed) auto
  then show ?thesis by (auto simp: fieldsDenote_def maxDepth_def)
qed

lemma struct_reads:
  assumes "\<forall>(k, v)\<in>set fs. printed v"
  shows "jsonStream (structText fs @ r) = Some (JDObject (List.map (\<lambda>(k, v). (toValid k, outText v, valueKind (outTree v))) fs))"
    "skipWs r = [] \<Longrightarrow> jsonWhole (structText fs @ r) = Some (JDObject (List.map (\<lambda>(k, v). (toValid k, outText v, valueKind (outTree v))) fs))"
proof -
  from read_object [OF printed_fields [OF assms]] show
    "jsonStream (structText fs @ r) = Some (JDObject (List.map (\<lambda>(k, v). (toValid k, outText v, valueKind (outTree v))) fs))"
    "skipWs r = [] \<Longrightarrow> jsonWhole (structText fs @ r) = Some (JDObject (List.map (\<lambda>(k, v). (toValid k, outText v, valueKind (outTree v))) fs))"
    by (simp_all add: structText_def comp_def case_prod_unfold)
qed

lemma map_reads:
  assumes "\<forall>(k, v)\<in>set fs. printed v"
  shows "jsonStream (mapText fs @ r) = Some (JDObject (List.map (\<lambda>(k, v). (toValid k, outText v, valueKind (outTree v))) (sort_key fst fs)))"
  unfolding mapText_def using assms by (intro struct_reads) simp

subsection \<open>Requests of the client, as the server reads them\<close>

lemma toValid_names [simp]:
  "toValid ''channel'' = ''channel''" "toValid ''auth_key'' = ''auth_key''" "toValid ''retain'' = ''retain''"
  "toValid ''ttl_sec'' = ''ttl_sec''" "toValid ''ticket'' = ''ticket''" "toValid ''account'' = ''account''"
  "toValid ''api_key'' = ''api_key''"
  by (simp_all add: toValid_lit code_def)

lemma channelBody_sorted:
  "sort_key fst (channelBody f i ka) =
     [(''auth_key'', OStr ka), (''channel'', OStr i), (''retain'', OBool (cf_retain f))] @
     (if cf_ticket f \<noteq> '''' then [(''ticket'', OStr (cf_ticket f))]
      else if cf_retain f then [(''ttl_sec'', OInt (cf_ttlSec f))] else [])"
  by (simp add: channelBody_def less_eq_char_def)

lemma create_fields:
  "fieldOf [''channel'', ''auth_key'', ''retain'', ''ttl_sec'', ''ticket''] k = Some k"
  if "k \<in> {''channel'', ''auth_key'', ''retain'', ''ttl_sec'', ''ticket''}"
  using that by (auto simp: fieldOf_def)

lemma ascii_valid: "\<forall>c\<in>set s. code c < 128 \<Longrightarrow> toValid s = s"
  by (rule toValid_lit) (simp add: list_all_iff)

lemma toValid_b32 [simp]: "toValid (b32encode s) = b32encode s"
  using b32q_small [OF codes_small [of s]] by (intro ascii_valid) (auto simp: b32encode_def b32sym_def list_all_iff)

lemma toValid_b64url [simp]: "toValid (b64urlencode s) = b64urlencode s"
proof (rule ascii_valid, rule ballI)
  fix c assume "c \<in> set (b64urlencode s)"
  then obtain n where "n < 64" "c = b64urlsym n" using b64q_small [OF codes_small [of s]] by (auto simp: b64urlencode_def)
  then show "code c < 128" by (auto simp: b64urlsym_def b64sym_def) (simp_all add: code_def)
qed

text \<open>What the server decodes from the body the client sends: the request, unless its text
  exceeds what the server reads.\<close>

lemma struct_cut:
  assumes "\<forall>(k, v)\<in>set fs. printed v" "n < length (structText fs)"
  shows "jsonStream (take n (structText fs)) = None"
proof -
  let ?fs = "List.map (\<lambda>(k, v). (k, outText v, outTree v)) fs"
  have "structText fs = objectText (keyTexts ?fs)" by (simp add: structText_def comp_def case_prod_unfold)
  then show ?thesis using object_cut [OF printed_fields [OF assms(1)], of n] assms(2) by simp
qed

lemma channel_request:
  assumes "int64 (cf_ttlSec f)"
  shows "decodeCreate jsonStream (mapText (channelBody f i ka)) =
    (if length (mapText (channelBody f i ka)) \<le> maxBody
     then Some \<lparr>r_channel = toValid i, r_authKey = toValid ka,
       r_retain = cf_retain f, r_ttlSec = (if cf_ticket f = '''' \<and> cf_retain f then cf_ttlSec f else 0),
       r_ticket = toValid (cf_ticket f)\<rparr> else None)"
proof -
  have p: "\<forall>(k, v)\<in>set (channelBody f i ka). printed v" by (auto simp: channelBody_def)
  show ?thesis
  proof (cases "length (mapText (channelBody f i ka)) \<le> maxBody")
    case True
    note r = map_reads [OF p, of "[]"]
    show ?thesis
      using assms True r unfolding channelBody_sorted
      by (auto simp: decodeCreate_def decodeBody_def bindDoc_def create_fields setCreate_def bindString_def bindBool_def
          bindInt_def intLiteral_def)
  next
    case False
    then have "jsonStream (take maxBody (mapText (channelBody f i ka))) = None"
      using p unfolding mapText_def by (intro struct_cut) auto
    then show ?thesis using False by (simp add: decodeCreate_def decodeBody_def)
  qed
qed

end
