(* ===== verification/Wire.thy ===== *)
theory Wire
  imports Transport_Pairing Transport_Races Envelope_Json
begin

text \<open>
  Bytes from one client to another, with the JSON of \<open>Json\<close> and \<open>Encode\<close> in the place of
  the server's parameters: what a subscriber's connection carries when a peer sends a frame,
  when a body is published on the open path, and when a retained frame is replayed.
\<close>

subsection \<open>The server's codec\<close>

definition codec :: "'r env \<Rightarrow> bool" where
  "codec E \<longleftrightarrow> v_json E = jsonStream \<and> v_unmarshal E = jsonWhole \<and> v_marshal E = Encode \<and> v_quote E = quoteJSON \<and>
     toValid (v_stampId E) \<noteq> '''' \<and> toValid (v_stampTs E) \<noteq> ''''"

definition hasRoom :: "'r server \<Rightarrow> string \<Rightarrow> nat \<Rightarrow> bool" where
  "hasRoom sv ch sub \<longleftrightarrow> brokerInv (s_broker sv) \<and> registered (s_broker sv) ch sub \<and> \<not> full (heap (s_broker sv)) sub"

lemma published_queue:
  assumes "envOk E" "hasRoom sv (e_channel e) sub"
  obtains s where "heap (s_broker (snd (publishEnv E e sv))) sub = Some s"
    "sub_out s = queueOf (s_broker sv) sub @ [e]"
proof -
  let ?o = "v_order E (List.map snd (entriesOf (s_broker sv) (e_channel e)))"
  note o = envOk_visit [OF assms(1), of "s_broker sv" e]
  have b: "s_broker (snd (publishEnv E e sv)) = snd (Publish ?o e (s_broker sv))"
    by (simp add: publishEnv_def split: prod.splits)
  have i: "brokerInv (s_broker sv)" using assms(2) by (simp add: hasRoom_def)
  have r: "registered (snd (Publish ?o e (s_broker sv))) (e_channel e) sub"
    using registered_Publish [OF i o] assms(2) by (simp add: hasRoom_def)
  obtain s where s: "heap (snd (Publish ?o e (s_broker sv))) sub = Some s"
    using brokerInv_registered [OF Publish_spec(1) [OF i o] r] by blast
  moreover have "sub_out s = queueOf (s_broker sv) sub @ [e]"
    using queueOf_Publish [OF i o r] s by (simp add: queueOf_def)
  ultimately show thesis using that b by simp
qed

lemma hasRoom_inert: "inert sv sv' \<Longrightarrow> hasRoom sv' = hasRoom sv"
  by (simp add: hasRoom_def inert_def fun_eq_iff)

lemma inert_broker: "inert sv sv' \<Longrightarrow> s_broker sv' = s_broker sv"
  by (simp add: inert_def)

subsection \<open>A frame to a live subscriber\<close>

text \<open>
  C8. Live relay, down to the bytes: when a peer sends a frame the broker accepts, the last
  frame the writer of a subscribed session sends, after as many turns as were queued, decodes to
  the envelope the peer sent, with the same JSON value as payload.
\<close>
theorem live_relay:
  assumes "codec E" "envOk E" "accepted E w frame e sv" "hasRoom sv (e_channel e) (w_sub u)"
    and "readerStep E w (True, frame) sv = (msgs, sv1)"
  shows "\<exists>out b p sv2. writerTurns (Suc (length (queueOf (s_broker sv) (w_sub u)))) E u sv1 = (out @ [OutText b], sv2) \<and>
    Decode jsonStream b = Inr (e\<lparr>e_payload := Some p\<rparr>) \<and>
    jsonValue p = (case e_payload e of None \<Rightarrow> Some TNull | Some q \<Rightarrow> jsonValue q) \<and> jsonValue p \<noteq> None"
proof -
  let ?svb = "retainFrame E w frame (snd (allowPublish E (w_channel w) sv))"
  note i = accepted_inert [of sv E w frame "w_channel w"]
  have d: "Decode jsonStream frame = Inr e" using assms(1,3) by (simp add: accepted_def codec_def)
  obtain b p where b: "Encode e = Some b"
    "Decode jsonStream b = Inr (e\<lparr>e_payload := Some p\<rparr>)"
    "jsonValue p = (case e_payload e of None \<Rightarrow> Some TNull | Some q \<Rightarrow> jsonValue q)" "jsonValue p \<noteq> None"
    using decoded_encodes [OF d] append_Nil2 by metis
  have 1: "sv1 = snd (publishEnv E e ?svb)" using reader_accepts [OF assms(3)] assms(5) by simp
  obtain s where s: "heap (s_broker sv1) (w_sub u) = Some s" "sub_out s = queueOf (s_broker sv) (w_sub u) @ [e]"
    using published_queue [OF assms(2), of ?svb e "w_sub u"] assms(4) hasRoom_inert [OF i] inert_broker [OF i]
    by (metis 1)
  obtain sv2 where "writerTurns (length (sub_out s)) E u sv1 = (concat (List.map (frameOf E) (sub_out s)), sv2)"
    using writer_drains [OF s(1)] by blast
  then have "writerTurns (Suc (length (queueOf (s_broker sv) (w_sub u)))) E u sv1 =
      (concat (List.map (frameOf E) (queueOf (s_broker sv) (w_sub u))) @ [OutText b], sv2)"
    using assms(1) b(1) by (simp add: s(2) frameOf_def codec_def)
  with b(2-4) show ?thesis by blast
qed

subsection \<open>A body published on the open path\<close>

text \<open>
  C10. What is published on an open topic, whatever its bytes, cannot forge events: the next
  event a subscriber gets is one \<open>data\<close> line, the encoding of an envelope of that topic whose
  payload is the published text.
\<close>
theorem public_text:
  assumes "codec E" "envOk E" "handlePublicPublish E r sv = (resp, sv1)" "p_status resp = 200"
    and "readBody [] (q_chunks r) (q_last r) = Some body" "topic = trimPrefix (q_path r) ''/publish/''"
    and "hasRoom sv topic sub" "queueOf (s_broker sv) sub = []"
  shows "\<exists>b p sv2. sseNext E sub sv1 = Some (Some (sseLive b), sv2) \<and> oneLine b \<and>
    Decode jsonStream b = Inr \<lparr>e_channel = toValid topic, e_type = ''request'', e_id = toValid (v_stampId E),
      e_payload = Some p, e_ts = toValid (v_stampTs E)\<rparr> \<and>
    jsonValue p = Some (TStr (toValid body))"
proof -
  let ?e = "publicEnvelope E topic body"
  obtain sv0 sv3 n where m: "topic \<noteq> ''''" "inert sv sv0" "publishEnv E ?e sv0 = (n, sv3)" "inert sv3 sv1"
    using publish_ok [OF assms(3-6)] by blast
  have ch: "e_channel ?e = topic" by (simp add: publicEnvelope_def)
  obtain s where s: "heap (s_broker sv3) sub = Some s" "sub_out s = [?e]"
    using published_queue [OF assms(2), of sv0 ?e sub] assms(7,8) hasRoom_inert [OF m(2)] inert_broker [OF m(2)] m(3) ch
    by (metis append_Nil snd_conv)
  have "denotes (maxDepth - 1) (quoteJSON body) (TStr (toValid body))" by (rule denotes_quote)
  then have p: "payloadIs (e_payload ?e) (TStr (toValid body))"
    using assms(1) by (simp add: publicEnvelope_def payloadIs_def codec_def)
  have t: "toValid ''request'' = ''request''" by (simp add: toValid_lit code_def)
  obtain b w where b: "Encode ?e = Some b" "oneLine b" "denotes (maxDepth - 1) w (TStr (toValid body))"
    "\<And>rest. Decode jsonStream (b @ rest) = Inr \<lparr>e_channel = toValid topic, e_type = ''request'', e_id = toValid (v_stampId E),
      e_payload = Some w, e_ts = toValid (v_stampTs E)\<rparr>"
    by (rule Encode_Decode [OF p])
      (use assms(1) m(1) t in \<open>simp_all add: publicEnvelope_def codec_def validTypes_def toValid_empty\<close>)
  have "heap (s_broker sv1) sub = Some s" using s(1) inert_broker [OF m(4)] by simp
  then have "\<exists>sv2. sseNext E sub sv1 = Some (Some (sseLive b), sv2)"
    using s(2) b(1) assms(1) by (simp add: sseNext_def liveNext_def receive_def codec_def)
  moreover have "jsonValue w = Some (TStr (toValid body))"
    using denotes_jsonValue [OF b(3) diff_le_self] .
  ultimately show ?thesis using b(2) b(4) [of "[]"] by auto
qed

subsection \<open>A retained frame\<close>

lemma evict_last: "fits mm mb [e] \<Longrightarrow> \<exists>M. evict mm mb (L @ [e]) = M @ [e]"
proof (induction L)
  case (Cons x L)
  then show ?case by (auto intro: exI [of _ "x # L"])
qed auto

lemma logged_retained:
  assumes "redis_ok (v_redis E)" "link_up (v_redis E)" "logged E c L n sv"
  obtains sv' where "retained E (ch_id c) sv = (ch_retained c, sv')" "logged E c L n sv'"
proof -
  obtain s where s: "s_store sv = Some s" "configIs (r_db (v_redis E) s) c" "logIs (r_db (v_redis E) s) (ch_id c) L n"
    using assms(3) by (auto simp: logged_def)
  obtain v s' where r: "run (v_redis E) (GetChannel (ch_id c)) s = (v, s')"
    by (cases "run (v_redis E) (GetChannel (ch_id c)) s")
  have "v = Inr c" "r_db (v_redis E) s' = r_db (v_redis E) s"
    using run_cleanE [OF assms(1,2) clean_GetChannel [OF s(2)]] r by simp_all
  then show thesis using s r that [of "sv\<lparr>s_store := Some s'\<rparr>"] by (simp add: retained_def callStore_def logged_def)
qed

lemma started_replay:
  assumes "redis_ok (v_redis E)" "link_up (v_redis E)" "logged E c L n sv" "ch_retained c" "0 \<le> after" "after < n"
    and "startPump E ip \<lparr>hs_channel = ch_id c, hs_afterSeq = after\<rparr> wok sv = ((u, sent, live), sv')"
  defines "ms \<equiv> filter (\<lambda>e. \<not> expired (v_unix E) e) (take 1000 (filter (\<lambda>e. after < int (l_seq e)) L))"
  shows "sent = List.map (\<lambda>x. OutText (l_blob x)) (take wok ms) \<and> (live \<longleftrightarrow> length ms \<le> wok)"
proof -
  obtain sv1 where 1: "retained E (ch_id c) sv = (True, sv1)" "logged E c L n sv1"
    using logged_retained [OF assms(1-3)] assms(4) by metis
  obtain r sv2 where 2: "subscribe (ch_id c) sv1 = (r, sv2)" by (cases "subscribe (ch_id c) sv1")
  have "logged E c L n sv2" using 1(2) 2 by (auto simp: subscribe_def logged_def split: prod.splits)
  then obtain sv3 where "catchUpFrom E (ch_id c) after sv2 = (List.map msgOf ms, sv3)"
    using logged_catchUp [OF assms(1,2) _ assms(5,6)] unfolding ms_def by blast
  then show ?thesis using assms(7) by (auto simp: startPump_def 1 2 Let_def msgOf_def take_map)
qed

lemma snoc_filter_take:
  assumes "length (M @ [e]) \<le> k" "P e" "Q e"
  shows "\<exists>N. filter P (take k (filter Q (M @ [e]))) = N @ [e]"
proof -
  have "length (filter Q M) < k" using assms(1) le_less_trans [OF length_filter_le, of M k Q] by simp
  then have "take k (filter Q (M @ [e])) = filter Q M @ [e]" using assms(3) by simp
  then show ?thesis using assms(2) by simp
qed

lemma replayed_log:
  assumes "joinable E after e frame c L n sv" "accepted E w frame e sv" "w_retained w"
    and "readerStep E w (True, frame) sv = (msgs, sv1)"
    and "startPump E ip \<lparr>hs_channel = e_channel e, hs_afterSeq = after\<rparr> wok sv1 = ((u, sent, live), sv2)"
  obtains N and x :: entry where "l_blob x = frame" "length (N @ [x]) \<le> 1000"
    "sent = List.map (\<lambda>x. OutText (l_blob x)) (take wok (N @ [x]))" "live \<longleftrightarrow> length (N @ [x]) \<le> wok"
proof -
  let ?a = "appendArgs c frame (BytesPerAccount (s_lim sv)) (v_unix E)"
  let ?L = "evict (ch_maxMsgs c) (ch_maxBytes c) (L @ [newEntry ?a n])"
  have j: "redis_ok (v_redis E)" "link_up (v_redis E)" "logged E c L n sv" "ch_retained c" "ch_owner c = ''''"
    "Suc (length L) < v_fuel E" "roomy ?a L n 0" "fits (ch_maxMsgs c) (ch_maxBytes c) [newEntry ?a n]"
    "0 \<le> after" "after < n" "length L < 1000" "ch_id c = e_channel e"
    using assms(1) by (auto simp: joinable_def logged_def)
  have w: "w_channel w = ch_id c" using assms(2) j(12) by (simp add: accepted_def)
  let ?sv0 = "snd (allowPublish E (w_channel w) sv)"
  have 0: "s_lim ?sv0 = s_lim sv" "s_store ?sv0 = s_store sv"
    by (auto simp: allowPublish_def split: prod.splits)
  have l0: "logged E c L n ?sv0" using j(3) by (simp add: logged_same [OF 0(2)])
  obtain x sv' where 1: "callStore E (Append (v_fuel E) (v_unix E) (ch_id c) frame (BytesPerAccount (s_lim sv))) ?sv0 = (x, sv')"
    "logged E c ?L (n + 1) sv'" using logged_append [OF j(1,2) l0 j(4-6) refl j(7)] by blast
  have "sv1 = snd (publishEnv E e sv')"
    using reader_accepts [OF assms(2)] by (simp add: assms(3,4) retainFrame_def 0(1) w [symmetric] 1(1) [folded w])
  then have "s_store sv1 = s_store sv'" by (simp add: publishEnv_def split: prod.splits)
  from logged_same [OF this] have l1: "logged E c ?L (n + 1) sv1" using 1(2) by simp
  obtain M where M: "?L = M @ [newEntry ?a n]" using evict_last [OF j(8)] by blast
  have len: "length ?L \<le> 1000" using evict_keeps_last(2) [OF j(8), of L] j(11) by simp
  have new: "\<not> expired (v_unix E) (newEntry ?a n)" "after < int (l_seq (newEntry ?a n))" "l_blob (newEntry ?a n) = frame"
    using j(9,10) by (auto simp: expired_def newEntry_def appendArgs_def)
  have "after < n + 1" using j(10) by simp
  let ?ms = "filter (\<lambda>e. \<not> expired (v_unix E) e) (take 1000 (filter (\<lambda>e. after < int (l_seq e)) ?L))"
  obtain N where N: "?ms = N @ [newEntry ?a n]"
    using snoc_filter_take [of M "newEntry ?a n" 1000, OF len [unfolded M], of "\<lambda>e. \<not> expired (v_unix E) e" "\<lambda>e. after < int (l_seq e)", OF new(1,2)]
    by (auto simp only: M)
  have "length ?ms \<le> length (take 1000 (filter (\<lambda>e. after < int (l_seq e)) ?L))" by (rule length_filter_le)
  also have "\<dots> \<le> 1000" by simp
  finally have "length ?ms \<le> 1000" .
  moreover note started_replay [OF j(1,2) l1 j(4,9) \<open>after < n + 1\<close> assms(5) [folded j(12)], unfolded N]
  ultimately show thesis by (intro that [of "newEntry ?a n" N] new(3)) (simp_all only: N)
qed

text \<open>
  C12. Retention is byte for byte: on a retained channel with room, the frame of an accepted
  message is exactly the last frame a session that starts later is sent, whatever its form
  and whatever follows the envelope in it.
\<close>
theorem replay_verbatim:
  assumes "joinable E after e frame c L n sv" "accepted E w frame e sv" "w_retained w"
    and "readerStep E w (True, frame) sv = (msgs, sv1)"
    and "startPump E ip \<lparr>hs_channel = e_channel e, hs_afterSeq = after\<rparr> wok sv1 = ((u, sent, True), sv2)"
  shows "\<exists>before. sent = before @ [OutText frame]"
proof -
  obtain N and x :: entry where x: "l_blob x = frame" "length (N @ [x]) \<le> 1000"
    "sent = List.map (\<lambda>x. OutText (l_blob x)) (take wok (N @ [x]))" "True \<longleftrightarrow> length (N @ [x]) \<le> wok"
    by (rule replayed_log [OF assms])
  then have "take wok (N @ [x]) = N @ [x]" by simp
  then show ?thesis using x(1) unfolding x(3) by simp
qed

lemma replay_starts:
  assumes "joinable E after e frame c L n sv" "accepted E w frame e sv" "w_retained w"
    and "readerStep E w (True, frame) sv = (msgs, sv1)"
    and "startPump E ip \<lparr>hs_channel = e_channel e, hs_afterSeq = after\<rparr> wok sv1 = ((u, sent, live), sv2)" "1000 \<le> wok"
  shows live
  by (rule replayed_log [OF assms(1-5)]) (use assms(6) in simp)

text \<open>The decoder reads one JSON value and ignores what follows it in the frame: such bytes
  never reach live subscribers, but a replay sends them.\<close>

lemma trailing_accepted:
  assumes "Decode jsonStream sent = Inr e"
  shows "\<exists>b p. Encode e = Some b \<and> (\<forall>rest. Decode jsonStream (b @ rest) = Inr (e\<lparr>e_payload := Some p\<rparr>))"
  using decoded_encodes [OF assms] by metis

subsection \<open>At concrete inputs\<close>

definition exWireEnv :: "db env" where
  "exWireEnv = exEnvT\<lparr>v_json := jsonStream, v_unmarshal := jsonWhole, v_marshal := Encode, v_quote := quoteJSON\<rparr>"

definition exEnvelope :: envelope where
  "exEnvelope = \<lparr>e_channel = ''c'', e_type = ''request'', e_id = ''1'', e_payload = Some (quoteJSON ''hi''), e_ts = ''t''\<rparr>"

lemma exWireEnv_codec: "codec exWireEnv" "envOk exWireEnv"
  by (simp_all add: codec_def exWireEnv_def exEnvT_def envOk_def)

definition exListen :: "db server" where
  "exListen = exJoin\<lparr>s_broker := snd (Subscribe ''c'' newBroker), s_lim := DefaultLimits\<lparr>MaxMessageBytes := 0\<rparr>\<rparr>"

lemma exListen_room: "hasRoom exListen ''c'' 0" "queueOf (s_broker exListen) 0 = []"
proof -
  have s: "Subscribe ''c'' newBroker = (0, snd (Subscribe ''c'' newBroker))"
    by (simp add: Subscribe_def newBroker_def Let_def)
  note r = subscribed_registered [OF newBroker_inv s] and i = Subscribe_facts(1) [OF newBroker_inv s]
  show "queueOf (s_broker exListen) 0 = []" using r(2) by (simp add: exListen_def)
  then show "hasRoom exListen ''c'' 0" using r(1) i
    by (auto simp: hasRoom_def exListen_def full_def queueOf_def subscriberQueueDepth_def split: option.splits)
qed

lemma exListen_accepts:
  assumes "w_channel w = ''c''" shows "accepted exWireEnv w exWire exEnvelope exListen"
proof -
  have "fst (allowPublish exWireEnv ''c'' exListen)"
    by (simp add: allowPublish_def exListen_def exJoin_def exServer_fields exWireEnv_def exEnvT_def NewPerMinute_def
        NewRateLimiter_def Allow_def freshBucket_def allow_def Let_def timeSub_def seconds_def)
  then show ?thesis using exWire_decode assms
    by (simp add: accepted_def exEnvelope_def) (simp add: exWireEnv_def exListen_def)
qed

abbreviation exSession :: wsSession where
  "exSession \<equiv> \<lparr>w_channel = ''c'', w_retained = True, w_sub = 0, w_ip = ''i''\<rparr>"

theorem live_relay_witness:
  "\<exists>out b p sv2. writerTurns 1 exWireEnv exSession (snd (readerStep exWireEnv exSession (True, exWire) exListen)) =
      (out @ [OutText b], sv2) \<and> Decode jsonStream b = Inr (exEnvelope\<lparr>e_payload := Some p\<rparr>)"
proof -
  obtain msgs sv1 where s: "readerStep exWireEnv exSession (True, exWire) exListen = (msgs, sv1)"
    by (cases "readerStep exWireEnv exSession (True, exWire) exListen")
  from live_relay [OF exWireEnv_codec exListen_accepts _ s, of exSession] exListen_room show ?thesis
    by (simp add: s) (simp add: exEnvelope_def, blast)
qed

lemma publish_accepts:
  assumes "q_method r = ''POST''" "topic = trimPrefix (q_path r) ''/publish/''" "guardPublicTopic topic sv = None"
    and "allowPublish E topic sv = (True, sva)" "allowPublish E (''ip:'' @ clientIP r) sva = (True, svb)"
    and "readBody [] (q_chunks r) (q_last r) = Some body" "s_store svb = None"
  shows "p_status (fst (handlePublicPublish E r sv)) = 200"
  using assms by (auto simp: handlePublicPublish_def Let_def retainPublic_def publishEnv_def split: prod.splits)

lemma freshAllow: "buckets l k = None \<Longrightarrow> rl_capacity l = 20 \<Longrightarrow> fst (Allow (\<lambda>x. x) 5 k l)"
  by (simp add: Allow_bucketAt bucketAt_def freshBucket_def allow_def Let_def timeSub_def seconds_def)

theorem public_text_witness:
  "\<exists>b p sv2. sseNext exWireEnv 0 (snd (handlePublicPublish exWireEnv (exRequest\<lparr>q_path := ''/publish/c''\<rparr>)
      (exListen\<lparr>s_store := None\<rparr>))) = Some (Some (sseLive b), sv2) \<and>
     (\<exists>e. Decode jsonStream b = Inr e \<and> e_payload e = Some p) \<and> jsonValue p = Some (TStr ''hi'')"
proof -
  let ?r = "exRequest\<lparr>q_path := ''/publish/c''\<rparr>" and ?sv = "exListen\<lparr>s_store := None\<rparr>"
  obtain resp sv1 where p: "handlePublicPublish exWireEnv ?r ?sv = (resp, sv1)"
    by (cases "handlePublicPublish exWireEnv ?r ?sv")
  have t: "''c'' = trimPrefix (q_path ?r) ''/publish/''" by (simp add: trimPrefix_def hasPrefix_def)
  have g: "guardPublicTopic ''c'' ?sv = None"
    by (simp add: guardPublicTopic_def HasChannel_def exListen_def exJoin_def exServer_fields Register_def NewRegistry_def)
  let ?pub = "NewPerMinute (\<lambda>x. x) 60 20"
  define l1 where "l1 = snd (Allow (\<lambda>x. x) 5 ''c'' ?pub)"
  define l2 where "l2 = snd (Allow (\<lambda>x. x) 5 (''ip:'' @ clientIP ?r) l1)"
  have l: "Allow (\<lambda>x. x) 5 ''c'' ?pub = (True, l1)" "Allow (\<lambda>x. x) 5 (''ip:'' @ clientIP ?r) l1 = (True, l2)"
    using freshAllow [of ?pub "''c''"] freshAllow [of l1 "''ip:'' @ clientIP ?r"]
    by (simp_all add: l1_def l2_def Allow_bucketAt NewPerMinute_def NewRateLimiter_def)
  have "v_fl exWireEnv = (\<lambda>x. x)" "v_now exWireEnv = 5" "s_pubChan ?sv = ?pub"
    by (simp_all add: exWireEnv_def exEnvT_def exListen_def exJoin_def exServer_fields)
  then have a: "allowPublish exWireEnv ''c'' ?sv = (True, ?sv\<lparr>s_pubChan := l1\<rparr>)"
    "allowPublish exWireEnv (''ip:'' @ clientIP ?r) (?sv\<lparr>s_pubChan := l1\<rparr>) = (True, ?sv\<lparr>s_pubChan := l2\<rparr>)"
    using l by (simp_all add: allowPublish_def)
  have q: "q_method ?r = ''POST''" "readBody [] (q_chunks ?r) (q_last ?r) = Some ''hi''"
    by (simp_all add: exRequest_def)
  have "p_status resp = 200"
    using publish_accepts [OF q(1) t g a q(2)] p by simp
  moreover have "hasRoom ?sv ''c'' 0" "queueOf (s_broker ?sv) 0 = []"
    using exListen_room by (simp_all add: hasRoom_def)
  moreover have "toValid ''hi'' = ''hi''" by (simp add: toValid_lit code_def)
  ultimately show ?thesis using public_text [OF exWireEnv_codec p _ q(2) t, of 0] by (auto simp: p)
qed

lemma exWire_length: "length exWire = 65" by code_simp

lemma exListen_joinable: "joinable exWireEnv 0 exEnvelope exWire exChannel [exEntry] 2 exListen"
proof -
  have "roomy (appendArgs exChannel exWire (BytesPerAccount (s_lim exListen)) (v_unix exWireEnv)) [exEntry] 2 0"
    by (simp add: roomy_def appendArgs_def exChannel_def exEntry_def exact_def exWire_length exWireEnv_def exEnvT_def)
  moreover have "fits (ch_maxMsgs exChannel) (ch_maxBytes exChannel)
      [newEntry (appendArgs exChannel exWire (BytesPerAccount (s_lim exListen)) (v_unix exWireEnv)) 2]"
    by (simp add: fits_def overCap_def exChannel_def)
  moreover have "brokerInv (s_broker exListen)" using exListen_room(1) by (simp add: hasRoom_def)
  moreover have "s_store exListen = Some exDb" "v_redis exWireEnv = exRedis" "v_fuel exWireEnv = 9"
    by (simp_all add: exListen_def exJoin_def exWireEnv_def exEnvT_def)
  moreover have "r_db exRedis exDb = exDb" by (simp add: exRedis_def)
  moreover have "ch_id exChannel = ''c''" "ch_retained exChannel" "ch_owner exChannel = ''''" "e_channel exEnvelope = ''c''"
    by (simp_all add: exChannel_def exEnvelope_def)
  ultimately show ?thesis
    using exRedis_ok exDb_config exDb_log exWireEnv_codec(2) by (simp add: joinable_def)
qed

theorem replay_verbatim_witness:
  "case startPump exWireEnv ''i'' \<lparr>hs_channel = ''c'', hs_afterSeq = 0\<rparr> 1000
      (snd (readerStep exWireEnv exSession (True, exWire) exListen)) of
     ((u, sent, live), sv2) \<Rightarrow> live \<and> (\<exists>before. sent = before @ [OutText exWire])"
proof -
  obtain msgs sv1 where s: "readerStep exWireEnv exSession (True, exWire) exListen = (msgs, sv1)"
    by (cases "readerStep exWireEnv exSession (True, exWire) exListen")
  obtain u sent live sv2 where p: "startPump exWireEnv ''i'' \<lparr>hs_channel = e_channel exEnvelope, hs_afterSeq = 0\<rparr> 1000 sv1
      = ((u, sent, live), sv2)" by (metis prod.collapse)
  have c: "e_channel exEnvelope = ''c''" by (simp add: exEnvelope_def)
  have a: "accepted exWireEnv exSession exWire exEnvelope exListen" by (rule exListen_accepts) simp
  have live using replay_starts [OF exListen_joinable a _ s p] by simp
  then show ?thesis
    using replay_verbatim [OF exListen_joinable a _ s, of "''i''" 1000 u sent sv2] p by (simp add: s c)
qed

end
