(* ===== verification/Ws_Text.thy ===== *)
theory Ws_Text
  imports Http_Text Wire
begin

text \<open>
  The frames of a WebSocket session as text: the handshake, the challenge and its answer, the
  verdict, and the error envelopes the broker sends to a peer whose frame it refused.
\<close>

subsection \<open>What the server writes\<close>

definition challengeText :: "string \<Rightarrow> bytes" where
  "challengeText c = structText [(''challenge'', OStr c)]"

definition resultText :: "bool \<Rightarrow> string \<Rightarrow> bytes" where
  "resultText ok err = structText ((''ok'', OBool ok) # (if err = '''' then [] else [(''error'', OStr err)]))"

text \<open>\<open>sendError\<close>; \<open>%q\<close> of the messages, which are printable ASCII without quotes.\<close>

definition errorEnvelope :: "string \<Rightarrow> string \<Rightarrow> envelope" where
  "errorEnvelope ts msg = \<lparr>e_channel = '''', e_type = ''error'', e_id = '''', e_payload = Some (quoted msg), e_ts = ts\<rparr>"

definition frameBytes :: "string \<Rightarrow> wsOut \<Rightarrow> bytes option" where
  "frameBytes ts f = (case f of
       OutChallenge c \<Rightarrow> Some (challengeText c)
     | OutResult ok err \<Rightarrow> Some (resultText ok err)
     | OutText b \<Rightarrow> Some b
     | OutErrorEnv msg \<Rightarrow> Encode (errorEnvelope ts msg)
     | OutClose st why \<Rightarrow> None)"

definition errorMessages :: "string list" where
  "errorMessages = [''invalid envelope'', ''channel mismatch'', ''message too large'', ''rate limited'', ''storage quota exceeded'']"

text \<open>Those are all the messages the reader ever sends.\<close>

lemma reader_errors:
  "OutErrorEnv msg \<in> set (fst (readerStep E w f sv)) \<Longrightarrow> msg \<in> set errorMessages"
  by (cases f) (auto simp: readerStep_def errorMessages_def
      split: if_splits sum.splits prod.splits bool.splits option.splits store_error.splits)

lemma plain_quoted: "\<forall>c\<in>set s. 32 \<le> code c \<and> code c < 128 \<and> c \<noteq> dq \<and> c \<noteq> bslash \<and> \<not> htmlUnsafe c \<Longrightarrow> escBytes s = s"
  by (induction s) (auto simp: escBytes.simps(2) escAscii_def)

lemma error_quoted: "msg \<in> set errorMessages \<Longrightarrow> quoted msg = quoteJSON msg \<and> toValid msg = msg"
proof -
  assume m: "msg \<in> set errorMessages"
  have "list_all (\<lambda>s. list_all (\<lambda>c. 32 \<le> code c \<and> code c < 128 \<and> c \<noteq> dq \<and> c \<noteq> bslash \<and> \<not> htmlUnsafe c) s) errorMessages"
    by code_simp
  then have "\<forall>c\<in>set msg. 32 \<le> code c \<and> code c < 128 \<and> c \<noteq> dq \<and> c \<noteq> bslash \<and> \<not> htmlUnsafe c"
    using m by (auto simp: list_all_iff)
  moreover have "char_of (34::nat) = dq" by code_simp
  ultimately show ?thesis using plain_quoted ascii_valid by (simp add: quoted_def quoteJSON_def)
qed

text \<open>
  C35. A refused frame is answered honestly: the reader's error reaches the peer as one line of
  JSON of type \<open>error\<close> whose payload is the message, and as it names no channel, the broker's
  own decoder never takes it for traffic.
\<close>
theorem error_frames:
  assumes "OutErrorEnv msg \<in> set (fst (readerStep E w f sv))"
  shows "\<exists>b. frameBytes ts (OutErrorEnv msg) = Some b \<and> oneLine b \<and> Decode jsonStream b = Inl EmptyChannel \<and>
    (\<exists>raw. Option.bind (jsonWhole b) bindEnvelope = Some \<lparr>e_channel = '''', e_type = ''error'', e_id = '''',
        e_payload = Some raw, e_ts = toValid ts\<rparr> \<and> jsonValue raw = Some (TStr msg))"
proof -
  let ?e = "errorEnvelope ts msg"
  have q: "quoted msg = quoteJSON msg" "toValid msg = msg" using error_quoted [OF reader_errors [OF assms]] by simp_all
  have "denotes (maxDepth - 1) (quoteJSON msg) (TStr msg)" using denotes_quote [of "maxDepth - 1" msg] q(2) by simp
  then have p: "payloadIs (e_payload ?e) (TStr msg)" by (simp add: errorEnvelope_def payloadIs_def q(1))
  obtain b w where b: "Encode ?e = Some b" "oneLine b" "denotes (maxDepth - 1) w (TStr msg)"
    "\<And>rest. Option.bind (jsonStream (b @ rest)) bindEnvelope = Some \<lparr>e_channel = toValid (e_channel ?e), e_type = toValid (e_type ?e),
       e_id = toValid (e_id ?e), e_payload = Some w, e_ts = toValid (e_ts ?e)\<rparr>"
    "jsonWhole b = jsonStream b"
    using Encode_binds [OF p] by blast
  have "toValid ''error'' = ''error''" by (simp add: toValid_lit code_def)
  then have f: "Option.bind (jsonStream b) bindEnvelope = Some \<lparr>e_channel = '''', e_type = ''error'', e_id = '''',
        e_payload = Some w, e_ts = toValid ts\<rparr>"
    using b(4) [of "[]"] by (simp add: errorEnvelope_def)
  then have "Decode jsonStream b = Inl EmptyChannel"
    by (auto simp: Decode_def Validate_def split: option.splits bind_splits)
  moreover have "jsonValue w = Some (TStr msg)" using denotes_jsonValue [OF b(3) diff_le_self] .
  ultimately show ?thesis using b(1,2,5) f by (auto simp: frameBytes_def)
qed

theorem error_frames_witness:
  "\<exists>b. frameBytes ''t'' (OutErrorEnv ''invalid envelope'') = Some b \<and> Decode jsonStream b = Inl EmptyChannel"
proof -
  have "Decode (v_json exWireEnv) [] = Inl BadJSON"
    by (simp add: Decode_def exWireEnv_def jsonStream_def parseDoc_def skipWs_def)
  then have "OutErrorEnv ''invalid envelope'' \<in> set (fst (readerStep exWireEnv exSession (True, []) exListen))"
    by (simp add: readerStep_def)
  from error_frames [OF this, of "''t''"] show ?thesis by blast
qed

subsection \<open>What the peer writes\<close>

definition helloText :: "wsHandshake \<Rightarrow> bytes" where
  "helloText hs = structText ((''channel'', OStr (hs_channel hs)) #
     (if hs_afterSeq hs = 0 then [] else [(''after_seq'', OInt (hs_afterSeq hs))]))"

definition authText :: "string \<Rightarrow> bytes" where
  "authText r = structText [(''response'', OStr r)]"

lemma hello_decodes:
  assumes "validUTF8 (hs_channel hs)" "int64 (hs_afterSeq hs)"
  shows "decodeHandshake jsonWhole (helloText hs) = Some hs"
proof -
  have n: "toValid ''channel'' = ''channel''" "toValid ''after_seq'' = ''after_seq''"
    "fieldOf [''channel'', ''after_seq''] ''channel'' = Some ''channel''"
    "fieldOf [''channel'', ''after_seq''] ''after_seq'' = Some ''after_seq''"
    by (simp_all add: toValid_lit code_def fieldOf_def)
  have s: "skipWs [] = []" by (simp add: skipWs_def)
  show ?thesis
    using assms struct_reads(2) [OF _ s, of "(''channel'', OStr (hs_channel hs)) #
     (if hs_afterSeq hs = 0 then [] else [(''after_seq'', OInt (hs_afterSeq hs))])"]
    by (cases hs) (auto simp: decodeHandshake_def helloText_def bindDoc_def n setHandshake_def bindString_def bindInt_def
        intLiteral_def validUTF8_def)
qed

lemma auth_decodes: "validUTF8 r \<Longrightarrow> decodeAuth jsonWhole (authText r) = Some r"
proof -
  assume v: "validUTF8 r"
  have n: "toValid ''response'' = ''response''" "fieldOf [''response''] ''response'' = Some ''response''"
    by (simp_all add: toValid_lit code_def fieldOf_def)
  have s: "skipWs [] = []" by (simp add: skipWs_def)
  show ?thesis
    using v struct_reads(2) [OF _ s, of "[(''response'', OStr r)]"]
    by (simp add: decodeAuth_def authText_def bindDoc_def n bindString_def validUTF8_def)
qed

lemma valid_b64 [simp]: "validUTF8 (b64encode s)"
proof -
  have "code c < 128" if "c \<in> set (b64encode s)" for c
  proof -
    from that set_b64pad have "c = CHR ''='' \<or> (\<exists>n\<in>set (b64q (codes s)). c = b64sym n)"
      by (fastforce simp: b64encode_def)
    then show ?thesis using b64q_small [OF codes_small [of s]] by (auto simp: b64sym_def) (simp add: code_def)
  qed
  then show ?thesis by (simp add: validUTF8_def ascii_valid)
qed

end
