(* ===== verification/Client_Server.thy ===== *)
theory Client_Server
  imports Ws_Text Server_Run
begin

text \<open>
  The commands joined to the server: what a command prints when its request goes through the
  server's handlers and the answer comes back, with nothing between the two but HTTP.
\<close>

subsection \<open>A client and the server\<close>

text \<open>
  What HTTP carries: the method, the path below the server's base URL, the headers the server
  reads and the body's text. \<open>wire\<close> adds what the network adds (the client's address and other
  headers). An answer comes back with its status line (\<open>line\<close>) and its body.
\<close>

definition bodyBytes :: "cliReq \<Rightarrow> bytes" where
  "bodyBytes c = (case c_body c of None \<Rightarrow> [] | Some fs \<Rightarrow> mapText fs)"

definition carries :: "string \<Rightarrow> (cliReq \<Rightarrow> request) \<Rightarrow> bool" where
  "carries base wire \<longleftrightarrow> (\<forall>c p. c_url c = base @ p \<longrightarrow>
     q_method (wire c) = c_method c \<and> q_path (wire c) = p \<and> q_body (wire c) = bodyBytes c)"

definition answerBytes :: "route \<Rightarrow> response \<Rightarrow> bytes" where
  "answerBytes rt p = (case p_body p of
       BText t \<Rightarrow> if rt = ToHealthz then t else t @ nl
     | BJson fs \<Rightarrow> (if rt = ToStats then structText fs else mapText fs) @ nl
     | BNone \<Rightarrow> [])"

definition serverNet :: "(string \<Rightarrow> string option) \<Rightarrow> 'r env \<Rightarrow> (cliReq \<Rightarrow> request) \<Rightarrow> (nat \<Rightarrow> string) \<Rightarrow>
    64 word \<times> 'r server \<Rightarrow> net" where
  "serverNet urlHost E wire line st c =
     (case fst (snd (serveHTTP urlHost E (\<lambda>_. False) None (\<lambda>_. None) 0 (wire c) st)) of
        Plain p \<Rightarrow> Answer (p_status p) (line (p_status p))
          (answerBytes (muxRoute (q_method (wire c)) (q_path (wire c))) p)
      | _ \<Rightarrow> Unreachable ''not an answer'')"

text \<open>The server after the request.\<close>

definition servedState :: "(string \<Rightarrow> string option) \<Rightarrow> 'r env \<Rightarrow> (cliReq \<Rightarrow> request) \<Rightarrow>
    64 word \<times> 'r server \<Rightarrow> cliReq \<Rightarrow> 'r server" where
  "servedState urlHost E wire st c =
     snd (snd (snd (serveHTTP urlHost E (\<lambda>_. False) None (\<lambda>_. None) 0 (wire c) st)))"

lemma post_served:
  assumes "carries (trimRightSlash server) wire" "c = postRequest server p body hdrs" "p \<in> {''/channel'', ''/account''}"
  shows "let h = (if p = ''/channel'' then handleCreateChannel E (wire c) sv else handleCreateAccount E (wire c) sv) in
    serverNet urlHost E wire line (hits, sv) c =
      Answer (p_status (fst h)) (line (p_status (fst h))) (answerBytes (muxRoute ''POST'' p) (fst h)) \<and>
    servedState urlHost E wire (hits, sv) c = snd h \<and> q_body (wire c) = mapText body \<and> q_method (wire c) = ''POST''"
proof -
  have w: "q_method (wire c) = ''POST''" "q_path (wire c) = p" "q_body (wire c) = mapText body"
    using assms by (auto simp: carries_def postRequest_def bodyBytes_def)
  have "cleanPath ''/channel'' = ''/channel''" "cleanPath ''/account'' = ''/account''" by code_simp+
  then have "muxRoute ''POST'' ''/channel'' = ToChannel" "muxRoute ''POST'' ''/account'' = ToAccount"
    by (simp_all add: muxRoute_def matchPath_def Let_def)
  then show ?thesis using assms(3) w
    by (auto simp: serverNet_def servedState_def serveHTTP_def Let_def preflight_def split: prod.splits)
qed

lemma channel_key_stored:
  assumes "codec E" "carries (trimRightSlash (cf_server f)) wire" "int64 (cf_ttlSec f)"
    and "runChannel P idRand secretRand (serverNet urlHost E wire line (hits, sv)) args f = Inr out"
    and "\<forall>raw. secretRand = Some raw \<longrightarrow> 16 \<le> length raw"
    and "validUTF8 (channelIdOf idRand f)" "channels (s_reg sv) (channelIdOf idRand f) = None"
  shows "\<exists>secret k c. out = channelText f (channelIdOf idRand f) secret \<and> AuthKey P secret = Inr k \<and>
    c = postRequest (cf_server f) ''/channel'' (channelBody f (channelIdOf idRand f) (b32encode k)) (channelHeaders f) \<and>
    channels (s_reg (servedState urlHost E wire (hits, sv) c)) (channelIdOf idRand f) = Some k"
proof -
  let ?i = "channelIdOf idRand f"
  obtain secret k line' body where a: "AuthKey P secret = Inr k" and out: "out = channelText f ?i secret"
    and sent: "serverNet urlHost E wire line (hits, sv) (postRequest (cf_server f) ''/channel'' (channelBody f ?i (b32encode k)) (channelHeaders f))
       = Answer 200 line' body"
    by (rule runChannel_Inr [OF assms(4) assms(5) [rule_format]])
  define c where "c = postRequest (cf_server f) ''/channel'' (channelBody f ?i (b32encode k)) (channelHeaders f)"
  let ?h = "handleCreateChannel E (wire c) sv"
  have h: "p_status (fst ?h) = 200" "servedState urlHost E wire (hits, sv) c = snd ?h"
    "q_body (wire c) = mapText (channelBody f ?i (b32encode k))"
    using post_served [OF assms(2) c_def, of E sv urlHost line hits] sent [folded c_def] by (auto simp: Let_def)
  have "decodeCreate (v_json E) (q_body (wire c)) \<noteq> None"
  proof
    assume "decodeCreate (v_json E) (q_body (wire c)) = None"
    then show False using h(1) by (auto simp: handleCreateChannel_def split: if_splits prod.splits bool.splits)
  qed
  then obtain req where req: "decodeCreate (v_json E) (q_body (wire c)) = Some req"
    "r_channel req = ?i" "r_authKey req = b32encode k"
    using assms(1,6) channel_request [OF assms(3), of ?i "b32encode k"]
    by (auto simp: h(3) codec_def validUTF8_def split: if_splits)
  have d: "DecodeAuthKey (b32encode k) = Inr k" using AuthKey_length [OF a] by simp
  then have "r_authKey req \<noteq> ''''" using req(3) DecodeAuthKey_empty by auto
  moreover have "channels (s_reg sv) (r_channel req) = None" using req(2) assms(7) by simp
  ultimately obtain key where "DecodeAuthKey (r_authKey req) = Inr key"
    "channels (s_reg (snd ?h)) (r_channel req) = Some key"
    using creation_registers [OF prod.collapse [symmetric] h(1) req(1)] by blast
  then have "channels (s_reg (servedState urlHost E wire (hits, sv) c)) ?i = Some k"
    using d req by (simp add: h(2))
  then show ?thesis using a out c_def by blast
qed

text \<open>
  \<open>channel create\<close> against the server, with only HTTP between the two: when the command
  succeeds, the server holds exactly the admission key of the secret the command prints,
  under the name it prints.
\<close>
theorem channel_create_end_to_end:
  assumes "codec E" "carries (trimRightSlash (cf_server f)) wire" "int64 (cf_ttlSec f)"
    and "runChannel P idRand secretRand (serverNet urlHost E wire line (hits, sv)) args f = Inr out"
    and "\<forall>raw. secretRand = Some raw \<longrightarrow> 16 \<le> length raw"
    and "validUTF8 (channelIdOf idRand f)" "channels (s_reg sv) (channelIdOf idRand f) = None"
  shows "\<exists>secret k c. out = channelText f (channelIdOf idRand f) secret \<and> AuthKey P secret = Inr k \<and>
    c = postRequest (cf_server f) ''/channel'' (channelBody f (channelIdOf idRand f) (b32encode k)) (channelHeaders f) \<and>
    channels (s_reg (servedState urlHost E wire (hits, sv) c)) (channelIdOf idRand f) = Some k"
  using assms by (rule channel_key_stored)

subsection \<open>The printed secret opens the channel\<close>

text \<open>A peer that knows the secret of a channel: it reads the challenge from the broker's frame
  and answers it.\<close>

definition readChallenge :: "bytes \<Rightarrow> string option" where
  "readChallenge b = (case jsonWhole b of None \<Rightarrow> None
     | Some d \<Rightarrow> bindDoc [''challenge''] (\<lambda>f v r. bindString (\<lambda>u. u) v r) '''' d)"

definition secretPeer :: "prims \<Rightarrow> string \<Rightarrow> bytes \<Rightarrow> frame" where
  "secretPeer P secret b = (case Option.bind (readChallenge b) b64decode of
       None \<Rightarrow> None
     | Some ch \<Rightarrow> (case ChallengeResponse P secret ch of
         Inl _ \<Rightarrow> None
       | Inr a \<Rightarrow> Some (True, authText (b64encode a))))"

lemma challenge_read: "readChallenge (challengeText (b64encode ch)) = Some (b64encode ch)"
proof -
  have n: "toValid ''challenge'' = ''challenge''" "fieldOf [''challenge''] ''challenge'' = Some ''challenge''"
    by (simp_all add: toValid_lit code_def fieldOf_def)
  have s: "skipWs [] = []" by (simp add: skipWs_def)
  have v: "toValid (b64encode ch) = b64encode ch" using valid_b64 by (simp add: validUTF8_def)
  show ?thesis
    using struct_reads(2) [OF _ s, of "[(''challenge'', OStr (b64encode ch))]"]
    by (simp add: readChallenge_def challengeText_def bindDoc_def n bindString_def v)
qed

text \<open>Whoever knows the secret gets into the channel: the peer sends its hello and answers the
  challenge, and the session goes live (or its replay breaks the connection).\<close>

definition secretOpens :: "'r env \<Rightarrow> string \<Rightarrow> string \<Rightarrow> int \<Rightarrow> nat \<Rightarrow> request \<Rightarrow> 'r server \<Rightarrow> bool" where
  "secretOpens E i secret after wok r sv \<longleftrightarrow> (\<exists>w out challenge. w_channel w = i \<and> v_rand1 E = Some challenge \<and>
    fst (handleWS E r True (Some (True, helloText \<lparr>hs_channel = i, hs_afterSeq = after\<rparr>))
      (\<lambda>ch. secretPeer (v_prims E) secret (challengeText ch)) wok sv) \<in> {WsLive w out, WsGone out} \<and>
    take 2 out = [OutChallenge (b64encode challenge), OutResult True ''''])"

lemma secret_admitted:
  assumes "codec E" "AuthKey (v_prims E) secret = Inr k" "channels (s_reg sv) i = Some k"
    and "fst (Acquire (clientIP r) (s_conns sv))" "3 \<le> wok" "v_rand1 E = Some challenge"
    and "validUTF8 i" "int64 after"
  shows "secretOpens E i secret after wok r sv"
proof -
  let ?hs = "\<lparr>hs_channel = i, hs_afterSeq = after\<rparr>" and ?a = "ResponseFromAuthKey (v_prims E) k challenge"
  let ?peer = "\<lambda>ch. secretPeer (v_prims E) secret (challengeText ch)"
  have u: "v_unmarshal E = jsonWhole" using assms(1) by (simp add: codec_def)
  have "decodeHandshake (v_unmarshal E) (helloText ?hs) = Some ?hs" using hello_decodes [of ?hs] assms(7,8) by (simp add: u)
  moreover have "textOf (?peer (b64encode challenge)) = Some (authText (b64encode ?a))"
    by (simp add: secretPeer_def challenge_read b64.dec_enc ChallengeResponse_def assms(2) textOf_def)
  moreover have "decodeAuth (v_unmarshal E) (authText (b64encode ?a)) = Some (b64encode ?a)"
    by (simp add: u auth_decodes)
  moreover have "\<exists>k. channels (s_reg sv) (hs_channel ?hs) = Some k \<and>
      b64decode (b64encode ?a) = Some (ResponseFromAuthKey (v_prims E) k challenge)"
    using assms(3) by (simp add: b64.dec_enc)
  ultimately have "\<exists>w out. w_channel w = i \<and>
    fst (handleWS E r True (Some (True, helloText ?hs)) ?peer wok sv) \<in> {WsLive w out, WsGone out} \<and>
    take 2 out = [OutChallenge (b64encode challenge), OutResult True '''']"
    using ws_outcome [where peer = ?peer and challenge = challenge and hs = ?hs and hello = "Some (True, helloText ?hs)",
        OF assms(4) _ _ assms(6,5), of "helloText ?hs" "authText (b64encode ?a)" "b64encode ?a"]
    by (simp add: textOf_def)
  then show ?thesis using assms(6) unfolding secretOpens_def by blast
qed

text \<open>
  C7. From the command line to a live session, over bytes all the way: when \<open>channel create\<close>
  succeeds against the server, then in every later state of the server a peer that knows only
  the printed name and secret, and speaks the protocol's JSON, is admitted to the channel.
\<close>
theorem printed_secret_admits:
  assumes "codec E" "carries (trimRightSlash (cf_server f)) wire" "int64 (cf_ttlSec f)"
    and "runChannel P idRand secretRand (serverNet urlHost E wire line (hits, sv)) args f = Inr out"
    and "\<forall>raw. secretRand = Some raw \<longrightarrow> 16 \<le> length raw"
    and "validUTF8 (channelIdOf idRand f)" "channels (s_reg sv) (channelIdOf idRand f) = None"
    and "codec E'" "v_prims E' = P" "v_rand1 E' = Some challenge" "int64 after" "3 \<le> wok"
  shows "\<exists>secret k c. out = channelText f (channelIdOf idRand f) secret \<and> AuthKey P secret = Inr k \<and>
    c = postRequest (cf_server f) ''/channel'' (channelBody f (channelIdOf idRand f) (b32encode k)) (channelHeaders f) \<and>
    (\<forall>ws ss sv' ws' ss' r. serverStep\<^sup>*\<^sup>* (servedState urlHost E wire (hits, sv) c, ws, ss) (sv', ws', ss') \<and>
        fst (Acquire (clientIP r) (s_conns sv')) \<longrightarrow> secretOpens E' (channelIdOf idRand f) secret after wok r sv')"
proof -
  let ?i = "channelIdOf idRand f"
  obtain secret k c where c: "out = channelText f ?i secret" "AuthKey P secret = Inr k"
    "channels (s_reg (servedState urlHost E wire (hits, sv) c)) ?i = Some k"
    "c = postRequest (cf_server f) ''/channel'' (channelBody f ?i (b32encode k)) (channelHeaders f)"
    using channel_key_stored [OF assms(1-7)] by blast
  have "secretOpens E' ?i secret after wok r sv'"
    if "serverStep\<^sup>*\<^sup>* (servedState urlHost E wire (hits, sv) c, ws, ss) (sv', ws', ss')" "fst (Acquire (clientIP r) (s_conns sv'))"
    for ws ss sv' ws' ss' r
    using secret_admitted [OF assms(8) c(2) [folded assms(9)] _ that(2) assms(12,10,6,11)]
      serverSteps_key [OF that(1), of ?i k] c(3) by simp
  then show ?thesis using c(1,2,4) by blast
qed

subsection \<open>\<open>account create\<close>\<close>

lemma sym_plain: "c \<in> set (b64urlencode s) \<Longrightarrow> 32 < code c \<and> code c < 128"
proof -
  assume "c \<in> set (b64urlencode s)"
  then obtain n where "n < 64" "c = b64urlsym n" using b64q_small [OF codes_small [of s]] by (auto simp: b64urlencode_def)
  then show ?thesis by (auto simp: b64urlsym_def b64sym_def) (simp_all add: code_def)
qed

lemma account_body: "mapText [] = [lbrace, rbrace]"
  by (simp add: mapText_def structText_def objectText_def)

lemma cleanPath_account: "cleanPath ''/account'' = ''/account''" by code_simp

lemma account_answer:
  "decodeAnswer jsonStream [''account'', ''api_key''] setAccount \<lparr>an_account = '''', an_apiKey = ''''\<rparr>
     (mapText [(''account'', OStr i), (''api_key'', OStr key)] @ r) = Inr \<lparr>an_account = toValid i, an_apiKey = toValid key\<rparr>"
proof -
  have s: "sort_key fst [(''account'', OStr i), (''api_key'', OStr key)] = [(''account'', OStr i), (''api_key'', OStr key)]"
    by (simp add: less_eq_char_def)
  have "fieldOf [''account'', ''api_key''] ''account'' = Some ''account''" "fieldOf [''account'', ''api_key''] ''api_key'' = Some ''api_key''"
    by (simp_all add: fieldOf_def)
  then show ?thesis
    using map_reads [of "[(''account'', OStr i), (''api_key'', OStr key)]" r] unfolding s
    by (simp add: decodeAnswer_def bindDoc_def setAccount_def bindString_def)
qed

text \<open>White space of any kind has no printable ASCII character in it.\<close>

lemma spaces_plain: "list_all (\<lambda>w. w \<noteq> [] \<and> list_all (\<lambda>c. code c \<le> 32 \<or> 128 \<le> code c) w) goSpaces"
  by code_simp

lemma trimBy_none: "\<forall>w\<in>set sp. \<not> prefix w s \<Longrightarrow> trimBy sp n s = s"
  by (cases n) (auto simp: find_Some_iff split: option.splits)

lemma trimSpace_plain:
  assumes "\<forall>c\<in>set s. 32 < code c \<and> code c < 128" shows "trimSpace s = s"
proof -
  have p: "\<not> prefix w t" if "w \<noteq> []" "\<forall>c\<in>set w. code c \<le> 32 \<or> 128 \<le> code c" "set t \<subseteq> set s" for w t
    using that assms by (cases w; cases t) fastforce+
  have "\<not> prefix w s" "\<not> prefix (rev w) (rev s)" if "w \<in> set goSpaces" for w
    using that spaces_plain p [of w s] p [of "rev w" "rev s"] by (auto simp: list_all_iff)
  then show ?thesis by (simp add: trimSpace_def Let_def trimBy_none)
qed

lemma key_plain: "c \<in> set (keyPrefix @ b64urlencode s) \<Longrightarrow> 32 < code c \<and> code c < 128"
proof -
  have "\<forall>c\<in>set keyPrefix. 32 < code c \<and> code c < 128" by code_simp
  then show "c \<in> set (keyPrefix @ b64urlencode s) \<Longrightarrow> ?thesis" using sym_plain by auto
qed

lemma trim_key: "trimSpace (keyPrefix @ b64urlencode s) = keyPrefix @ b64urlencode s"
  by (rule trimSpace_plain) (use key_plain in blast)

lemma created_account:
  assumes "redis_ok R" "link_up R" "kv (r_db R s) (acctKey i) = None" "kv (r_db R s) (acctUsageKey i) = None"
    and "run R (CreateAccount now i h) s = (x, s1)"
  shows "x = Inr () \<and> fst (run R (AccountKeyHash i) s1) = Inr h"
proof -
  let ?p = "andThen (CreateAccount now i h) (\<lambda>r. andThen (AccountKeyHash i) (\<lambda>k. Return (r, k)))"
  obtain y s2 where r: "run R (AccountKeyHash i) s1 = (y, s2)" by (cases "run R (AccountKeyHash i) s1")
  then have "run R ?p s = ((x, y), s2)" using assms(5) by (simp add: run_andThen)
  from create_account_exact [OF assms(1,2) refl _ assms(4) this, of "[]"] r show ?thesis
    using assms(3) by (simp add: asHash_def)
qed

text \<open>\<open>account create\<close> against the server: the account and the key it prints are the ones the
  server stored, and a request that carries them is taken for that account.\<close>

lemma account_create_end_to_end:
  assumes "redis_ok (v_redis E)" "link_up (v_redis E)" "s_store sv = Some s"
    and "v_rand1 E = Some a" "length a = idBytes" "v_rand2 E = Some b" "length b = keyBytes"
    and "kv (r_db (v_redis E) s) (acctKey (b64urlencode a)) = None"
    and "kv (r_db (v_redis E) s) (acctUsageKey (b64urlencode a)) = None"
    and "carries (trimRightSlash server) wire"
    and "runAccount jsonStream (serverNet urlHost E wire line (hits, sv)) args server brief = Inr out"
    and "i = b64urlencode a" "key = keyPrefix @ b64urlencode b"
  shows "out = accountText brief \<lparr>an_account = i, an_apiKey = key\<rparr> \<and>
    (\<forall>r. q_authorization r = ''Bearer '' @ key \<and> q_account r = i \<longrightarrow>
      fst (authedAccount E r (servedState urlHost E wire (hits, sv) (postRequest server ''/account'' [] []))) = i)"
proof -
  note i_def = assms(12) and key_def = assms(13)
  define c where "c = postRequest server ''/account'' [] []"
  let ?h = "handleCreateAccount E (wire c) sv" and ?st = "servedState urlHost E wire (hits, sv) c"
  have h: "serverNet urlHost E wire line (hits, sv) c = Answer (p_status (fst ?h)) (line (p_status (fst ?h)))
      (answerBytes (muxRoute ''POST'' ''/account'') (fst ?h))" "?st = snd ?h" "q_method (wire c) = ''POST''"
    using post_served [OF assms(10) c_def, of E sv urlHost line hits] by (simp_all add: Let_def)
  have ok: "p_status (fst ?h) = 200"
    using assms(11) h(1) unfolding runAccount_def postJSON_def postJSONAuth_def exchange_def c_def [symmetric]
    by (auto simp: wrapErr_def split: if_splits)
  obtain ok1 sv1 where al: "allowCreate E (''acct:'' @ clientIP (wire c)) sv = (ok1, sv1)"
    by (cases "allowCreate E (''acct:'' @ clientIP (wire c)) sv")
  have s1: "s_store sv1 = Some s" using al assms(3) by (auto simp: allowCreate_def split: prod.splits)
  obtain x s' where r: "run (v_redis E) (CreateAccount (v_unix E) i (HashKey (v_prims E) key)) s = (x, s')"
    by (cases "run (v_redis E) (CreateAccount (v_unix E) i (HashKey (v_prims E) key)) s")
  have x: "x = Inr ()" and k: "fst (run (v_redis E) (AccountKeyHash i) s') = Inr (HashKey (v_prims E) key)"
    using created_account [OF assms(1,2) assms(8,9) [folded i_def] r] by simp_all
  have "ok1" using ok assms(3) h(3) al by (auto simp: handleCreateAccount_def split: bool.splits)
  then have hh: "?h = (okJson [(''account'', OStr i), (''api_key'', OStr key)], sv1\<lparr>s_store := Some s'\<rparr>)"
    using assms(3,4,6) h(3) al s1 r x
    by (simp add: handleCreateAccount_def NewID_def NewKey_def callStore_def i_def key_def)
  have tv: "toValid i = i" "toValid key = key"
    unfolding i_def key_def by (rule toValid_b64url, rule ascii_valid) (use key_plain in blast)
  have "answerBytes (muxRoute ''POST'' ''/account'') (fst ?h) = mapText [(''account'', OStr i), (''api_key'', OStr key)] @ nl"
    by (simp add: hh answerBytes_def okJson_def muxRoute_def matchPath_def Let_def cleanPath_account)
  then have out: "out = accountText brief \<lparr>an_account = i, an_apiKey = key\<rparr>"
    using assms(11) h(1) ok account_answer [of i key nl] tv
    unfolding runAccount_def postJSON_def postJSONAuth_def exchange_def c_def [symmetric]
    by (auto simp: wrapErr_def split: if_splits)
  have nz: "i \<noteq> ''''" using assms(5) length_b64urlencode [of a] by (auto simp: i_def idBytes_def)
  have lk: "LooksLikeKey key" by (rule NewKey_shape(1) [OF _ assms(7)]) (simp add: NewKey_def key_def)
  have "fst (authedAccount E r ?st) = i" if "q_authorization r = ''Bearer '' @ key" "q_account r = i" for r
  proof -
    obtain z s2 where "run (v_redis E) (AccountKeyHash i) s' = (z, s2)" by (cases "run (v_redis E) (AccountKeyHash i) s'")
    then show ?thesis using that k nz lk trim_key [of b, folded key_def]
      by (simp add: authedAccount_def h(2) hh hasPrefix_def callStore_def Let_def)
  qed
  then show ?thesis using out c_def by blast
qed

subsection \<open>At concrete inputs\<close>

lemma length_escBytes: "length (escBytes s) \<le> 6 * length s"
proof (induction s rule: escBytes.induct)
  case (2 c s)
  have a: "length (escAscii c) \<le> 6" by (simp add: escAscii_def u00_def)
  show ?case
  proof (cases "code c < 128")
    case True
    then show ?thesis using 2(1) a by (simp add: escBytes.simps(2))
  next
    case f: False
    show ?thesis
    proof (cases "runeLen (c # s)")
      case None
      then show ?thesis using 2(2) f by (simp add: escBytes.simps(2))
    next
      case (Some k)
      have "length (escBytes (drop (k - 1) s)) \<le> 6 * (length s - (k - 1))" using 2(3) f Some by simp
      moreover from this have "length (escBytes (drop (k - 1) s)) \<le> 6 * length s" by (rule order_trans) simp
      moreover have "length (u202 (c # s)) \<le> 6" by (simp add: u202_def)
      moreover have "min (Suc (length s)) k + 6 * (length s - (k - 1)) \<le> 6 + 6 * length s" by (cases "k \<le> length s") auto
      ultimately show ?thesis using f Some by (simp add: escBytes.simps(2))
    qed
  qed
qed simp

lemma length_quoteJSON: "length (quoteJSON s) \<le> 6 * length s + 2"
  using length_escBytes [of s] by (simp add: quoteJSON_def)

lemma length_b32q: "length (b32q ns) \<le> 2 * length ns"
  by (induction ns rule: b32q.induct) simp_all

definition exCarry :: "cliReq \<Rightarrow> request" where
  "exCarry c = exRequest\<lparr>q_method := c_method c, q_path := drop (length ''http://h'') (c_url c), q_body := bodyBytes c\<rparr>"

lemma exCarry_carries: "carries (trimRightSlash ''http://h'') exCarry"
proof -
  have "trimRightSlash ''http://h'' = ''http://h''" by (simp add: trimRightSlash_def)
  then show ?thesis by (simp add: carries_def exCarry_def)
qed

lemma exBody_short:
  assumes "length k = keySize" shows "length (mapText (channelBody exFlags ''t'' (b32encode k))) \<le> maxBody"
proof -
  have "length (b32encode k) \<le> 64" using length_b32q [of "codes k"] assms by (simp add: length_b32encode keySize_def codes_def)
  then show ?thesis
    using length_quoteJSON [of "''auth_key''"] length_quoteJSON [of "''channel''"] length_quoteJSON [of "''retain''"]
      length_quoteJSON [of "''t''"] length_quoteJSON [of "b32encode k"]
    unfolding mapText_def channelBody_sorted
    by (simp add: exFlags_def structText_def objectText_def maxBody_def)
qed

lemma ephemeral_created:
  assumes "length k = keySize" "q_method r = ''POST''" "decodeCreate (v_json exWireEnv) (q_body r) =
    Some \<lparr>r_channel = ''t'', r_authKey = b32encode k, r_retain = False, r_ttlSec = 0, r_ticket = ''''\<rparr>"
  shows "p_status (fst (handleCreateChannel exWireEnv r (exServer\<lparr>s_store := None\<rparr>))) = 200 \<and>
    s_conns (snd (handleCreateChannel exWireEnv r (exServer\<lparr>s_store := None\<rparr>))) = s_conns exServer"
proof -
  let ?sv = "exServer\<lparr>s_store := None\<rparr>"
  have c: "s_createLim ?sv = NewPerHour (\<lambda>x. x) 120 15" "channels (s_reg ?sv) ''t'' = None"
    by (simp_all add: exServer_def NewWithConfig_def DefaultLimits_def Register_def NewRegistry_def)
  have "fst (Allow (\<lambda>x. x) 5 k' (NewPerHour (\<lambda>x. x) 120 15))" for k'
    by (simp add: NewPerHour_def NewRateLimiter_def Allow_bucketAt bucketAt_def
        freshBucket_def allow_def Let_def timeSub_def seconds_def)
  then obtain l where "Allow (\<lambda>x. x) 5 (''chan:'' @ clientIP r) (s_createLim ?sv) = (True, l)"
    unfolding c by (metis prod.collapse)
  then have a: "allowCreate exWireEnv (''chan:'' @ clientIP r) ?sv = (True, ?sv\<lparr>s_createLim := l\<rparr>)"
    by (simp add: allowCreate_def exWireEnv_def exEnvT_def)
  have k: "DecodeAuthKey (b32encode k) = Inr k" using assms(1) by simp
  then have "b32encode k \<noteq> ''''" using DecodeAuthKey_empty by auto
  then show ?thesis using c(2)
    unfolding handleCreateChannel_def a
    by (simp add: assms(2,3) k createEphemeral_def callStore_def registerKey_def Register_def Let_def)
qed

lemma exFlags_created:
  assumes "length k = keySize" "c = postRequest ''http://h'' ''/channel'' (channelBody exFlags ''t'' (b32encode k)) hdrs"
  shows "p_status (fst (handleCreateChannel exWireEnv (exCarry c) (exServer\<lparr>s_store := None\<rparr>))) = 200 \<and>
    s_conns (snd (handleCreateChannel exWireEnv (exCarry c) (exServer\<lparr>s_store := None\<rparr>))) = s_conns exServer"
proof (rule ephemeral_created [OF assms(1)])
  have t: "toValid ''t'' = ''t''" by (simp add: toValid_lit code_def)
  have f: "int64 (cf_ttlSec exFlags)" "cf_ticket exFlags = ''''" "cf_retain exFlags = False"
    by (simp_all add: exFlags_def int64_def)
  have q: "q_body (exCarry c) = mapText (channelBody exFlags ''t'' (b32encode k))"
    by (simp add: assms(2) exCarry_def postRequest_def bodyBytes_def)
  show "q_method (exCarry c) = ''POST''" by (simp add: assms(2) exCarry_def postRequest_def)
  have v: "v_json exWireEnv = jsonStream" by (simp add: exWireEnv_def)
  show "decodeCreate (v_json exWireEnv) (q_body (exCarry c)) = Some \<lparr>r_channel = ''t'', r_authKey = b32encode k,
      r_retain = False, r_ttlSec = 0, r_ticket = ''''\<rparr>"
    unfolding q v channel_request [OF f(1)] using exBody_short [OF assms(1)] by (simp add: t f)
qed

abbreviation exFresh :: "64 word \<times> db server" where
  "exFresh \<equiv> (0, exServer\<lparr>s_store := None\<rparr>)"

lemma exCommand:
  obtains secret k c where "runChannel xorPrims None (Some (replicate 32 (CHR ''s'')))
      (serverNet (\<lambda>_. None) exWireEnv exCarry (\<lambda>_. '''') exFresh) [''create''] exFlags = Inr (channelText exFlags ''t'' secret)"
    "GenerateSecret (Some (replicate 32 (CHR ''s''))) = Inr secret" "AuthKey xorPrims secret = Inr k"
    "c = postRequest ''http://h'' ''/channel'' (channelBody exFlags ''t'' (b32encode k)) []"
    "s_conns (servedState (\<lambda>_. None) exWireEnv exCarry exFresh c) = s_conns exServer"
proof -
  let ?raw = "replicate 32 (CHR ''s'')" and ?sv = "exServer\<lparr>s_store := None\<rparr>"
  let ?net = "serverNet (\<lambda>_. None) exWireEnv exCarry (\<lambda>_. '''') exFresh"
  define secret where "secret = b32encode ?raw"
  have g: "GenerateSecret (Some ?raw) = Inr secret" by (simp add: GenerateSecret_def secret_def)
  obtain k where k: "AuthKey xorPrims secret = Inr k" "RegistrationKey xorPrims secret = Inr (b32encode k)"
    using generated_secret [OF g] by auto
  define c where "c = postRequest ''http://h'' ''/channel'' (channelBody exFlags ''t'' (b32encode k)) []"
  obtain body where net: "?net c = Answer 200 '''' body"
    and co: "s_conns (servedState (\<lambda>_. None) exWireEnv exCarry exFresh c) = s_conns exServer"
    using post_served [OF exCarry_carries c_def, of exWireEnv ?sv "\<lambda>_. None" "\<lambda>_. ''''" 0]
      exFlags_created [OF AuthKey_length [OF k(1)] c_def] by (auto simp: Let_def)
  have i: "cf_server exFlags = ''http://h''" "channelHeaders exFlags = []" "cf_channel exFlags = ''t''" "cf_retain exFlags = False"
    by (simp_all add: exFlags_def channelHeaders_def)
  have "runChannel xorPrims None (Some ?raw) ?net [''create''] exFlags = Inr (channelText exFlags ''t'' secret)"
    using net by (simp add: runChannel_def g k wrapErr_def postJSONAuth_def exchange_def i flip: c_def)
  then show thesis using that g k(1) c_def co by blast
qed

lemma exFlags_ok: "channels (s_reg (snd exFresh)) ''t'' = None" "validUTF8 ''t''" "int64 (cf_ttlSec exFlags)"
  "carries (trimRightSlash (cf_server exFlags)) exCarry" "channelIdOf None exFlags = ''t''"
proof -
  show "carries (trimRightSlash (cf_server exFlags)) exCarry" using exCarry_carries by (simp add: exFlags_def)
qed (simp_all add: exServer_def NewWithConfig_def Register_def NewRegistry_def validUTF8_def toValid_lit code_def
  exFlags_def int64_def channelIdOf_def)

theorem channel_create_end_to_end_witness:
  "\<exists>secret k c. runChannel xorPrims None (Some (replicate 32 (CHR ''s'')))
      (serverNet (\<lambda>_. None) exWireEnv exCarry (\<lambda>_. '''') exFresh) [''create''] exFlags =
      Inr (''t'' @ tab @ secret @ nl) \<and>
    AuthKey xorPrims secret = Inr k \<and>
    channels (s_reg (servedState (\<lambda>_. None) exWireEnv exCarry exFresh c)) ''t'' = Some k"
proof -
  obtain secret where run: "runChannel xorPrims None (Some (replicate 32 (CHR ''s'')))
      (serverNet (\<lambda>_. None) exWireEnv exCarry (\<lambda>_. '''') exFresh) [''create''] exFlags = Inr (channelText exFlags ''t'' secret)"
    by (rule exCommand)
  from channel_create_end_to_end [OF exWireEnv_codec(1) exFlags_ok(4,3) run] exFlags_ok
  obtain s k' c' where "channelText exFlags ''t'' secret = channelText exFlags ''t'' s" "AuthKey xorPrims s = Inr k'"
    "channels (s_reg (servedState (\<lambda>_. None) exWireEnv exCarry exFresh c')) ''t'' = Some k'" by auto
  then show ?thesis using run by (intro exI [of _ s] exI [of _ k'] exI [of _ c']) (auto simp: channelText_def exFlags_def)
qed

theorem printed_secret_admits_witness:
  "\<exists>secret c. runChannel xorPrims None (Some (replicate 32 (CHR ''s'')))
      (serverNet (\<lambda>_. None) exWireEnv exCarry (\<lambda>_. '''') exFresh) [''create''] exFlags = Inr (''t'' @ tab @ secret @ nl) \<and>
    secretOpens exWireEnv ''t'' secret 7 3 exRequest (servedState (\<lambda>_. None) exWireEnv exCarry exFresh c)"
proof -
  obtain secret k c where run: "runChannel xorPrims None (Some (replicate 32 (CHR ''s'')))
      (serverNet (\<lambda>_. None) exWireEnv exCarry (\<lambda>_. '''') exFresh) [''create''] exFlags = Inr (channelText exFlags ''t'' secret)"
    and k: "AuthKey xorPrims secret = Inr k"
    and c: "c = postRequest ''http://h'' ''/channel'' (channelBody exFlags ''t'' (b32encode k)) []"
      "s_conns (servedState (\<lambda>_. None) exWireEnv exCarry exFresh c) = s_conns exServer" by (rule exCommand)
  let ?st = "servedState (\<lambda>_. None) exWireEnv exCarry exFresh c"
  have f: "cf_server exFlags = ''http://h''" "channelHeaders exFlags = []" "cf_quiet exFlags"
    by (simp_all add: exFlags_def channelHeaders_def)
  have e: "v_prims exWireEnv = xorPrims" "v_rand1 exWireEnv = Some (replicate 32 (CHR ''r''))"
    by (simp_all add: exWireEnv_def exEnvT_def)
  have a: "fst (Acquire (clientIP exRequest) (s_conns ?st))" unfolding c(2)
    by (simp add: Acquire_def exServer_def NewWithConfig_def NewConnCounter_def countOf_def DefaultLimits_def)
  note t = exFlags_ok(5)
  have "\<exists>s k' c'. channelText exFlags ''t'' secret = channelText exFlags ''t'' s \<and> AuthKey xorPrims s = Inr k' \<and>
    c' = postRequest (cf_server exFlags) ''/channel'' (channelBody exFlags ''t'' (b32encode k')) (channelHeaders exFlags) \<and>
    (\<forall>ws ss sv' ws' ss' r. serverStep\<^sup>*\<^sup>* (servedState (\<lambda>_. None) exWireEnv exCarry exFresh c', ws, ss) (sv', ws', ss') \<and>
        fst (Acquire (clientIP r) (s_conns sv')) \<longrightarrow> secretOpens exWireEnv ''t'' s 7 3 r sv')"
    by (rule printed_secret_admits [OF exWireEnv_codec(1) exFlags_ok(4,3) run, unfolded t])
      (use exFlags_ok e exWireEnv_codec(1) in \<open>simp_all add: int64_def\<close>)
  then obtain s k' c' where s: "channelText exFlags ''t'' secret = channelText exFlags ''t'' s" "AuthKey xorPrims s = Inr k'"
    "c' = postRequest ''http://h'' ''/channel'' (channelBody exFlags ''t'' (b32encode k')) []"
    and adm: "serverStep\<^sup>*\<^sup>* (servedState (\<lambda>_. None) exWireEnv exCarry exFresh c', [], []) (?st, [], []) \<Longrightarrow>
        secretOpens exWireEnv ''t'' s 7 3 exRequest ?st"
    using a f(1,2) by (metis (no_types))
  have "s = secret" using s(1) by (simp add: channelText_def f)
  then have "c' = c" using s(2,3) k c(1) by simp
  with adm \<open>s = secret\<close> run show ?thesis by (auto simp: channelText_def f)
qed

definition exAcctEnv :: "db env" where
  "exAcctEnv = exWireEnv\<lparr>v_rand1 := Some (replicate 12 (CHR ''a'')), v_rand2 := Some (replicate 32 (CHR ''b''))\<rparr>"

lemma exAcct_fresh: "kv (r_db (v_redis exAcctEnv) emptyDb) k = None" "redis_ok (v_redis exAcctEnv)" "link_up (v_redis exAcctEnv)"
  using exRedis_ok by (simp_all add: exAcctEnv_def exWireEnv_def exEnvT_def) (simp add: exRedis_def emptyDb_def)

lemma exAcct_created:
  assumes "q_method r = ''POST''"
  shows "\<exists>i key. fst (handleCreateAccount exAcctEnv r exServer) = okJson [(''account'', OStr i), (''api_key'', OStr key)]"
proof -
  have "fst (Allow (\<lambda>x. x) 5 k' (NewPerHour (\<lambda>x. x) 120 15))" for k'
    by (simp add: NewPerHour_def NewRateLimiter_def Allow_bucketAt bucketAt_def
        freshBucket_def allow_def Let_def timeSub_def seconds_def)
  moreover have "s_createLim exServer = NewPerHour (\<lambda>x. x) 120 15"
    by (simp add: exServer_def NewWithConfig_def DefaultLimits_def)
  ultimately obtain l where "Allow (\<lambda>x. x) 5 (''acct:'' @ clientIP r) (s_createLim exServer) = (True, l)"
    by (metis prod.collapse)
  then have a: "allowCreate exAcctEnv (''acct:'' @ clientIP r) exServer = (True, exServer\<lparr>s_createLim := l\<rparr>)"
    by (simp add: allowCreate_def exAcctEnv_def exWireEnv_def exEnvT_def)
  define i where "i = b64urlencode (replicate 12 (CHR ''a''))"
  define key where "key = keyPrefix @ b64urlencode (replicate 32 (CHR ''b''))"
  have n: "NewID (v_rand1 exAcctEnv) = Some i" "NewKey (v_rand2 exAcctEnv) = Some key"
    by (simp_all add: NewID_def NewKey_def exAcctEnv_def i_def key_def)
  obtain x s' where r: "run (v_redis exAcctEnv) (CreateAccount (v_unix exAcctEnv) i (HashKey (v_prims exAcctEnv) key)) emptyDb = (x, s')"
    by (metis prod.collapse)
  then have "x = Inr ()" using created_account [OF exAcct_fresh(2,3,1,1)] by blast
  then show ?thesis
    using r assms unfolding handleCreateAccount_def a by (auto simp: exServer_fields n callStore_def)
qed

lemma exAcct_run:
  "\<exists>i key. runAccount jsonStream (serverNet (\<lambda>_. None) exAcctEnv exCarry (\<lambda>_. '''') (0, exServer)) [''create''] ''http://h'' brief =
      Inr (accountText brief \<lparr>an_account = i, an_apiKey = key\<rparr>)"
proof -
  let ?net = "serverNet (\<lambda>_. None) exAcctEnv exCarry (\<lambda>_. '''') (0, exServer)"
  define c where "c = postRequest ''http://h'' ''/account'' [] []"
  have "q_method (exCarry c) = ''POST''" by (simp add: c_def exCarry_def postRequest_def)
  then obtain i key where h: "fst (handleCreateAccount exAcctEnv (exCarry c) exServer) = okJson [(''account'', OStr i), (''api_key'', OStr key)]"
    using exAcct_created by blast
  have net: "?net c = Answer 200 '''' (mapText [(''account'', OStr i), (''api_key'', OStr key)] @ nl)"
    using post_served [OF exCarry_carries c_def, of exAcctEnv exServer "\<lambda>_. None" "\<lambda>_. ''''" 0] h
    by (simp add: Let_def answerBytes_def okJson_def muxRoute_def matchPath_def cleanPath_account)
  have "runAccount jsonStream ?net [''create''] ''http://h'' brief = Inr (accountText brief \<lparr>an_account = toValid i, an_apiKey = toValid key\<rparr>)"
    by (simp add: runAccount_def postJSON_def postJSONAuth_def exchange_def net wrapErr_def account_answer flip: c_def)
  then show ?thesis by blast
qed

lemma exAcct_rand: "v_rand1 exAcctEnv = Some (replicate 12 (CHR ''a''))" "length (replicate 12 (CHR ''a'')) = idBytes"
  "v_rand2 exAcctEnv = Some (replicate 32 (CHR ''b''))" "length (replicate 32 (CHR ''b'')) = keyBytes"
  by (simp_all add: exAcctEnv_def idBytes_def keyBytes_def)

end
