(* ===== verification/Go_Flags.thy ===== *)
theory Go_Flags
  imports Client_Commands Server_Boot
begin

text \<open>
  The command line: \<open>flag.FlagSet.Parse\<close> of Go's standard library as the commands use it
  (\<open>ContinueOnError\<close>), with \<open>strconv\<close>'s numbers and \<open>time.ParseDuration\<close>.
\<close>

subsection \<open>Values\<close>

datatype num_error = BadSyntax | OutOfRange

definition flagError :: "num_error \<Rightarrow> string" where
  "flagError e = (case e of BadSyntax \<Rightarrow> ''parse error'' | OutOfRange \<Rightarrow> ''value out of range'')"

definition goBool :: "string \<Rightarrow> num_error + bool" where
  "goBool s = (if s \<in> {''1'', ''t'', ''T'', ''true'', ''TRUE'', ''True''} then Inr True
     else if s \<in> {''0'', ''f'', ''F'', ''false'', ''FALSE'', ''False''} then Inr False else Inl BadSyntax)"

definition digitOf :: "char \<Rightarrow> nat option" where
  "digitOf c = (if isDigit c then Some (code c - 48)
     else if 97 \<le> code (lower c) \<and> code (lower c) \<le> 122 then Some (code (lower c) - 87) else None)"

text \<open>\<open>ParseUint\<close> with base 0: a prefix names the base, underscores may separate digits.\<close>

fun uintDigits :: "nat \<Rightarrow> nat \<Rightarrow> string \<Rightarrow> num_error + nat" where
  "uintDigits base n [] = Inr n"
| "uintDigits base n (c # s) =
     (if c = CHR ''_'' then uintDigits base n s
      else (case digitOf c of
          None \<Rightarrow> Inl BadSyntax
        | Some d \<Rightarrow>
            if d \<ge> base then Inl BadSyntax
            else if n * base + d \<ge> 2 ^ 64 then Inl OutOfRange
            else uintDigits base (n * base + d) s))"

definition basePrefix :: "string \<Rightarrow> (nat \<times> nat) option" where
  "basePrefix s = (if take 1 s \<noteq> ''0'' then None
     else if length s \<ge> 3 \<and> lower (s ! 1) = CHR ''b'' then Some (2, 2)
     else if length s \<ge> 3 \<and> lower (s ! 1) = CHR ''o'' then Some (8, 2)
     else if length s \<ge> 3 \<and> lower (s ! 1) = CHR ''x'' then Some (16, 2)
     else Some (8, 1))"

text \<open>\<open>underscoreOK\<close>: what was read last is nothing (\<open>^\<close>), a digit (\<open>0\<close>), an underscore or
  something else (\<open>!\<close>).\<close>

fun underscores :: "bool \<Rightarrow> char \<Rightarrow> string \<Rightarrow> bool" where
  "underscores hex i [] = (i \<noteq> CHR ''_'')"
| "underscores hex i (c # s) =
     (if isDigit c \<or> hex \<and> 97 \<le> code (lower c) \<and> code (lower c) \<le> 102 then underscores hex (CHR ''0'') s
      else if c = CHR ''_'' then (i = CHR ''0'' \<and> underscores hex (CHR ''_'') s)
      else i \<noteq> CHR ''_'' \<and> underscores hex (CHR ''!'') s)"

definition underscoreOK :: "string \<Rightarrow> bool" where
  "underscoreOK s = (if length s \<ge> 2 \<and> s ! 0 = CHR ''0'' \<and> lower (s ! 1) \<in> {CHR ''b'', CHR ''o'', CHR ''x''}
     then underscores (lower (s ! 1) = CHR ''x'') (CHR ''0'') (drop 2 s)
     else underscores False (CHR ''^'') s)"

definition goUint :: "string \<Rightarrow> num_error + nat" where
  "goUint s = (if s = '''' then Inl BadSyntax
     else (let (base, k) = (case basePrefix s of None \<Rightarrow> (10, 0) | Some p \<Rightarrow> p) in
       case uintDigits base 0 (drop k s) of
         Inl e \<Rightarrow> Inl e
       | Inr n \<Rightarrow> if CHR ''_'' \<in> set s \<and> \<not> underscoreOK s then Inl BadSyntax else Inr n))"

definition goInt :: "string \<Rightarrow> num_error + int" where
  "goInt s =
     (let neg = (take 1 s = ''-'');
          t = (if neg \<or> take 1 s = ''+'' then drop 1 s else s)
      in case goUint t of
           Inl e \<Rightarrow> Inl e
         | Inr n \<Rightarrow> if neg then (if int n > 2 ^ 63 then Inl OutOfRange else Inr (- int n))
                    else if int n \<ge> 2 ^ 63 then Inl OutOfRange else Inr (int n))"

text \<open>A duration is a signed sequence of decimal numbers with units; a fraction is converted
  through \<open>float64\<close>.\<close>

definition unitOf :: "string \<Rightarrow> nat option" where
  "unitOf u = map_of [(''ns'', 1), (''us'', 1000), (ascii [194, 181, 115], 1000), (ascii [206, 188, 115], 1000),
     (''ms'', 1000000), (''s'', 1000000000), (''m'', 60000000000), (''h'', 3600000000000)] u"

text \<open>Digits of a fraction that would overflow are skipped.\<close>

fun fractionOf :: "bool \<Rightarrow> nat \<Rightarrow> nat \<Rightarrow> string \<Rightarrow> nat \<times> nat" where
  "fractionOf over f scale [] = (f, scale)"
| "fractionOf over f scale (c # s) =
     (if over then fractionOf True f scale s
      else if f > (2 ^ 63 - 1) div 10 then fractionOf True f scale s
      else (let y = f * 10 + (code c - 48) in
        if y > 2 ^ 63 then fractionOf True f scale s else fractionOf False y (scale * 10) s))"

function durationSum :: "rounding \<Rightarrow> nat \<Rightarrow> string \<Rightarrow> nat option" where
  "durationSum fl d s =
     (if s = '''' then Some d
      else (let w = takeWhile isDigit s; s1 = dropWhile isDigit s;
                dot = (take 1 s1 = ''.'');
                fr = (if dot then takeWhile isDigit (drop 1 s1) else []);
                s2 = (if dot then dropWhile isDigit (drop 1 s1) else s1);
                u = takeWhile (\<lambda>c. c \<noteq> CHR ''.'' \<and> \<not> isDigit c) s2;
                s3 = dropWhile (\<lambda>c. c \<noteq> CHR ''.'' \<and> \<not> isDigit c) s2;
                v = digitsVal w
            in if w = '''' \<and> fr = '''' \<or> v > 2 ^ 63 \<or> u = '''' then None
               else (case unitOf u of
                   None \<Rightarrow> None
                 | Some unit \<Rightarrow>
                     (let (f, scale) = fractionOf False 0 1 fr;
                          part = v * unit + (if f > 0 then nat \<lfloor>fl (fl (of_nat f) * fl (fl (of_nat unit) / fl (of_nat scale)))\<rfloor> else 0)
                      in if v > 2 ^ 63 div unit \<or> part > 2 ^ 63 \<or> d + part > 2 ^ 63 then None
                         else durationSum fl (d + part) s3))))"
  by pat_completeness auto
termination
proof (relation "measure (\<lambda>(fl, d, s). length s)", simp, goal_cases)
  case (1 fl d s w s1 dot fr s2 u s3 v unit p f scale part)
  have "length s1 \<le> length s" using 1(3) by (simp add: length_dropWhile_le)
  moreover have "length s2 \<le> length s1" using 1(6) length_dropWhile_le [of isDigit "drop 1 s1"] by (cases dot) auto
  moreover have "u @ s3 = s2" using 1(7,8) by simp
  moreover have "u \<noteq> ''''" using 1(10) by simp
  ultimately show ?case by (cases u) auto
qed

definition goDuration :: "rounding \<Rightarrow> string \<Rightarrow> num_error + int" where
  "goDuration fl s =
     (let neg = (take 1 s = ''-'');
          t = (if neg \<or> take 1 s = ''+'' then drop 1 s else s)
      in if t = ''0'' then Inr 0
         else if t = '''' then Inl BadSyntax
         else (case durationSum fl 0 t of
             None \<Rightarrow> Inl BadSyntax
           | Some d \<Rightarrow> if neg then Inr (- int d)
                      else if int d > 2 ^ 63 - 1 then Inl BadSyntax else Inr (int d)))"

subsection \<open>Flag sets\<close>

text \<open>A flag of a set is how its value updates the record the command reads.\<close>

datatype 'r flagKind =
    StringFlag "string \<Rightarrow> 'r \<Rightarrow> 'r"
  | Int64Flag "int \<Rightarrow> 'r \<Rightarrow> 'r"
  | BoolFlag "bool \<Rightarrow> 'r \<Rightarrow> 'r"
  | DurationFlag "int \<Rightarrow> 'r \<Rightarrow> 'r"

definition setFlag :: "rounding \<Rightarrow> 'r flagKind \<Rightarrow> string \<Rightarrow> 'r \<Rightarrow> num_error + 'r" where
  "setFlag fl k v r = (case k of
       StringFlag u \<Rightarrow> Inr (u v r)
     | Int64Flag u \<Rightarrow> (case goInt v of Inl e \<Rightarrow> Inl e | Inr n \<Rightarrow> Inr (u n r))
     | BoolFlag u \<Rightarrow> (case goBool v of Inl e \<Rightarrow> Inl e | Inr b \<Rightarrow> Inr (u b r))
     | DurationFlag u \<Rightarrow> (case goDuration fl v of Inl e \<Rightarrow> Inl e | Inr n \<Rightarrow> Inr (u n r)))"

text \<open>\<open>-name\<close>, \<open>--name\<close> or either with \<open>=value\<close>; the first \<open>=\<close> after the first character of the
  name ends it.\<close>

definition splitEq :: "string \<Rightarrow> string \<times> string option" where
  "splitEq s = (let rest = dropWhile (\<lambda>c. c \<noteq> CHR ''='') (drop 1 s)
     in if rest = [] then (s, None)
        else (take (length s - length rest) s, Some (drop 1 rest)))"

datatype flagArg = Stop | Skip | BadFlag string | Named string "string option"

definition flagOf :: "string \<Rightarrow> flagArg" where
  "flagOf s =
     (if length s < 2 \<or> hd s \<noteq> CHR ''-'' then Stop
      else if s = ''--'' then Skip
      else (let name = (if s ! 1 = CHR ''-'' then drop 2 s else drop 1 s) in
        if name = '''' \<or> hd name = CHR ''-'' \<or> hd name = CHR ''='' then BadFlag (''bad flag syntax: '' @ s)
        else (case splitEq name of (n, v) \<Rightarrow> Named n v)))"

fun parseFlags :: "rounding \<Rightarrow> (string \<Rightarrow> 'r flagKind option) \<Rightarrow> string list \<Rightarrow> 'r \<Rightarrow> string + 'r \<times> string list" where
  "parseFlags fl F [] r = Inr (r, [])"
| "parseFlags fl F (a # args) r =
     (case flagOf a of
        Stop \<Rightarrow> Inr (r, a # args)
      | Skip \<Rightarrow> Inr (r, args)
      | BadFlag e \<Rightarrow> Inl e
      | Named n v \<Rightarrow>
          (case F n of
             None \<Rightarrow> Inl (if n = ''help'' \<or> n = ''h'' then ''flag: help requested''
                        else ''flag provided but not defined: -'' @ n)
           | Some (BoolFlag u) \<Rightarrow>
               (case v of
                  None \<Rightarrow> parseFlags fl F args (u True r)
                | Some w \<Rightarrow> (case goBool w of
                      Inl e \<Rightarrow> Inl (''invalid boolean value '' @ quoted w @ '' for -'' @ n @ '': '' @ flagError e)
                    | Inr b \<Rightarrow> parseFlags fl F args (u b r)))
           | Some k \<Rightarrow>
               (case v of
                  Some w \<Rightarrow> (case setFlag fl k w r of
                      Inl e \<Rightarrow> Inl (''invalid value '' @ quoted w @ '' for flag -'' @ n @ '': '' @ flagError e)
                    | Inr r' \<Rightarrow> parseFlags fl F args r')
                | None \<Rightarrow> (case args of
                      [] \<Rightarrow> Inl (''flag needs an argument: -'' @ n)
                    | w # args' \<Rightarrow> (case setFlag fl k w r of
                        Inl e \<Rightarrow> Inl (''invalid value '' @ quoted w @ '' for flag -'' @ n @ '': '' @ flagError e)
                      | Inr r' \<Rightarrow> parseFlags fl F args' r')))))"

subsection \<open>The commands' flags\<close>

text \<open>\<open>account create\<close>: the server and \<open>quiet\<close>.\<close>

definition accountFlagSet :: "string \<Rightarrow> (string \<times> bool) flagKind option" where
  "accountFlagSet n =
     (if n = ''server'' then Some (StringFlag (\<lambda>s. apfst (\<lambda>_. s)))
      else if n = ''quiet'' then Some (BoolFlag (\<lambda>b. apsnd (\<lambda>_. b))) else None)"

definition localServer :: string where "localServer = ''http://127.0.0.1:8080''"

definition accountCommand :: "rounding \<Rightarrow> json_reader \<Rightarrow> net \<Rightarrow> string list \<Rightarrow> string + string" where
  "accountCommand fl jr net args =
     (if args = [] \<or> hd args \<noteq> ''create'' then Inl ''usage: doublethink account create [flags]''
      else (case parseFlags fl accountFlagSet (tl args) (localServer, False) of
          Inl e \<Rightarrow> Inl e
        | Inr ((server, brief), _) \<Rightarrow> runAccount jr net args server brief))"

definition channelFlagSet :: "string \<Rightarrow> channelFlags flagKind option" where
  "channelFlagSet n =
     (if n = ''server'' then Some (StringFlag (\<lambda>s. cf_server_update (\<lambda>_. s)))
      else if n = ''prefix'' then Some (StringFlag (\<lambda>s. cf_prefix_update (\<lambda>_. s)))
      else if n = ''channel'' then Some (StringFlag (\<lambda>s. cf_channel_update (\<lambda>_. s)))
      else if n = ''retain'' then Some (BoolFlag (\<lambda>b. cf_retain_update (\<lambda>_. b)))
      else if n = ''account'' then Some (StringFlag (\<lambda>s. cf_account_update (\<lambda>_. s)))
      else if n = ''api-key'' then Some (StringFlag (\<lambda>s. cf_apiKey_update (\<lambda>_. s)))
      else if n = ''ttl-sec'' then Some (Int64Flag (\<lambda>v. cf_ttlSec_update (\<lambda>_. v)))
      else if n = ''ticket'' then Some (StringFlag (\<lambda>s. cf_ticket_update (\<lambda>_. s)))
      else if n = ''quiet'' then Some (BoolFlag (\<lambda>b. cf_quiet_update (\<lambda>_. b)))
      else None)"

definition channelDefaults :: channelFlags where
  "channelDefaults = \<lparr>cf_server = localServer, cf_prefix = '''', cf_channel = '''', cf_retain = False,
     cf_account = '''', cf_apiKey = '''', cf_ttlSec = 0, cf_ticket = '''', cf_quiet = False\<rparr>"

definition channelCommand :: "rounding \<Rightarrow> prims \<Rightarrow> bytes option \<Rightarrow> bytes option \<Rightarrow> net \<Rightarrow> string list \<Rightarrow> string + string" where
  "channelCommand fl P idRand secretRand net args =
     (if args = [] \<or> hd args \<noteq> ''create'' then Inl ''usage: doublethink channel create [flags]''
      else (case parseFlags fl channelFlagSet (tl args) channelDefaults of
          Inl e \<Rightarrow> Inl e
        | Inr (f, _) \<Rightarrow> runChannel P idRand secretRand net args f))"

text \<open>The administrator's subcommands define different subsets of the flags, with their own
  defaults.\<close>

definition adminFlagSet :: "string list \<Rightarrow> string \<Rightarrow> adminFlags flagKind option" where
  "adminFlagSet names n =
     (if n \<notin> set names then None
      else if n = ''server'' then Some (StringFlag (\<lambda>s. af_server_update (\<lambda>_. s)))
      else if n = ''admin-key'' then Some (StringFlag (\<lambda>s. af_adminKey_update (\<lambda>_. s)))
      else if n = ''channel'' then Some (StringFlag (\<lambda>s. af_channel_update (\<lambda>_. s)))
      else if n = ''ttl-sec'' then Some (Int64Flag (\<lambda>v. af_ttlSec_update (\<lambda>_. v)))
      else if n = ''max-bytes'' then Some (Int64Flag (\<lambda>v. af_maxBytes_update (\<lambda>_. v)))
      else if n = ''max-msgs'' then Some (Int64Flag (\<lambda>v. af_maxMsgs_update (\<lambda>_. v)))
      else if n = ''expiry-sec'' then Some (Int64Flag (\<lambda>v. af_expirySec_update (\<lambda>_. v)))
      else None)"

definition limitNames :: "string list" where
  "limitNames = [''server'', ''admin-key'', ''channel'', ''ttl-sec'', ''max-bytes'', ''max-msgs'']"

definition grantNames :: "string list" where
  "grantNames = limitNames @ [''expiry-sec'']"

definition listNames :: "string list" where
  "listNames = [''server'', ''admin-key'']"

definition adminDefaults :: "(string \<Rightarrow> string) \<Rightarrow> int \<Rightarrow> adminFlags" where
  "adminDefaults getenv n = \<lparr>af_server = localServer, af_adminKey = adminKeyFlag getenv, af_channel = '''',
     af_ttlSec = n, af_maxBytes = n, af_maxMsgs = n, af_expirySec = 0\<rparr>"

definition adminCommand :: "rounding \<Rightarrow> (string \<Rightarrow> string) \<Rightarrow> json_reader \<Rightarrow> (bytes \<Rightarrow> string + string) \<Rightarrow> net \<Rightarrow>
    string list \<Rightarrow> string + string" where
  "adminCommand fl getenv jr indent net args =
     (let parse = (\<lambda>names d go. case parseFlags fl (adminFlagSet names) (tl args) (adminDefaults getenv d) of
          Inl e \<Rightarrow> Inl e | Inr (f, _) \<Rightarrow> go f)
      in case args of
        [] \<Rightarrow> Inl ''usage: doublethink admin <set-limit|grant|channels> [flags]''
      | a # rest \<Rightarrow>
          if a = ''set-limit'' then parse limitNames (-1) (runAdminSetLimit net)
          else if a = ''grant'' then parse grantNames 0 (runAdminGrant jr net)
          else if a = ''channels'' then parse listNames 0 (runAdminChannels indent net)
          else Inl (''unknown admin subcommand '' @ quoted a @ '' (set-limit|grant|channels)''))"

definition serveFlagSet :: "string \<Rightarrow> serveFlags flagKind option" where
  "serveFlagSet n =
     (if n = ''addr'' then Some (StringFlag (\<lambda>s. f_addr_update (\<lambda>_. s)))
      else if n = ''allowed-origins'' then Some (StringFlag (\<lambda>s. f_allowedOrigins_update (\<lambda>_. s)))
      else if n = ''redis-addr'' then Some (StringFlag (\<lambda>s. f_redisAddr_update (\<lambda>_. s)))
      else if n = ''sweep-interval'' then Some (DurationFlag (\<lambda>v. f_sweep_update (\<lambda>_. v)))
      else None)"

definition serveFlagsOf :: "rounding \<Rightarrow> (string \<Rightarrow> string) \<Rightarrow> string list \<Rightarrow> string + serveFlags" where
  "serveFlagsOf fl getenv args =
     (case parseFlags fl serveFlagSet args (defaultFlags getenv) of Inl e \<Rightarrow> Inl e | Inr (f, _) \<Rightarrow> Inr f)"

end
