(* ===== verification/Command_Line.thy ===== *)
theory Command_Line
  imports Go_Flags Client_Server
begin

text \<open>
  The program from its arguments: every setting can be written as flags and is read back, and
  the command that \<open>account create\<close> prints does what it says.
\<close>

subsection \<open>Numbers read back\<close>

lemma foldl_digits_mono: "n \<le> foldl (\<lambda>acc c. 10 * acc + (code c - 48)) n s"
proof (induction s arbitrary: n)
  case (Cons c s)
  have "n \<le> 10 * n + (code c - 48)" by simp
  also have "\<dots> \<le> foldl (\<lambda>acc c. 10 * acc + (code c - 48)) (10 * n + (code c - 48)) s" by (rule Cons.IH)
  finally show ?case by simp
qed simp

lemma uintDigits_dec:
  assumes "list_all isDigit s" "foldl (\<lambda>acc c. 10 * acc + (code c - 48)) n s < 2 ^ 64"
  shows "uintDigits 10 n s = Inr (foldl (\<lambda>acc c. 10 * acc + (code c - 48)) n s)"
  using assms
proof (induction s arbitrary: n)
  case (Cons c s)
  have c: "c \<noteq> CHR ''_''" "digitOf c = Some (code c - 48)" "code c - 48 < 10"
    using Cons.prems(1) by (auto simp: digitOf_def isDigit_def code_def)
  have "10 * n + (code c - 48) < 2 ^ 64"
    using Cons.prems(2) foldl_digits_mono [of "10 * n + (code c - 48)" s] by simp
  then show ?case using Cons c by (simp add: mult.commute)
qed simp

lemma goUint_natDigits:
  assumes "n < 2 ^ 64" shows "goUint (natDigits n) = Inr n"
proof -
  have d: "list_all isDigit (natDigits n)" "natDigits n \<noteq> []" using natDigits_digits [of n] by auto
  then have u: "CHR ''_'' \<notin> set (natDigits n)" by (auto simp: list_all_iff isDigit_def code_def)
  show ?thesis
  proof (cases "n = 0")
    case True
    then show ?thesis by (simp add: goUint_def natDigits.simps [of 0] basePrefix_def char_of_def bit_simps)
  next
    case False
    then have "basePrefix (natDigits n) = None"
      using natDigits_hd [OF False] d(2) by (cases "natDigits n") (auto simp: basePrefix_def)
    then show ?thesis
      using d u uintDigits_dec [of "natDigits n" 0] assms digitsVal_natDigits [of n]
      by (simp add: goUint_def digitsVal_def)
  qed
qed

lemma goInt_itoa: "int64 n \<Longrightarrow> goInt (itoa n) = Inr n"
proof (cases "n < 0")
  case True
  assume "int64 n"
  then have "nat (- n) < 2 ^ 64" using True by (auto simp: int64_def)
  then show ?thesis using True \<open>int64 n\<close> goUint_natDigits by (simp add: goInt_def itoa_def Let_def int64_def)
next
  case False
  assume i: "int64 n"
  then have "nat n < 2 ^ 64" using False by (auto simp: int64_def)
  moreover obtain c s where "natDigits (nat n) = c # s" "isDigit c"
    using natDigits_digits [of "nat n"] by (cases "natDigits (nat n)") auto
  moreover from this have "c \<noteq> CHR ''-''" "c \<noteq> CHR ''+''" using isDigit_not_sign by auto
  ultimately show ?thesis using False i goUint_natDigits [of "nat n"] by (simp add: goInt_def itoa_def Let_def int64_def)
qed

subsection \<open>Flags read back\<close>

lemma flagOf_eq:
  assumes "name \<noteq> ''''" "CHR ''='' \<notin> set name" "hd name \<noteq> CHR ''-''"
  shows "flagOf (''--'' @ name @ ''='' @ v) = Named name (Some v)" "flagOf (''--'' @ name) = Named name None"
proof -
  obtain c s where n: "name = c # s" using assms(1) by (cases name) auto
  have "dropWhile (\<lambda>c. c \<noteq> CHR ''='') (s @ CHR ''='' # v) = CHR ''='' # v"
    using assms(2) n by (subst dropWhile_append2) auto
  then show "flagOf (''--'' @ name @ ''='' @ v) = Named name (Some v)"
    using assms n by (auto simp: flagOf_def splitEq_def Let_def)
  have "dropWhile (\<lambda>c. c \<noteq> CHR ''='') s = []" using assms(2) n by auto
  then show "flagOf (''--'' @ name) = Named name None"
    using assms n by (auto simp: flagOf_def splitEq_def Let_def)
qed

definition boolText :: "bool \<Rightarrow> string" where
  "boolText b = (if b then ''true'' else ''false'')"

definition channelArgs :: "channelFlags \<Rightarrow> string list" where
  "channelArgs f = List.map (\<lambda>(n, v). ''--'' @ n @ ''='' @ v)
     [(''server'', cf_server f), (''prefix'', cf_prefix f), (''channel'', cf_channel f), (''retain'', boolText (cf_retain f)),
      (''account'', cf_account f), (''api-key'', cf_apiKey f), (''ttl-sec'', itoa (cf_ttlSec f)),
      (''ticket'', cf_ticket f), (''quiet'', boolText (cf_quiet f))]"

lemma parse_named:
  assumes "name \<noteq> ''''" "CHR ''='' \<notin> set name" "hd name \<noteq> CHR ''-''"
  shows "F name = Some (StringFlag u) \<Longrightarrow> parseFlags fl F ((''--'' @ name @ ''='' @ v) # args) r = parseFlags fl F args (u v r)"
    "F name = Some (BoolFlag w) \<Longrightarrow> parseFlags fl F ((''--'' @ name @ ''='' @ boolText b) # args) r = parseFlags fl F args (w b r)"
    "F name = Some (Int64Flag x) \<Longrightarrow> int64 n \<Longrightarrow>
       parseFlags fl F ((''--'' @ name @ ''='' @ itoa n) # args) r = parseFlags fl F args (x n r)"
  using flagOf_eq [OF assms] by (simp_all add: setFlag_def goInt_itoa goBool_def boolText_def)

text \<open>
  C29. Every setting of \<open>channel create\<close> can be given on the command line, whatever the other
  settings and whatever the strings contain, and is read back as it is.
\<close>
theorem channel_flags_roundtrip:
  assumes "int64 (cf_ttlSec f)"
  shows "parseFlags fl channelFlagSet (channelArgs f) g = Inr (f, [])"
proof -
  let ?p = "parseFlags fl channelFlagSet"
  have s:
    "?p ((''--'' @ ''server'' @ ''='' @ v) # args) r = ?p args (r\<lparr>cf_server := v\<rparr>)"
    "?p ((''--'' @ ''prefix'' @ ''='' @ v) # args) r = ?p args (r\<lparr>cf_prefix := v\<rparr>)"
    "?p ((''--'' @ ''channel'' @ ''='' @ v) # args) r = ?p args (r\<lparr>cf_channel := v\<rparr>)"
    "?p ((''--'' @ ''account'' @ ''='' @ v) # args) r = ?p args (r\<lparr>cf_account := v\<rparr>)"
    "?p ((''--'' @ ''api-key'' @ ''='' @ v) # args) r = ?p args (r\<lparr>cf_apiKey := v\<rparr>)"
    "?p ((''--'' @ ''ticket'' @ ''='' @ v) # args) r = ?p args (r\<lparr>cf_ticket := v\<rparr>)" for v args r
    by (rule parse_named(1); simp add: channelFlagSet_def)+
  have b:
    "?p ((''--'' @ ''retain'' @ ''='' @ boolText v) # args) r = ?p args (r\<lparr>cf_retain := v\<rparr>)"
    "?p ((''--'' @ ''quiet'' @ ''='' @ boolText v) # args) r = ?p args (r\<lparr>cf_quiet := v\<rparr>)" for v args r
    by (rule parse_named(2); simp add: channelFlagSet_def)+
  have t: "?p ((''--'' @ ''ttl-sec'' @ ''='' @ itoa n) # args) r = ?p args (r\<lparr>cf_ttlSec := n\<rparr>)" if "int64 n" for n args r
    by (rule parse_named(3) [OF _ _ _ _ that]; simp add: channelFlagSet_def)
  show ?thesis unfolding channelArgs_def list.map prod.case s b t [OF assms] by (cases f) simp
qed

theorem channel_flags_roundtrip_witness:
  "parseFlags (\<lambda>x. x) channelFlagSet (channelArgs exFlags) channelDefaults = Inr (exFlags, [])"
  by (rule channel_flags_roundtrip) (simp add: exFlags_def int64_def)

subsection \<open>The program\<close>

definition program :: "rounding \<Rightarrow> prims \<Rightarrow> (string \<Rightarrow> string) \<Rightarrow> bytes option \<Rightarrow> bytes option \<Rightarrow> (bytes \<Rightarrow> string + string) \<Rightarrow>
    net \<Rightarrow> (string list \<Rightarrow> string + string) \<Rightarrow> string list \<Rightarrow> exit" where
  "program fl P getenv idRand secretRand indent net serve argv =
     mainRun serve (accountCommand fl jsonStream net) (channelCommand fl P idRand secretRand net)
       (adminCommand fl getenv jsonStream indent net) argv"

text \<open>How a shell splits a line without quotes.\<close>

fun splitOn :: "char \<Rightarrow> string \<Rightarrow> string list" where
  "splitOn x [] = [[]]"
| "splitOn x (c # s) = (if c = x then [] # splitOn x s
     else (case splitOn x s of [] \<Rightarrow> [[c]] | w # ws \<Rightarrow> (c # w) # ws))"

definition shellWords :: "string \<Rightarrow> string list" where
  "shellWords s = filter (\<lambda>w. w \<noteq> []) (splitOn (CHR '' '') s)"

lemma splitOn_word: "x \<notin> set w \<Longrightarrow> splitOn x (w @ x # s) = w # splitOn x s" "x \<notin> set w \<Longrightarrow> splitOn x w = [w]"
  by (induction w) auto

lemma shellWords_word:
  "CHR '' '' \<notin> set w \<Longrightarrow> w \<noteq> [] \<Longrightarrow> shellWords (w @ '' '' @ s) = w # shellWords s"
  "CHR '' '' \<notin> set w \<Longrightarrow> w \<noteq> [] \<Longrightarrow> shellWords w = [w]"
  by (simp_all add: shellWords_def splitOn_word)

text \<open>The line the command prints as its hint.\<close>

definition hintLine :: "string \<Rightarrow> string \<Rightarrow> string" where
  "hintLine i key = ''  doublethink channel create --retain --account '' @ i @ '' --api-key '' @ key"

lemma hint_printed: "\<exists>pre. accountText False \<lparr>an_account = i, an_apiKey = key\<rparr> = pre @ nl @ hintLine i key @ nl"
  by (intro exI) (simp add: accountText_def hintLine_def)

definition hintFlags :: "string \<Rightarrow> string \<Rightarrow> channelFlags" where
  "hintFlags i key = channelDefaults\<lparr>cf_retain := True, cf_account := i, cf_apiKey := key\<rparr>"

lemma hint_words:
  assumes "CHR '' '' \<notin> set i" "i \<noteq> ''''" "CHR '' '' \<notin> set key" "key \<noteq> ''''"
  shows "shellWords (hintLine i key) = [''doublethink'', ''channel'', ''create'', ''--retain'', ''--account'', i, ''--api-key'', key]"
proof -
  have p: "shellWords ('' '' @ s) = shellWords s" for s by (simp add: shellWords_def)
  have "hintLine i key = '' '' @ '' '' @ ''doublethink'' @ '' '' @ ''channel'' @ '' '' @ ''create'' @ '' '' @ ''--retain'' @ '' '' @
      ''--account'' @ '' '' @ i @ '' '' @ ''--api-key'' @ '' '' @ key"
    by (simp add: hintLine_def)
  then show ?thesis using assms unfolding p
    by (simp only: p) (subst shellWords_word; simp del: append_Cons append_Nil)+
qed

lemma hint_parsed:
  "parseFlags fl channelFlagSet [''--retain'', ''--account'', i, ''--api-key'', key] channelDefaults = Inr (hintFlags i key, [])"
proof -
  have "flagOf ''--retain'' = Named ''retain'' None" "flagOf ''--account'' = Named ''account'' None"
    "flagOf ''--api-key'' = Named ''api-key'' None" by code_simp+
  then show ?thesis by (simp add: channelFlagSet_def setFlag_def hintFlags_def)
qed

text \<open>
  C28. The hint works: the last line \<open>account create\<close> prints is a command that, given to the
  program, runs \<open>channel create\<close> with retention and with headers that the server takes for the
  account it has just created.
\<close>
theorem hint_works:
  assumes "redis_ok (v_redis E)" "link_up (v_redis E)" "s_store sv = Some s"
    and "v_rand1 E = Some a" "length a = idBytes" "v_rand2 E = Some b" "length b = keyBytes"
    and "kv (r_db (v_redis E) s) (acctKey (b64urlencode a)) = None"
    and "kv (r_db (v_redis E) s) (acctUsageKey (b64urlencode a)) = None"
    and "carries (trimRightSlash server) wire"
    and "runAccount jsonStream (serverNet urlHost E wire line (hits, sv)) args server False = Inr out"
  shows "\<exists>i key pre. out = pre @ nl @ hintLine i key @ nl \<and>
    program fl P getenv idRand secretRand indent net serve (shellWords (hintLine i key)) =
      (case runChannel P idRand secretRand net [''create''] (hintFlags i key) of
         Inl e \<Rightarrow> ExitFailed 1 (''doublethink: '' @ e @ nl) | Inr t \<Rightarrow> ExitOk t) \<and>
    (\<forall>r. channelHeaders (hintFlags i key) = [(''Authorization'', q_authorization r), (''X-Doublethink-Account'', q_account r)] \<longrightarrow>
      fst (authedAccount E r (servedState urlHost E wire (hits, sv) (postRequest server ''/account'' [] []))) = i)"
proof -
  define i where "i = b64urlencode a"
  define key where "key = keyPrefix @ b64urlencode b"
  note e = account_create_end_to_end [OF assms i_def key_def]
  have sp: "code (CHR '' '') = 32" by (simp add: code_def)
  have "CHR '' '' \<notin> set i" using sym_plain [of "CHR '' ''" a] sp by (auto simp: i_def)
  moreover have "CHR '' '' \<notin> set key" using key_plain [of "CHR '' ''" b] sp by (auto simp: key_def)
  moreover have "i \<noteq> ''''" using assms(5) length_b64urlencode [of a] by (auto simp: i_def idBytes_def)
  moreover have "key \<noteq> ''''" by (simp add: key_def keyPrefix_def)
  ultimately have w: "shellWords (hintLine i key) = [''doublethink'', ''channel'', ''create'', ''--retain'', ''--account'', i, ''--api-key'', key]"
    by (intro hint_words)
  have run: "runChannel P idRand secretRand net (''create'' # as) f = runChannel P idRand secretRand net [''create''] f" for as f
    by (simp add: runChannel_def)
  have "channelCommand fl P idRand secretRand net [''create'', ''--retain'', ''--account'', i, ''--api-key'', key] =
      runChannel P idRand secretRand net [''create''] (hintFlags i key)"
    using hint_parsed [of fl i key] run by (simp add: channelCommand_def del: parseFlags.simps)
  then have "program fl P getenv idRand secretRand indent net serve (shellWords (hintLine i key)) =
      (case runChannel P idRand secretRand net [''create''] (hintFlags i key) of
         Inl e \<Rightarrow> ExitFailed 1 (''doublethink: '' @ e @ nl) | Inr t \<Rightarrow> ExitOk t)"
    by (simp add: w program_def mainRun_def split: sum.split)
  moreover have "channelHeaders (hintFlags i key) = [(''Authorization'', ''Bearer '' @ key), (''X-Doublethink-Account'', i)]"
    by (simp add: channelHeaders_def hintFlags_def channelDefaults_def authHeaders_def)
  moreover obtain pre where "out = pre @ nl @ hintLine i key @ nl" using e hint_printed by metis
  moreover have "fst (authedAccount E r (servedState urlHost E wire (hits, sv) (postRequest server ''/account'' [] []))) = i"
    if "[(''Authorization'', ''Bearer '' @ key), (''X-Doublethink-Account'', i)] =
      [(''Authorization'', q_authorization r), (''X-Doublethink-Account'', q_account r)]" for r :: request
    using that e by simp
  ultimately show ?thesis by metis
qed

theorem hint_works_witness:
  "\<exists>i key pre. runAccount jsonStream (serverNet (\<lambda>_. None) exAcctEnv exCarry (\<lambda>_. '''') (0, exServer)) [''create''] ''http://h'' False =
      Inr (pre @ nl @ hintLine i key @ nl) \<and>
    (\<exists>e. program (\<lambda>x. x) xorPrims (\<lambda>_. '''') None None Inr (\<lambda>c. Unreachable ''down'') (\<lambda>_. Inr '''') (shellWords (hintLine i key)) =
      ExitFailed 1 e) \<and>
    fst (authedAccount exAcctEnv (exRequest\<lparr>q_authorization := ''Bearer '' @ key, q_account := i\<rparr>)
      (servedState (\<lambda>_. None) exAcctEnv exCarry (0, exServer) (postRequest ''http://h'' ''/account'' [] []))) = i"
proof -
  obtain i0 key0 where run: "runAccount jsonStream (serverNet (\<lambda>_. None) exAcctEnv exCarry (\<lambda>_. '''') (0, exServer))
      [''create''] ''http://h'' False = Inr (accountText False \<lparr>an_account = i0, an_apiKey = key0\<rparr>)"
    using exAcct_run by blast
  obtain i key pre where h: "accountText False \<lparr>an_account = i0, an_apiKey = key0\<rparr> = pre @ nl @ hintLine i key @ nl"
    "program (\<lambda>x. x) xorPrims (\<lambda>_. '''') None None Inr (\<lambda>c. Unreachable ''down'') (\<lambda>_. Inr '''') (shellWords (hintLine i key)) =
      (case runChannel xorPrims None None (\<lambda>c. Unreachable ''down'') [''create''] (hintFlags i key) of
         Inl e \<Rightarrow> ExitFailed 1 (''doublethink: '' @ e @ nl) | Inr t \<Rightarrow> ExitOk t)"
    "\<And>r. channelHeaders (hintFlags i key) = [(''Authorization'', q_authorization r), (''X-Doublethink-Account'', q_account r)] \<Longrightarrow>
      fst (authedAccount exAcctEnv r (servedState (\<lambda>_. None) exAcctEnv exCarry (0, exServer) (postRequest ''http://h'' ''/account'' [] []))) = i"
    using hint_works [OF exAcct_fresh(2,3) exServer_fields(1) exAcct_rand exAcct_fresh(1,1) exCarry_carries run,
        of "\<lambda>x. x" xorPrims "\<lambda>_. ''''" None None Inr "\<lambda>c. Unreachable ''down''" "\<lambda>_. Inr ''''"] by blast
  have "runChannel xorPrims None None (\<lambda>c. Unreachable ''down'') [''create''] (hintFlags i key) = Inl ''entropy'' \<or>
      runChannel xorPrims None None (\<lambda>c. Unreachable ''down'') [''create''] (hintFlags i key) =
      Inl ''--retain requires --account and --api-key (run 'doublethink account create'), or use --ticket''"
    by (simp add: runChannel_def hintFlags_def channelDefaults_def randomChannelID_def)
  then have "\<exists>e. program (\<lambda>x. x) xorPrims (\<lambda>_. '''') None None Inr (\<lambda>c. Unreachable ''down'') (\<lambda>_. Inr '''') (shellWords (hintLine i key)) =
      ExitFailed 1 e"
    unfolding h(2) by (elim disjE) simp_all
  moreover have "fst (authedAccount exAcctEnv (exRequest\<lparr>q_authorization := ''Bearer '' @ key, q_account := i\<rparr>)
      (servedState (\<lambda>_. None) exAcctEnv exCarry (0, exServer) (postRequest ''http://h'' ''/account'' [] []))) = i"
    by (rule h(3)) (simp add: channelHeaders_def hintFlags_def channelDefaults_def authHeaders_def)
  ultimately show ?thesis using run h(1) by auto
qed

end
