(* ===== verification/Server_Life.thy ===== *)
theory Server_Life
  imports Server_Run Go_Flags
begin

text \<open>
  The life of the server command after it has booted (\<open>runServe\<close> and \<open>runSweeper\<close> in
  \<open>src/cmd/doublethink/serve.go\<close>): it serves and sweeps until a signal arrives or its listener
  ends, and returns. The three goroutines (the listener, the sweeper, and the one that waits
  in \<open>select\<close>) take turns in any order.
\<close>

subsection \<open>State and steps\<close>

text \<open>How \<open>ListenAndServe\<close> ends: it returns \<open>http.ErrServerClosed\<close> once \<open>Shutdown\<close> has been
  called, and otherwise the error of the listener.\<close>

datatype listenEnd = ErrServerClosed | ListenFailed string

datatype logLine = LogPruneError store_error | LogPruned int | LogShuttingDown

record 'r life =
  lf_served :: "'r Transport_Safety.served"
  lf_log :: "logLine list"
  lf_signal :: bool \<comment> \<open>\<open>ctx\<close> is done\<close>
  lf_sweeper :: bool \<comment> \<open>\<open>runSweeper\<close> has not returned\<close>
  lf_listen :: "listenEnd option" \<comment> \<open>what is in \<open>errCh\<close>\<close>
  lf_stopping :: bool \<comment> \<open>\<open>Shutdown\<close> has been called\<close>
  lf_result :: "string option option" \<comment> \<open>what \<open>runServe\<close> returned, \<open>Some None\<close> being nil\<close>

definition startLife :: "'r server \<Rightarrow> 'r life" where
  "startLife sv = \<lparr>lf_served = (sv, [], []), lf_log = [], lf_signal = False, lf_sweeper = True,
     lf_listen = None, lf_stopping = False, lf_result = None\<rparr>"

text \<open>The command up to that point: flags, then boot.\<close>

datatype start_error = BadFlags string | BootFailed boot_error

definition serveStart :: "rounding \<Rightarrow> 'r redis \<Rightarrow> (string \<Rightarrow> string) \<Rightarrow> string list \<Rightarrow> 'r \<Rightarrow> start_error + 'r life" where
  "serveStart fl R getenv args s =
     (case serveFlagsOf fl getenv args of
        Inl e \<Rightarrow> Inl (BadFlags e)
      | Inr flags \<Rightarrow> (case runServe fl R getenv flags s of
            Inl e \<Rightarrow> Inl (BootFailed e)
          | Inr sv \<Rightarrow> Inr (startLife sv)))"

text \<open>What one tick of the sweeper logs, and the server it leaves.\<close>

definition sweepLog :: "'r env \<Rightarrow> 'r server \<Rightarrow> logLine list \<times> 'r server" where
  "sweepLog E sv = (case callStore E (PruneExpired (v_unix E)) sv of
       (Some (Inl e), sv) \<Rightarrow> ([LogPruneError e], sv)
     | (Some (Inr n), sv) \<Rightarrow> (if n > 0 then [LogPruned n] else [], sv)
     | (None, sv) \<Rightarrow> ([], sv))"

text \<open>The second branch of the \<open>select\<close>.\<close>

definition listenResult :: "listenEnd \<Rightarrow> string option" where
  "listenResult e = (case e of ErrServerClosed \<Rightarrow> None | ListenFailed x \<Rightarrow> Some x)"

text \<open>A tick can still win against a context that is done, since \<open>select\<close> picks any ready case;
  requests that are being served go on while the listener shuts down.\<close>

inductive lifeStep :: "'r life \<Rightarrow> 'r life \<Rightarrow> bool" where
  ll_serve: "lf_result l = None \<Longrightarrow> serverStep (lf_served l) sd \<Longrightarrow> lifeStep l (l\<lparr>lf_served := sd\<rparr>)"
| ll_tick: "lf_result l = None \<Longrightarrow> lf_sweeper l \<Longrightarrow> lf_served l = (sv, ws, ss) \<Longrightarrow> sweepLog E sv = (out, sv') \<Longrightarrow>
     lifeStep l (l\<lparr>lf_served := (sv', ws, ss), lf_log := lf_log l @ out\<rparr>)"
| ll_sweeper_ends: "lf_result l = None \<Longrightarrow> lf_signal l \<Longrightarrow> lifeStep l (l\<lparr>lf_sweeper := False\<rparr>)"
| ll_signal: "lf_result l = None \<Longrightarrow> lifeStep l (l\<lparr>lf_signal := True\<rparr>)"
| ll_listen_fails: "lf_result l = None \<Longrightarrow> lf_listen l = None \<Longrightarrow> \<not> lf_stopping l \<Longrightarrow>
     lifeStep l (l\<lparr>lf_listen := Some (ListenFailed x)\<rparr>)"
| ll_listen_closed: "lf_result l = None \<Longrightarrow> lf_listen l = None \<Longrightarrow> lf_stopping l \<Longrightarrow>
     lifeStep l (l\<lparr>lf_listen := Some ErrServerClosed\<rparr>)"
| ll_shutdown: "lf_result l = None \<Longrightarrow> lf_signal l \<Longrightarrow> \<not> lf_stopping l \<Longrightarrow>
     lifeStep l (l\<lparr>lf_stopping := True, lf_log := lf_log l @ [LogShuttingDown]\<rparr>)"
| ll_returned: "lf_result l = None \<Longrightarrow> lf_stopping l \<Longrightarrow> lifeStep l (l\<lparr>lf_result := Some None\<rparr>)"
| ll_listen_over: "lf_result l = None \<Longrightarrow> lf_listen l = Some e \<Longrightarrow> \<not> lf_stopping l \<Longrightarrow>
     lifeStep l (l\<lparr>lf_result := Some (listenResult e)\<rparr>)"

inductive_simps returned_final: "lifeStep l l'"

subsection \<open>What the program returns\<close>

lemma sweepLog_step: "sweepLog E sv = (out, sv') \<Longrightarrow> serverStep (sv, ws, ss) (sv', ws, ss) \<and> LogShuttingDown \<notin> set out"
  by (auto simp: sweepLog_def intro: ss_sweep split: prod.splits option.splits sum.splits if_splits)

text \<open>The life adds nothing to what the server's own steps can do.\<close>

lemma life_served: "lifeStep\<^sup>*\<^sup>* l l' \<Longrightarrow> serverStep\<^sup>*\<^sup>* (lf_served l) (lf_served l')"
proof (induction rule: rtranclp_induct)
  case (step m n)
  from step(2) have "serverStep\<^sup>*\<^sup>* (lf_served m) (lf_served n)"
  proof cases
    case (ll_tick sv ws ss E out sv')
    then show ?thesis using sweepLog_step [OF ll_tick(5), of ws ss] by auto
  qed auto
  with step.IH show ?case by simp
qed simp

text \<open>The reasons of a return: a nil return was asked for, an error is the listener's, and the
  shutdown is announced exactly once, when it begins.\<close>

definition lifeInv :: "'r life \<Rightarrow> bool" where
  "lifeInv l \<longleftrightarrow> (lf_stopping l \<longrightarrow> lf_signal l) \<and> (\<not> lf_sweeper l \<longrightarrow> lf_signal l) \<and>
     (lf_listen l = Some ErrServerClosed \<longrightarrow> lf_stopping l) \<and>
     (\<forall>y. lf_result l = Some y \<longrightarrow> (y = None \<longrightarrow> lf_stopping l) \<and>
       (\<forall>x. y = Some x \<longrightarrow> lf_listen l = Some (ListenFailed x) \<and> \<not> lf_stopping l)) \<and>
     count_list (lf_log l) LogShuttingDown = (if lf_stopping l then 1 else 0)"

lemma startLife_inv: "lifeInv (startLife sv)"
  by (simp add: lifeInv_def startLife_def)

lemma count_none: "x \<notin> set xs \<Longrightarrow> count_list xs x = 0"
  by (rule count_notin)

lemma lifeStep_inv: "lifeStep l l' \<Longrightarrow> lifeInv l \<Longrightarrow> lifeInv l'"
proof (induction rule: lifeStep.induct)
  case (ll_tick l sv ws ss E out sv')
  then show ?case using sweepLog_step [OF ll_tick(4)] by (auto simp: lifeInv_def)
qed (auto simp: lifeInv_def listenResult_def split: listenEnd.splits)

lemma life_inv: "lifeStep\<^sup>*\<^sup>* (startLife sv) l \<Longrightarrow> lifeInv l"
  by (induction rule: rtranclp_induct) (use startLife_inv lifeStep_inv in blast)+

text \<open>
  C24. The program runs until it is told to stop or loses its listener: it returns nil only after
  a signal and after announcing the shutdown, exactly once; it returns an error only with the
  listener's own error and without a shutdown; once it has returned nothing happens any more;
  and in every state after a signal it can still return, with nil. Until then the server it
  serves is one its own steps reach.
\<close>
theorem serve_returns:
  assumes "lifeStep\<^sup>*\<^sup>* (startLife sv) l"
  shows "(case lf_result l of
      None \<Rightarrow> lf_signal l \<longrightarrow> (\<exists>l'. lifeStep\<^sup>*\<^sup>* l l' \<and> lf_result l' = Some None)
    | Some None \<Rightarrow> lf_signal l \<and> count_list (lf_log l) LogShuttingDown = 1 \<and> (\<nexists>l'. lifeStep l l')
    | Some (Some x) \<Rightarrow> lf_listen l = Some (ListenFailed x) \<and> LogShuttingDown \<notin> set (lf_log l) \<and> (\<nexists>l'. lifeStep l l')) \<and>
    serverStep\<^sup>*\<^sup>* (sv, [], []) (lf_served l)"
proof -
  note i = life_inv [OF assms]
  have z: "count_list (lf_log l) LogShuttingDown = 0 \<Longrightarrow> LogShuttingDown \<notin> set (lf_log l)"
    by (simp add: count_list_0_iff)
  have "\<exists>l'. lifeStep\<^sup>*\<^sup>* l l' \<and> lf_result l' = Some None" if "lf_result l = None" "lf_signal l"
  proof -
    obtain m where m: "lifeStep\<^sup>*\<^sup>* l m" "lf_result m = None" "lf_stopping m"
    proof (cases "lf_stopping l")
      case False
      show thesis by (rule that [OF r_into_rtranclp, OF ll_shutdown]) (use \<open>lf_result l = None\<close> \<open>lf_signal l\<close> False in simp_all)
    qed (use \<open>lf_result l = None\<close> in blast)
    from ll_returned [OF m(2,3)] m(1) have "lifeStep\<^sup>*\<^sup>* l (m\<lparr>lf_result := Some None\<rparr>)" by simp
    then show ?thesis by fastforce
  qed
  then show ?thesis
    using i z life_served [OF assms] by (auto simp: lifeInv_def returned_final startLife_def split: option.splits)
qed

theorem serve_returns_witness:
  "\<exists>l. lifeStep\<^sup>*\<^sup>* (startLife exServer) l \<and> lf_result l = Some None \<and> count_list (lf_log l) LogShuttingDown = 1"
proof -
  let ?a = "(startLife exServer)\<lparr>lf_signal := True\<rparr>"
  have "lifeStep (startLife exServer) ?a" by (rule ll_signal) (simp add: startLife_def)
  then have a: "lifeStep\<^sup>*\<^sup>* (startLife exServer) ?a" by simp
  moreover have "lf_result ?a = None" "lf_signal ?a" by (simp_all add: startLife_def)
  ultimately obtain l where l: "lifeStep\<^sup>*\<^sup>* ?a l" "lf_result l = Some None"
    using serve_returns [OF a] by auto
  with a have "lifeStep\<^sup>*\<^sup>* (startLife exServer) l" by simp
  with serve_returns [OF this] l(2) show ?thesis by auto
qed

end
