(* ===== verification/Spec2Isabelle.thy ===== *)
theory Spec2Isabelle
  imports Broker_Trace Account Admin Store_Sweep Store_System Store_Termination Transport_Races Server_Run Client_Commands Public_Client Client_Server Command_Line Server_Life
begin

text \<open>
  A verification development for doublethink, a Go broker that relays messages between the
  parties of a channel. Two parties share a secret; the broker knows only a key derived from
  it, admits to the channel whoever proves that key, fans every message out to the live
  subscribers and, for retained channels, keeps a bounded log in Redis for those who are
  away. Names that are not private channels are open topics.

  \<^bold>\<open>Parts and theories.\<close> Each theory follows the order of the code; functions keep their Go
  names where HOL leaves them free.

  \<^item> \<open>Prelude\<close>, \<open>Codec\<close>, \<open>Interfaces\<close>: Go strings and bytes, \<open>strings\<close>, \<open>strconv\<close>, 64-bit
    wrap-around, base32 and base64 with their round trips, and the contracts between
    components as locales: \<open>fanout\<close> (what publishing promises the transport; interpreted in
    \<open>Broker_Delivery\<close>), \<open>codec\<close> (encodings; in \<open>Codec\<close> and \<open>Client_Crypto\<close>), \<open>message_log\<close>
    (paging through a log; in \<open>Store_Messages\<close>), \<open>admission\<close> (in \<open>Auth\<close>) and
    \<open>keyed_limiter\<close> (in \<open>Rate_Limits\<close>).
  \<^item> \<open>Envelope\<close>: \<open>internal/envelope\<close>, the wire message, \<open>Validate\<close> and \<open>Decode\<close>.
  \<^item> \<open>Json_Text\<close>, \<open>Json\<close>, \<open>Json_Scan\<close>, \<open>Json_Compact\<close>, \<open>Json_Print\<close>: what the code uses of
    Go's \<open>encoding/json\<close>: UTF-8 with its replacement character, string literals and their
    escapes, the scanner with its nesting bound, the decoders of a whole text and of the first
    value of a stream, the compaction and HTML escaping of a \<open>RawMessage\<close>, and that every text
    that denotes a value is read as that value. \<open>Envelope_Json\<close>: \<open>Encode\<close>, over them.
  \<^item> \<open>Broker\<close>, \<open>Broker_Delivery\<close>, \<open>Broker_Trace\<close>: \<open>internal/broker\<close>. Subscriptions are
    pointers in Go, so the state has a heap of them next to the map of maps; channels of Go
    are the queue and the closed flag of a subscription. A mutex section is one step; the
    closes that follow it are steps of their own in \<open>btrace\<close>.
  \<^item> \<open>Client_Crypto\<close>, \<open>Public_Client\<close>: \<open>internal/clientcrypto\<close> and the public aliases in
    \<open>pkg/clientcrypto\<close>.
  \<^item> \<open>Auth\<close>, \<open>Account\<close>, \<open>Admin\<close>, \<open>Rate_Limits\<close>: the registry of channel keys, account keys,
    the operator's key, token buckets and connection slots (\<open>internal/auth\<close>, \<open>account\<close>,
    \<open>admin\<close>, \<open>limits\<close>).
  \<^item> \<open>Redis\<close>, \<open>Store\<close>: \<open>internal/store\<close>. Redis and its client are a parameter (record
    \<open>redis\<close>) with their documented behaviour as the hypothesis \<open>redis_ok\<close>; every method and
    every Lua script is a program over Redis commands. \<open>Store_Log\<close>, \<open>Store_Messages\<close>,
    \<open>Store_Sweep\<close>, \<open>Store_Channels\<close>, \<open>Store_Registry\<close>, \<open>Store_Termination\<close> say what each does
    on every branch; \<open>Store_System\<close> lets any number of calls interleave request by request
    over a link that loses and repeats requests while keys expire.
  \<^item> \<open>Http\<close>, \<open>Transport\<close>, \<open>Transport_Live\<close>, \<open>Routes\<close>: \<open>internal/transport\<close>. The record
    \<open>server\<close> is Go's \<open>Server\<close>; a handler is a function from the request and the server to the
    response and the server, with the code's guards in the code's order. WebSocket sessions
    and event streams are their start, one turn of the reader, one turn of the writer, and
    their end. \<open>serveHTTP\<close> is \<open>Handler\<close> with the mux.
  \<^item> \<open>Transport_Safety\<close>, \<open>_Gate\<close>, \<open>_Sessions\<close>, \<open>_Pairing\<close>, \<open>_Races\<close>, \<open>_Faults\<close>: what holds in
    every execution of the server. \<open>serverStep\<close> is one handler, turn, end of a session or
    stream, or sweep; a state carries the open sessions and streams, so every interleaving
    of clients is a path of the relation.
  \<^item> \<open>Wire\<close>, \<open>Http_Text\<close>, \<open>Ws_Text\<close>: the transport with its texts as bytes: frames, events,
    requests, answers, the handshake and the error envelopes. \<open>Wire.codec\<close> says that the
    reader and printer of an environment are those of \<open>encoding/json\<close>.
  \<^item> \<open>Server_Boot\<close>, \<open>Server_Run\<close>, \<open>Server_Life\<close>: \<open>cmd/doublethink/serve.go\<close> from the flags to
    the running server, that every request to it is a step of \<open>serverStep\<close>, and its life until
    it returns: \<open>lifeStep\<close> interleaves requests, the sweeper, the signal, the listener's end
    and the shutdown.
  \<^item> \<open>Client_Commands\<close>: the commands of \<open>cmd/doublethink\<close>, from the settings through the request
    to the text they print, and the dispatch of \<open>main\<close>. \<open>Go_Flags\<close>: Go's \<open>flag\<close> package as the
    commands use it (with \<open>strconv\<close> and \<open>time.ParseDuration\<close>) and each command's flag set.
    \<open>Client_Server\<close> joins the commands to the server's handlers through \<open>serverNet\<close>;
    \<open>Command_Line\<close> starts from the words of the shell.

  \<^bold>\<open>What is shown.\<close> Delivery in order without loss up to removal, over all interleavings
  (\<open>Broker_Trace\<close>). Admission exactly by proof of the registered key, from the client's
  secret through creation, restart and the challenge (\<open>Auth\<close>, \<open>Transport_Gate\<close>,
  \<open>Transport_Pairing\<close>, \<open>Server_Boot\<close>, \<open>Client_Commands\<close>). Private channels closed to the open
  path in every execution (\<open>Transport_Safety\<close>, \<open>Server_Run\<close>). Retention as a ring buffer with
  counters in step, exact catch-up, resumption and sweep, single-use tickets
  (\<open>Store_*\<close>). Rate and connection bounds (\<open>Rate_Limits\<close>, \<open>Transport_Sessions\<close>). No gap on
  the WebSocket path and the gap on the open one (\<open>Transport_Races\<close>); failing closed without
  Redis and the overflow of a requested lifetime (\<open>Transport_Faults\<close>). Down to the bytes: what
  the broker encodes decodes to what it accepted (\<open>Envelope_Json\<close>), a published frame reaches
  the subscribers and, verbatim, the later sessions of a retained channel, and no published
  text can forge an event (\<open>Wire\<close>); the secret a command prints opens its channel and the
  account it prints is the one the server knows (\<open>Client_Server\<close>, \<open>Command_Line\<close>). The server
  ends only when it is told to or loses its listener (\<open>Server_Life\<close>).

  \<^bold>\<open>Bounds and fuel.\<close> Times are nanoseconds as Go's \<open>int64\<close>, wrapped by \<open>wrap64\<close> where the
  code multiplies. The eviction loop of the append script and the \<open>SCAN\<close> loop of the
  statistics take fuel (\<open>v_fuel\<close>); a script out of fuel replies \<open>RHang\<close>, and
  \<open>eviction_terminates\<close> shows that a fuel above the length of the stream is never used up.
  Sequence numbers are exact below \<open>2 ^ 53\<close>, as in Lua (\<open>exact\<close>). The JSON reader has as fuel
  twice the length of its input and two, which \<open>parse_complete\<close> shows to be enough; texts nested
  deeper than Go's 10000 (\<open>maxDepth\<close>) are refused as Go refuses them.

  \<^bold>\<open>Parameters.\<close> Code that is not in the repository: Redis and go-redis (\<open>redis\<close>), the
  cryptographic primitives (\<open>prims\<close>), the WebSocket library's verdict on an upgrade and its
  frames, and the host of a URL. What the run-time leaves open: randomness, the clock, the
  order in which Go visits a map (\<open>v_order\<close>), float rounding (\<open>rounding\<close>), how many writes
  a connection takes before it breaks, when a signal arrives and why a listener fails. An
  environment also carries its JSON reader and printer, so that the theorems about handlers
  that do not depend on the text hold for any; those that do assume \<open>Wire.codec\<close>.

  \<^bold>\<open>Not modelled.\<close> Percent-escaped paths and the canonical form of header values (HTTP carries
  paths and headers as they are), \<open>%q\<close> of characters that need escaping, the log lines of the
  start, the usage texts that \<open>-h\<close> prints for a single command, the inside of \<open>net/http\<close>'s
  listener and \<open>Shutdown\<close>, and deadlines other than as a read or write that fails.
\<close>

end
